(* ===== verification/Quill_Prelude.thy ===== *)
theory Quill_Prelude
  imports Main "HOL-Library.Word" "HOL-Library.AList" "HOL-Library.Sublist"
begin

text \<open>
  Shared vocabulary of the development: the named collections of rewrite rules, the machine
  integers and byte strings the Rust sources use, the operations of \<^verbatim>\<open>str\<close> they call
  (\<^verbatim>\<open>split_once\<close>, \<^verbatim>\<open>rsplit_once\<close>, \<^verbatim>\<open>strip_prefix\<close>, \<^verbatim>\<open>strip_suffix\<close>, \<^verbatim>\<open>split\<close>,
  \<^verbatim>\<open>trim\<close>, \<^verbatim>\<open>trim_matches\<close>), and the concurrent hash maps (\<^verbatim>\<open>DashMap\<close>) as association lists
  behind a map interface.  A Rust \<^verbatim>\<open>str\<close> is its UTF-8 byte sequence, one \<^typ>\<open>char\<close> per byte,
  so \<^verbatim>\<open>len\<close> is \<^const>\<open>length\<close>.  Character classes are the ASCII ones.
\<close>

named_theorems fs_simps \<open>what a file system call returns and what it leaves in place\<close>
named_theorems path_simps \<open>resolution of the paths of the storage layout\<close>
named_theorems cas_intros \<open>operations that keep the content-addressed store consistent\<close>

section \<open>Machine integers, bytes, clocks\<close>

type_synonym u64 = "64 word"
type_synonym byte = "8 word"
type_synonym bytes = "byte list"

text \<open>\<^verbatim>\<open>len() as u64\<close>\<close>

definition len_u64 :: "'a list \<Rightarrow> u64" where
  "len_u64 xs = of_nat (length xs)"

text \<open>\<^verbatim>\<open>u64::saturating_add\<close> and \<^verbatim>\<open>u64::saturating_sub\<close>\<close>

definition sat_add :: "u64 \<Rightarrow> u64 \<Rightarrow> u64" where
  "sat_add a b = (if unat a + unat b < 2 ^ 64 then a + b else - 1)"

definition sat_sub :: "u64 \<Rightarrow> u64 \<Rightarrow> u64" where
  "sat_sub a b = (if b \<le> a then a - b else 0)"

lemma unat_sat_add: "unat (sat_add a b) = min (unat a + unat b) (2 ^ 64 - 1)"
proof (cases "unat a + unat b < 2 ^ 64")
  case True
  then show ?thesis by (simp add: sat_add_def unat_word_ariths)
next
  case False
  then show ?thesis by (simp add: sat_add_def unsigned_minus_1_eq_mask mask_eq_exp_minus_1)
qed

lemma unat_sat_sub: "unat (sat_sub a b) = unat a - unat b"
proof (cases "b \<le> a")
  case True
  then show ?thesis by (simp add: sat_sub_def unat_sub)
next
  case False
  then show ?thesis by (simp add: sat_sub_def word_le_nat_alt)
qed

lemma unat_len_u64: "length xs < 2 ^ 64 \<Longrightarrow> unat (len_u64 xs) = length xs"
  by (simp add: len_u64_def unsigned_of_nat take_bit_nat_eq_self)

lemma sat_add_len: "length (b @ c) < 2 ^ 64 \<Longrightarrow> sat_add (len_u64 b) (len_u64 c) = len_u64 (b @ c)"
  by (simp add: sat_add_def unat_len_u64) (simp add: len_u64_def)

text \<open>
  What a call reads of its host: \<^verbatim>\<open>Instant::now()\<close> (monotonic) and \<^verbatim>\<open>SystemTime::now()\<close> /
  \<^verbatim>\<open>Utc::now()\<close> (wall clock, since the epoch), in nanoseconds, and \<^verbatim>\<open>process::id()\<close>.
\<close>

record clock =
  inst :: nat
  wall :: nat
  pid :: u64

text \<open>\<^verbatim>\<open>{:016x}\<close>\<close>

definition hex_digit :: "nat \<Rightarrow> char" where
  "hex_digit n = ''0123456789abcdef'' ! (n mod 16)"

definition hex16 :: "u64 \<Rightarrow> string" where
  "hex16 w = map (\<lambda>i. hex_digit (unat w div 16 ^ i)) (rev [0..<16])"

lemma length_hex16 [simp]: "length (hex16 w) = 16"
  by (simp add: hex16_def)

lemma hex_digit_in: "hex_digit n \<in> set ''0123456789abcdef''"
proof -
  have "n mod 16 < length ''0123456789abcdef''" by simp
  then show ?thesis unfolding hex_digit_def by (rule nth_mem)
qed

lemma hex16_chars: "c \<in> set (hex16 w) \<Longrightarrow> c \<in> set ''0123456789abcdef''"
  using hex_digit_in unfolding hex16_def by fastforce

section \<open>Operations on strings\<close>

fun strip_prefix_str :: "'a list \<Rightarrow> 'a list \<Rightarrow> 'a list option" where
  "strip_prefix_str [] s = Some s"
| "strip_prefix_str (p # ps) [] = None"
| "strip_prefix_str (p # ps) (c # s) = (if p = c then strip_prefix_str ps s else None)"

definition starts_with :: "'a list \<Rightarrow> 'a list \<Rightarrow> bool" where
  "starts_with p s \<longleftrightarrow> strip_prefix_str p s \<noteq> None"

definition strip_suffix_str :: "'a list \<Rightarrow> 'a list \<Rightarrow> 'a list option" where
  "strip_suffix_str p s = map_option rev (strip_prefix_str (rev p) (rev s))"

lemma strip_prefix_str_Some [simp]: "strip_prefix_str p s = Some r \<longleftrightarrow> s = p @ r"
  by (induction p s rule: strip_prefix_str.induct) auto

lemma starts_with_iff: "starts_with p s \<longleftrightarrow> prefix p s"
  by (auto simp: starts_with_def prefix_def)

lemma strip_suffix_str_Some [simp]: "strip_suffix_str p s = Some r \<longleftrightarrow> s = r @ p"
proof -
  have "strip_suffix_str p s = Some r \<longleftrightarrow> rev s = rev p @ rev r"
    by (auto simp: strip_suffix_str_def)
  also have "\<dots> \<longleftrightarrow> s = r @ p"
    by (metis rev_append rev_rev_ident)
  finally show ?thesis .
qed

fun split_once :: "'a \<Rightarrow> 'a list \<Rightarrow> ('a list \<times> 'a list) option" where
  "split_once c [] = None"
| "split_once c (x # s) =
     (if x = c then Some ([], s) else map_option (\<lambda>(a, b). (x # a, b)) (split_once c s))"

lemma split_once_Some: "split_once c s = Some (a, b) \<longleftrightarrow> s = a @ c # b \<and> c \<notin> set a"
proof (induction s arbitrary: a)
  case Nil
  then show ?case by simp
next
  case (Cons x s)
  then show ?case by (cases a) auto
qed

lemma split_once_None [simp]: "split_once c s = None \<longleftrightarrow> c \<notin> set s"
  by (induction s) auto

text \<open>The last occurrence of a (non-empty) pattern, as \<^verbatim>\<open>rsplit_once\<close> finds it.\<close>

fun rsplit_once :: "'a list \<Rightarrow> 'a list \<Rightarrow> ('a list \<times> 'a list) option" where
  "rsplit_once p [] = (if p = [] then Some ([], []) else None)"
| "rsplit_once p (x # s) =
     (case rsplit_once p s of
        Some (a, b) \<Rightarrow> Some (x # a, b)
      | None \<Rightarrow> map_option (\<lambda>r. ([], r)) (strip_prefix_str p (x # s)))"

lemma rsplit_once_None: "rsplit_once p s = None \<longleftrightarrow> (\<nexists>a b. s = a @ p @ b)"
proof (induction s)
  case Nil
  then show ?case by simp
next
  case (Cons x s)
  have "(\<exists>a b. x # s = a @ p @ b) \<longleftrightarrow> (\<exists>b. x # s = p @ b) \<or> (\<exists>a b. s = a @ p @ b)"
    by (metis append_Cons append_Nil list.exhaust list.inject)
  moreover have "(\<exists>b. x # s = p @ b) \<longleftrightarrow> strip_prefix_str p (x # s) \<noteq> None"
    by (metis not_None_eq strip_prefix_str_Some)
  moreover have "rsplit_once p (x # s) = None \<longleftrightarrow>
      rsplit_once p s = None \<and> strip_prefix_str p (x # s) = None"
    by (auto simp del: strip_prefix_str.simps split: option.splits)
  ultimately show ?case
    using Cons.IH by argo
qed

lemma rsplit_once_SomeD: "rsplit_once p s = Some (a, b) \<Longrightarrow> s = a @ p @ b"
proof (induction s arbitrary: a)
  case Nil
  then show ?case by (simp split: if_splits)
next
  case (Cons x s)
  then show ?case by (auto split: option.splits)
qed

lemma rsplit_once_last:
  "rsplit_once p s = Some (a, b) \<Longrightarrow> s = a' @ p @ b' \<Longrightarrow> length a' \<le> length a"
proof (induction s arbitrary: a b a')
  case Nil
  then show ?case by simp
next
  case (Cons x s)
  show ?case
  proof (cases "rsplit_once p s")
    case None
    then have "\<nexists>a b. s = a @ p @ b" by (simp add: rsplit_once_None)
    with Cons.prems(2) show ?thesis by (cases a') auto
  next
    case (Some ab)
    then obtain a1 b1 where ab: "rsplit_once p s = Some (a1, b1)" by (cases ab) auto
    with Cons.prems(1) have "a = x # a1" by simp
    with Cons.IH [OF ab] Cons.prems(2) show ?thesis by (cases a') auto
  qed
qed

lemma rsplit_once_char: "c \<notin> set e \<Longrightarrow> rsplit_once [c] (a @ c # e) = Some (a, e)"
proof (induction a)
  case Nil
  then have "rsplit_once [c] e = None" by (auto simp: rsplit_once_None)
  then show ?case by simp
qed simp

text \<open>\<^verbatim>\<open>split(c)\<close>: the pieces between the separators; never empty.\<close>

fun split_on :: "'a \<Rightarrow> 'a list \<Rightarrow> 'a list list" where
  "split_on c [] = [[]]"
| "split_on c (x # s) =
     (if x = c then [] # split_on c s
      else case split_on c s of [] \<Rightarrow> [[x]] | w # ws \<Rightarrow> (x # w) # ws)"

lemma split_on_nonempty [simp]: "split_on c s \<noteq> []"
  by (cases s) (auto split: list.splits)

lemma split_on_no_sep: "w \<in> set (split_on c s) \<Longrightarrow> c \<notin> set w"
  by (induction s arbitrary: w) (auto split: if_splits list.splits)

lemma split_on_single: "c \<notin> set s \<Longrightarrow> split_on c s = [s]"
  by (induction s) auto

lemma split_on_append:
  "split_on c (s @ c # t) = split_on c s @ split_on c t"
  by (induction s) (auto split: list.splits)

definition is_ws :: "char \<Rightarrow> bool" where
  "is_ws c \<longleftrightarrow> c \<in> {CHR '' '', CHR 0x09, CHR 0x0A, CHR 0x0B, CHR 0x0C, CHR 0x0D}"

definition trim_by :: "('a \<Rightarrow> bool) \<Rightarrow> 'a list \<Rightarrow> 'a list" where
  "trim_by P s = rev (dropWhile P (rev (dropWhile P s)))"

definition trim :: "string \<Rightarrow> string" where
  "trim = trim_by is_ws"

definition trim_matches :: "char \<Rightarrow> string \<Rightarrow> string" where
  "trim_matches c = trim_by (\<lambda>x. x = c)"

definition ascii_lower :: "char \<Rightarrow> char" where
  "ascii_lower c = (let n = of_char c :: nat in if 65 \<le> n \<and> n \<le> 90 then char_of (n + 32) else c)"

definition to_lowercase :: "string \<Rightarrow> string" where
  "to_lowercase = map ascii_lower"

lemma length_to_lowercase [simp]: "length (to_lowercase s) = length s"
  by (simp add: to_lowercase_def)

section \<open>Concurrent hash maps\<close>

text \<open>
  A \<^verbatim>\<open>DashMap\<close> is an association list: \<^verbatim>\<open>get\<close> is \<^const>\<open>map_of\<close>, \<^verbatim>\<open>insert\<close> replaces or adds,
  \<^verbatim>\<open>remove\<close> drops the key, and \<^verbatim>\<open>iter\<close> is the list, whose order nothing relies on.
\<close>

type_synonym ('k, 'v) dashmap = "('k \<times> 'v) list"

definition dm_get :: "('k, 'v) dashmap \<Rightarrow> 'k \<Rightarrow> 'v option" where
  "dm_get m k = map_of m k"

definition dm_insert :: "'k \<Rightarrow> 'v \<Rightarrow> ('k, 'v) dashmap \<Rightarrow> ('k, 'v) dashmap" where
  "dm_insert k v m = AList.update k v m"

definition dm_remove :: "'k \<Rightarrow> ('k, 'v) dashmap \<Rightarrow> ('k, 'v) dashmap" where
  "dm_remove k m = AList.delete k m"

definition dm_ok :: "('k, 'v) dashmap \<Rightarrow> bool" where
  "dm_ok m \<longleftrightarrow> distinct (map fst m)"

lemma dm_get_empty [simp]: "dm_get [] k = None"
  by (simp add: dm_get_def)

lemma dm_get_insert [simp]: "dm_get (dm_insert k v m) k' = (if k' = k then Some v else dm_get m k')"
  by (simp add: dm_get_def dm_insert_def update_conv)

lemma dm_get_remove [simp]: "dm_get (dm_remove k m) k' = (if k' = k then None else dm_get m k')"
  by (simp add: dm_get_def dm_remove_def delete_conv')

lemma dm_ok_empty [simp]: "dm_ok []"
  by (simp add: dm_ok_def)

lemma dm_ok_insert [simp]: "dm_ok m \<Longrightarrow> dm_ok (dm_insert k v m)"
  by (simp add: dm_ok_def dm_insert_def distinct_update)

lemma dm_ok_remove [simp]: "dm_ok m \<Longrightarrow> dm_ok (dm_remove k m)"
  by (simp add: dm_ok_def dm_remove_def distinct_delete)

lemma dm_get_iff: "dm_ok m \<Longrightarrow> dm_get m k = Some v \<longleftrightarrow> (k, v) \<in> set m"
  by (simp add: dm_ok_def dm_get_def)

lemma map_of_rev_distinct: "distinct (map fst ts) \<Longrightarrow> map_of (rev ts) = map_of ts"
  by (rule map_of_inject_set [THEN iffD2]) (auto simp: rev_map [symmetric])

end
