(* ===== verification/Digest.thy ===== *)
theory Digest
  imports Quill_Prelude
begin

text \<open>
  \<^verbatim>\<open>crates/quill-storage/src/digest.rs\<close>: the content digests \<^verbatim>\<open>sha256:<hex>\<close>, their parser
  \<^verbatim>\<open>Digest::parse\<close> with every error it reports, and \<^verbatim>\<open>Display\<close>.  The well-formedness predicate
  \<open>wf_digest\<close> is what every parsed digest satisfies, and the parser inverts the printer on it.
\<close>

section \<open>Data\<close>

datatype digest_error =
    MissingSeparator
  | UnsupportedAlgorithm string
  | InvalidHexLength nat nat
  | InvalidHex

record digest =
  algorithm :: string
  hex :: string

section \<open>Operations\<close>

definition is_ascii_hexdigit :: "char \<Rightarrow> bool" where
  "is_ascii_hexdigit c \<longleftrightarrow> c \<in> set ''0123456789abcdefABCDEF''"

definition digest_parse :: "string \<Rightarrow> digest_error + digest" where
  "digest_parse s =
     (case split_once (CHR '':'') s of
        None \<Rightarrow> Inl MissingSeparator
      | Some (algo, hx) \<Rightarrow>
          if algo \<noteq> ''sha256'' then Inl (UnsupportedAlgorithm algo)
          else if length hx \<noteq> 64 then Inl (InvalidHexLength 64 (length hx))
          else if \<not> list_all is_ascii_hexdigit hx then Inl InvalidHex
          else Inr \<lparr>algorithm = algo, hex = to_lowercase hx\<rparr>)"

definition digest_to_string :: "digest \<Rightarrow> string" where
  "digest_to_string d = algorithm d @ '':'' @ hex d"

text \<open>\<^verbatim>\<open>Digest::parse(..).ok()\<close>, the form most callers use.\<close>

definition digest_parse_ok :: "string \<Rightarrow> digest option" where
  "digest_parse_ok s = (case digest_parse s of Inl _ \<Rightarrow> None | Inr d \<Rightarrow> Some d)"

section \<open>Well-formed digests\<close>

definition is_lower_hexdigit :: "char \<Rightarrow> bool" where
  "is_lower_hexdigit c \<longleftrightarrow> c \<in> set ''0123456789abcdef''"

definition hex64 :: "string \<Rightarrow> bool" where
  "hex64 h \<longleftrightarrow> length h = 64 \<and> list_all is_lower_hexdigit h"

definition wf_digest :: "digest \<Rightarrow> bool" where
  "wf_digest d \<longleftrightarrow> algorithm d = ''sha256'' \<and> hex64 (hex d)"

text \<open>The digest a hex string of the right shape names.\<close>

definition sha256_digest :: "string \<Rightarrow> digest" where
  "sha256_digest h = \<lparr>algorithm = ''sha256'', hex = h\<rparr>"

lemma lower_hexdigit_is_hexdigit: "is_lower_hexdigit c \<Longrightarrow> is_ascii_hexdigit c"
  by (auto simp: is_lower_hexdigit_def is_ascii_hexdigit_def)

lemma ascii_lower_lower_hexdigit: "is_lower_hexdigit c \<Longrightarrow> ascii_lower c = c"
  by (auto simp: is_lower_hexdigit_def ascii_lower_def)

lemma ascii_lower_hexdigit: "is_ascii_hexdigit c \<Longrightarrow> is_lower_hexdigit (ascii_lower c)"
  by (auto simp: is_ascii_hexdigit_def is_lower_hexdigit_def ascii_lower_def char_of_def bit_iff_odd)

lemma to_lowercase_hex64: "hex64 h \<Longrightarrow> to_lowercase h = h"
  by (auto simp: hex64_def to_lowercase_def list_all_iff ascii_lower_lower_hexdigit
      intro: map_idI)

lemma hex64_to_lowercase:
  "length h = 64 \<Longrightarrow> list_all is_ascii_hexdigit h \<Longrightarrow> hex64 (to_lowercase h)"
  by (auto simp: hex64_def to_lowercase_def list_all_iff ascii_lower_hexdigit)

lemma wf_sha256_digest [simp]: "wf_digest (sha256_digest h) \<longleftrightarrow> hex64 h"
  by (simp add: wf_digest_def sha256_digest_def)

lemma hex_sha256_digest [simp]: "hex (sha256_digest h) = h"
  by (simp add: sha256_digest_def)

lemma wf_digest_eqI: "wf_digest d \<Longrightarrow> wf_digest e \<Longrightarrow> hex d = hex e \<Longrightarrow> d = e"
  by (simp add: wf_digest_def)

lemma sha256_digest_hex: "wf_digest d \<Longrightarrow> sha256_digest (hex d) = d"
  by (simp add: wf_digest_def sha256_digest_def)

section \<open>The parser\<close>

lemma digest_parse_Inr_iff:
  "digest_parse s = Inr d \<longleftrightarrow>
     (\<exists>h. s = ''sha256:'' @ h \<and> length h = 64 \<and> list_all is_ascii_hexdigit h \<and>
          d = sha256_digest (to_lowercase h))"
proof
  assume "digest_parse s = Inr d"
  then show "\<exists>h. s = ''sha256:'' @ h \<and> length h = 64 \<and> list_all is_ascii_hexdigit h \<and>
      d = sha256_digest (to_lowercase h)"
    by (auto simp: digest_parse_def sha256_digest_def split_once_Some split: option.splits if_splits)
next
  assume "\<exists>h. s = ''sha256:'' @ h \<and> length h = 64 \<and> list_all is_ascii_hexdigit h \<and>
      d = sha256_digest (to_lowercase h)"
  then show "digest_parse s = Inr d"
    by (auto simp: digest_parse_def sha256_digest_def)
qed

lemma digest_parse_wf [intro]: "digest_parse s = Inr d \<Longrightarrow> wf_digest d"
  by (auto simp: digest_parse_Inr_iff hex64_to_lowercase)

lemma digest_parse_prefix [simp]: "hex64 h \<Longrightarrow> digest_parse (''sha256:'' @ h) = Inr (sha256_digest h)"
  by (auto simp: digest_parse_Inr_iff to_lowercase_hex64 hex64_def list_all_iff
      intro: lower_hexdigit_is_hexdigit)

lemma digest_parse_to_string: "wf_digest d \<Longrightarrow> digest_parse (digest_to_string d) = Inr d"
  using digest_parse_prefix [of "hex d"]
  by (simp add: digest_to_string_def wf_digest_def sha256_digest_def)

lemma digest_parse_ok_Some: "digest_parse_ok s = Some d \<longleftrightarrow> digest_parse s = Inr d"
  by (auto simp: digest_parse_ok_def split: sum.splits)

lemma digest_parse_ok_wf [intro]: "digest_parse_ok s = Some d \<Longrightarrow> wf_digest d"
  by (auto simp: digest_parse_ok_Some)

lemma digest_to_string_inj:
  "wf_digest d \<Longrightarrow> wf_digest e \<Longrightarrow> digest_to_string d = digest_to_string e \<Longrightarrow> d = e"
  by (metis digest_parse_to_string sum.inject(2))

text \<open>
  C21. Printing and parsing are inverse: a well-formed digest is read back from its printed form,
  every parsed digest is well-formed (lower-case, 64 hex digits, \<^verbatim>\<open>sha256\<close>), and printing it gives
  the input with its upper-case hex digits lowered.
\<close>

theorem digest_roundtrip:
  "(wf_digest d \<longrightarrow> digest_parse (digest_to_string d) = Inr d) \<and>
   (digest_parse s = Inr e \<longrightarrow> wf_digest e \<and> digest_to_string e = to_lowercase s)"
proof (intro conjI impI)
  assume "wf_digest d"
  then show "digest_parse (digest_to_string d) = Inr d" by (rule digest_parse_to_string)
next
  assume e: "digest_parse s = Inr e"
  then show "wf_digest e" by (rule digest_parse_wf)
  from e obtain h where "s = ''sha256:'' @ h" "e = sha256_digest (to_lowercase h)"
    by (auto simp: digest_parse_Inr_iff)
  then show "digest_to_string e = to_lowercase s"
    by (simp add: digest_to_string_def sha256_digest_def to_lowercase_def ascii_lower_def)
qed

theorem digest_roundtrip_witness:
  "wf_digest (sha256_digest (replicate 64 (CHR ''a''))) \<and>
   digest_parse (digest_to_string (sha256_digest (replicate 64 (CHR ''a'')))) =
     Inr (sha256_digest (replicate 64 (CHR ''a''))) \<and>
   digest_to_string (sha256_digest (replicate 64 (CHR ''a''))) =
     to_lowercase (''sha256:'' @ replicate 64 (CHR ''A''))"
proof -
  let ?d = "sha256_digest (replicate 64 (CHR ''a''))"
  let ?s = "''sha256:'' @ replicate 64 (CHR ''A'')"
  have d: "wf_digest ?d" by (simp add: hex64_def is_lower_hexdigit_def list_all_iff)
  have s: "digest_parse ?s = Inr ?d"
    by (simp add: digest_parse_Inr_iff is_ascii_hexdigit_def list_all_iff to_lowercase_def
        ascii_lower_def char_of_def bit_iff_odd)
  show ?thesis
    using d s digest_roundtrip [of ?d ?s ?d] by blast
qed

text \<open>
  The error reports are exact: each error of the parser is reported for precisely the inputs it
  describes, in the order separator, algorithm, length, characters.
\<close>

lemma digest_parse_errors:
  "(digest_parse s = Inl MissingSeparator \<longleftrightarrow> CHR '':'' \<notin> set s) \<and>
   (digest_parse s = Inl (UnsupportedAlgorithm a) \<longleftrightarrow>
      (\<exists>h. s = a @ '':'' @ h \<and> CHR '':'' \<notin> set a \<and> a \<noteq> ''sha256'')) \<and>
   (digest_parse s = Inl (InvalidHexLength m n) \<longleftrightarrow>
      (\<exists>h. s = ''sha256:'' @ h \<and> length h \<noteq> 64 \<and> m = 64 \<and> n = length h)) \<and>
   (digest_parse s = Inl InvalidHex \<longleftrightarrow>
      (\<exists>h. s = ''sha256:'' @ h \<and> length h = 64 \<and> \<not> list_all is_ascii_hexdigit h))"
proof (cases "split_once (CHR '':'') s")
  case None
  then have no: "CHR '':'' \<notin> set s" by simp
  then have "s \<noteq> x @ CHR '':'' # y" and "s \<noteq> ''sha256:'' @ y" for x y by auto
  with no show ?thesis by (simp add: digest_parse_def None)
next
  case (Some ab)
  then obtain a' h' where ab: "split_once (CHR '':'') s = Some (a', h')" by (cases ab) auto
  then have s: "s = a' @ CHR '':'' # h'" and na: "CHR '':'' \<notin> set a'"
    by (simp_all add: split_once_Some)
  then have colon: "CHR '':'' \<in> set s" by simp
  have uniq: "s = x @ CHR '':'' # y \<Longrightarrow> CHR '':'' \<notin> set x \<Longrightarrow> x = a' \<and> y = h'" for x y
    using ab by (metis option.inject prod.inject split_once_Some)
  have sha: "s = ''sha256:'' @ y \<longleftrightarrow> a' = ''sha256'' \<and> y = h'" for y
    using uniq [of "''sha256''" y] s by auto
  have alg: "(\<exists>h. s = a @ '':'' @ h \<and> CHR '':'' \<notin> set a \<and> a \<noteq> ''sha256'') \<longleftrightarrow>
      a = a' \<and> a \<noteq> ''sha256''"
    using uniq s na by auto
  show ?thesis
    unfolding sha alg using colon by (auto simp: digest_parse_def ab)
qed

end
