(* ===== verification/Filesystem.thy ===== *)
theory Filesystem
  imports Quill_Prelude
begin

text \<open>
  The part of \<^verbatim>\<open>std::fs\<close> and \<^verbatim>\<open>tokio::fs\<close> the sources call, over one host file system.
  A path is the list of components of an absolute path (\<^verbatim>\<open>Path::components\<close> drops empty and
  \<^verbatim>\<open>.\<close> components); \<^verbatim>\<open>..\<close> is resolved when a call looks the path up.  There are no symbolic
  links.  A file has its bytes and its modification time.  \<open>faults\<close> lets any call on any path fail
  with an error other than \<^verbatim>\<open>NotFound\<close>: a failing write has written the given number of bytes
  before it fails, a failing directory iteration has yielded the given number of entries, every
  other failing call has no effect.
\<close>

section \<open>Paths\<close>

type_synonym path = "string list"

definition comps :: "string \<Rightarrow> path" where
  "comps s = filter (\<lambda>c. c \<noteq> [] \<and> c \<noteq> ''.'') (split_on (CHR ''/'') s)"

text \<open>\<^verbatim>\<open>Path::join\<close>: an absolute argument replaces the path.\<close>

definition path_join :: "path \<Rightarrow> string \<Rightarrow> path" where
  "path_join p s = (if starts_with ''/'' s then comps s else p @ comps s)"

definition walk_comp :: "path \<Rightarrow> string \<Rightarrow> path" where
  "walk_comp acc c = (if c = ''..'' then butlast acc else acc @ [c])"

definition resolve :: "path \<Rightarrow> path" where
  "resolve p = foldl walk_comp [] p"

text \<open>A plain file name: one component, not \<^verbatim>\<open>.\<close> or \<^verbatim>\<open>..\<close>.\<close>

definition plain_name :: "string \<Rightarrow> bool" where
  "plain_name c \<longleftrightarrow> c \<noteq> [] \<and> c \<noteq> ''.'' \<and> c \<noteq> ''..'' \<and> CHR ''/'' \<notin> set c"

lemma comps_plain: "plain_name c \<Longrightarrow> comps c = [c]"
  by (simp add: comps_def plain_name_def split_on_single)

lemma path_join_plain [path_simps]: "plain_name c \<Longrightarrow> path_join p c = p @ [c]"
  by (auto simp: path_join_def comps_plain starts_with_def plain_name_def)

lemma comps_no_slash: "c \<in> set (comps s) \<Longrightarrow> c \<noteq> [] \<and> c \<noteq> ''.'' \<and> CHR ''/'' \<notin> set c"
  by (auto simp: comps_def dest: split_on_no_sep)

lemma resolve_Nil [simp]: "resolve [] = []"
  by (simp add: resolve_def)

lemma resolve_snoc: "resolve (p @ [c]) = walk_comp (resolve p) c"
  by (simp add: resolve_def)

lemma resolve_plain_snoc: "plain_name c \<Longrightarrow> resolve (p @ [c]) = resolve p @ [c]"
  by (simp add: resolve_snoc walk_comp_def plain_name_def)

lemma foldl_walk_plain: "''..'' \<notin> set q \<Longrightarrow> foldl walk_comp p q = p @ q"
  by (induction q arbitrary: p) (auto simp: walk_comp_def)

lemma resolve_append_plain: "''..'' \<notin> set q \<Longrightarrow> resolve (p @ q) = resolve p @ q"
  by (simp add: resolve_def foldl_walk_plain)

lemma resolve_plain_append [path_simps]:
  "list_all plain_name q \<Longrightarrow> resolve (p @ q) = resolve p @ q"
  by (rule resolve_append_plain) (auto simp: list_all_iff plain_name_def)

lemma resolve_canonical: "''..'' \<notin> set q \<Longrightarrow> resolve q = q"
  using resolve_append_plain [of q "[]"] by simp

lemma resolve_no_dotdot: "''..'' \<notin> set (resolve p)"
  by (induction p rule: rev_induct) (auto simp: resolve_snoc walk_comp_def dest: in_set_butlastD)

lemma resolve_idem [simp]: "resolve (resolve p) = resolve p"
  by (simp add: resolve_canonical resolve_no_dotdot)

section \<open>Nodes and errors\<close>

datatype io_error = ENotFound | EOther

datatype io_op =
    OpStat | OpRead | OpReadDir | OpNextEntry | OpMkdir | OpCreate | OpWrite | OpRename
  | OpRemove | OpRmTree

datatype fnode = FDir | FFile bytes nat

record fs =
  nodes :: "(path \<times> fnode) list"
  faults :: "io_op \<Rightarrow> path \<Rightarrow> nat option"

definition failing :: "fs \<Rightarrow> io_op \<Rightarrow> path \<Rightarrow> bool" where
  "failing f op p \<longleftrightarrow> faults f op (resolve p) \<noteq> None"

text \<open>The node at a canonical path; the root directory always exists.\<close>

definition lookup :: "fs \<Rightarrow> path \<Rightarrow> fnode option" where
  "lookup f q = (if q = [] then Some FDir else map_of (nodes f) q)"

definition node_at :: "fs \<Rightarrow> path \<Rightarrow> fnode option" where
  "node_at f p = lookup f (resolve p)"

fun is_file_node :: "fnode option \<Rightarrow> bool" where
  "is_file_node (Some (FFile b t)) = True"
| "is_file_node _ = False"

text \<open>
  What a call reports for a path that names nothing: \<^verbatim>\<open>NotFound\<close>, or \<^verbatim>\<open>NotADirectory\<close> when a
  proper prefix is a file.
\<close>

definition missing_err :: "fs \<Rightarrow> path \<Rightarrow> io_error" where
  "missing_err f p =
     (let r = resolve p
      in if list_ex (\<lambda>k. is_file_node (lookup f (take k r))) [0..<length r]
         then EOther else ENotFound)"

definition put_node :: "path \<Rightarrow> fnode \<Rightarrow> fs \<Rightarrow> fs" where
  "put_node q n f = f\<lparr>nodes := AList.update q n (nodes f)\<rparr>"

definition drop_node :: "path \<Rightarrow> fs \<Rightarrow> fs" where
  "drop_node q f = f\<lparr>nodes := AList.delete q (nodes f)\<rparr>"

lemma lookup_put [fs_simps]:
  "q \<noteq> [] \<Longrightarrow> lookup (put_node q n f) r = (if r = q then Some n else lookup f r)"
  by (simp add: lookup_def put_node_def update_conv)

lemma lookup_drop [fs_simps]:
  "q \<noteq> [] \<Longrightarrow> lookup (drop_node q f) r = (if r = q then None else lookup f r)"
  by (simp add: lookup_def drop_node_def delete_conv')

lemma faults_put [simp]: "faults (put_node q n f) = faults f"
  by (simp add: put_node_def)

lemma faults_drop [simp]: "faults (drop_node q f) = faults f"
  by (simp add: drop_node_def)

lemma lookup_Nil [simp]: "lookup f [] = Some FDir"
  by (simp add: lookup_def)

section \<open>Calls that only read\<close>

definition fs_metadata :: "path \<Rightarrow> fs \<Rightarrow> io_error + fnode" where
  "fs_metadata p f =
     (if failing f OpStat p then Inl EOther
      else case node_at f p of None \<Rightarrow> Inl (missing_err f p) | Some n \<Rightarrow> Inr n)"

definition fs_exists :: "path \<Rightarrow> fs \<Rightarrow> bool" where
  "fs_exists p f \<longleftrightarrow> (case fs_metadata p f of Inl _ \<Rightarrow> False | Inr _ \<Rightarrow> True)"

definition fs_is_dir :: "path \<Rightarrow> fs \<Rightarrow> bool" where
  "fs_is_dir p f \<longleftrightarrow> fs_metadata p f = Inr FDir"

definition fs_read :: "path \<Rightarrow> fs \<Rightarrow> io_error + bytes" where
  "fs_read p f =
     (if failing f OpRead p then Inl EOther
      else case node_at f p of
             None \<Rightarrow> Inl (missing_err f p)
           | Some FDir \<Rightarrow> Inl EOther
           | Some (FFile b t) \<Rightarrow> Inr b)"

text \<open>The entries of a directory; \<^verbatim>\<open>.\<close> and \<^verbatim>\<open>..\<close> are not among them.\<close>

definition children :: "fs \<Rightarrow> path \<Rightarrow> (string \<times> fnode) list" where
  "children f r =
     map (\<lambda>(q, n). (last q, n))
       (filter (\<lambda>(q, n). q \<noteq> [] \<and> butlast q = r \<and> last q \<noteq> ''..'') (nodes f))"

text \<open>The entries a directory iteration yields, and whether it then ends with an error.\<close>

definition fs_read_dir :: "path \<Rightarrow> fs \<Rightarrow> io_error + (string \<times> fnode) list \<times> bool" where
  "fs_read_dir p f =
     (if failing f OpReadDir p then Inl EOther
      else case node_at f p of
             None \<Rightarrow> Inl (missing_err f p)
           | Some (FFile b t) \<Rightarrow> Inl EOther
           | Some FDir \<Rightarrow>
               (case faults f OpNextEntry (resolve p) of
                  None \<Rightarrow> Inr (children f (resolve p), False)
                | Some k \<Rightarrow> Inr (take k (children f (resolve p)), True)))"

section \<open>Calls that change the file system\<close>

text \<open>\<^verbatim>\<open>File::create\<close>: create or truncate.\<close>

definition fs_create :: "nat \<Rightarrow> path \<Rightarrow> fs \<Rightarrow> (io_error + unit) \<times> fs" where
  "fs_create now p f =
     (let r = resolve p in
      if failing f OpCreate p then (Inl EOther, f)
      else case lookup f r of
             Some FDir \<Rightarrow> (Inl EOther, f)
           | Some (FFile b t) \<Rightarrow> (Inr (), put_node r (FFile [] now) f)
           | None \<Rightarrow>
               if lookup f (butlast r) = Some FDir then (Inr (), put_node r (FFile [] now) f)
               else (Inl (missing_err f p), f))"

text \<open>\<^verbatim>\<open>write_all\<close> at the end of an existing file.\<close>

definition fs_append :: "nat \<Rightarrow> path \<Rightarrow> bytes \<Rightarrow> fs \<Rightarrow> (io_error + unit) \<times> fs" where
  "fs_append now p data f =
     (let r = resolve p in
      case lookup f r of
        Some (FFile b t) \<Rightarrow>
          (case faults f OpWrite r of
             None \<Rightarrow> (Inr (), put_node r (FFile (b @ data) now) f)
           | Some k \<Rightarrow> (Inl EOther, put_node r (FFile (b @ take k data) now) f))
      | Some FDir \<Rightarrow> (Inl EOther, f)
      | None \<Rightarrow> (Inl (missing_err f p), f))"

text \<open>\<^verbatim>\<open>fs::write\<close>: create or truncate, then write everything.\<close>

definition fs_write :: "nat \<Rightarrow> path \<Rightarrow> bytes \<Rightarrow> fs \<Rightarrow> (io_error + unit) \<times> fs" where
  "fs_write now p data f =
     (case fs_create now p f of
        (Inl e, f1) \<Rightarrow> (Inl e, f1)
      | (Inr _, f1) \<Rightarrow> fs_append now p data f1)"

text \<open>\<^verbatim>\<open>fs::rename\<close> of a file (no directory is renamed in the sources).\<close>

definition fs_rename :: "path \<Rightarrow> path \<Rightarrow> fs \<Rightarrow> (io_error + unit) \<times> fs" where
  "fs_rename a b f =
     (let ra = resolve a; rb = resolve b in
      if failing f OpRename a then (Inl EOther, f)
      else case lookup f ra of
             None \<Rightarrow> (Inl (missing_err f a), f)
           | Some FDir \<Rightarrow> (Inl EOther, f)
           | Some (FFile d t) \<Rightarrow>
               if ra = rb then (Inr (), f)
               else if lookup f rb = Some FDir then (Inl EOther, f)
               else if lookup f (butlast rb) \<noteq> Some FDir then (Inl (missing_err f b), f)
               else (Inr (), put_node rb (FFile d t) (drop_node ra f)))"

definition fs_remove_file :: "path \<Rightarrow> fs \<Rightarrow> (io_error + unit) \<times> fs" where
  "fs_remove_file p f =
     (if failing f OpRemove p then (Inl EOther, f)
      else case node_at f p of
             None \<Rightarrow> (Inl (missing_err f p), f)
           | Some FDir \<Rightarrow> (Inl EOther, f)
           | Some (FFile b t) \<Rightarrow> (Inr (), drop_node (resolve p) f))"

fun mkdirs :: "path list \<Rightarrow> fs \<Rightarrow> fs" where
  "mkdirs [] f = f"
| "mkdirs (q # qs) f = mkdirs qs (if lookup f q = None then put_node q FDir f else f)"

text \<open>\<^verbatim>\<open>create_dir_all\<close>: every missing directory down to the path.\<close>

definition fs_create_dir_all :: "path \<Rightarrow> fs \<Rightarrow> (io_error + unit) \<times> fs" where
  "fs_create_dir_all p f =
     (let r = resolve p; ps = map (\<lambda>k. take k r) [1..<Suc (length r)] in
      if failing f OpMkdir p \<or> list_ex (\<lambda>q. is_file_node (lookup f q)) ps then (Inl EOther, f)
      else (Inr (), mkdirs ps f))"

definition fs_remove_dir_all :: "path \<Rightarrow> fs \<Rightarrow> (io_error + unit) \<times> fs" where
  "fs_remove_dir_all p f =
     (let r = resolve p in
      if failing f OpRmTree p then (Inl EOther, f)
      else case lookup f r of
             None \<Rightarrow> (Inl (missing_err f p), f)
           | Some (FFile b t) \<Rightarrow> (Inl EOther, f)
           | Some FDir \<Rightarrow> (Inr (), f\<lparr>nodes := filter (\<lambda>(q, n). \<not> starts_with r q) (nodes f)\<rparr>))"

text \<open>The pair \<^verbatim>\<open>fs::write(&tmp, body)?; fs::rename(&tmp, path)?\<close> that replaces a file atomically.\<close>

definition fs_replace :: "nat \<Rightarrow> path \<Rightarrow> path \<Rightarrow> bytes \<Rightarrow> fs \<Rightarrow> (io_error + unit) \<times> fs" where
  "fs_replace now tmp p body f =
     (case fs_write now tmp body f of
        (Inl e, f1) \<Rightarrow> (Inl e, f1)
      | (Inr _, f1) \<Rightarrow> fs_rename tmp p f1)"

text \<open>Well-formed UTF-8, by the table of the Unicode standard.\<close>

fun cont :: "nat \<Rightarrow> bool" where
  "cont b \<longleftrightarrow> 128 \<le> b \<and> b \<le> 191"

fun utf8_valid :: "nat list \<Rightarrow> bool" where
  "utf8_valid [] = True"
| "utf8_valid (a # s) =
     (if a < 128 then utf8_valid s
      else case s of
        [] \<Rightarrow> False
      | b # s1 \<Rightarrow>
          if 194 \<le> a \<and> a \<le> 223 then cont b \<and> utf8_valid s1
          else case s1 of
            [] \<Rightarrow> False
          | c # s2 \<Rightarrow>
              if 224 \<le> a \<and> a \<le> 239
              then cont b \<and> cont c \<and> (a = 224 \<longrightarrow> 160 \<le> b) \<and> (a = 237 \<longrightarrow> b \<le> 159) \<and> utf8_valid s2
              else case s2 of
                [] \<Rightarrow> False
              | d # s3 \<Rightarrow>
                  240 \<le> a \<and> a \<le> 244 \<and> cont b \<and> cont c \<and> cont d \<and>
                  (a = 240 \<longrightarrow> 144 \<le> b) \<and> (a = 244 \<longrightarrow> b \<le> 143) \<and> utf8_valid s3)"

text \<open>\<^verbatim>\<open>String::from_utf8\<close> and \<^verbatim>\<open>fs::read_to_string\<close>\<close>

definition from_utf8 :: "bytes \<Rightarrow> string option" where
  "from_utf8 b = (if utf8_valid (map unat b) then Some (map (\<lambda>w. char_of (unat w)) b) else None)"

definition fs_read_to_string :: "path \<Rightarrow> fs \<Rightarrow> io_error + string" where
  "fs_read_to_string p f =
     (case fs_read p f of
        Inl e \<Rightarrow> Inl e
      | Inr b \<Rightarrow> (case from_utf8 b of None \<Rightarrow> Inl EOther | Some s \<Rightarrow> Inr s))"

text \<open>\<^verbatim>\<open>Path::with_extension\<close>\<close>

definition with_ext :: "string \<Rightarrow> string \<Rightarrow> string" where
  "with_ext name ext =
     (case rsplit_once ''.'' name of
        Some (a, b) \<Rightarrow> (if a = [] then name else a) @ ''.'' @ ext
      | None \<Rightarrow> name @ ''.'' @ ext)"

definition with_extension :: "path \<Rightarrow> string \<Rightarrow> path" where
  "with_extension p ext = butlast p @ [with_ext (last p) ext]"

section \<open>What a call leaves in place\<close>

text \<open>An operation that also updates a store in memory, as a transformer of the file system.\<close>

definition paired :: "(fs \<Rightarrow> 'r \<times> 's \<times> fs) \<Rightarrow> fs \<Rightarrow> ('r \<times> 's) \<times> fs" where
  "paired g f = (case g f of (r, s, f') \<Rightarrow> ((r, s), f'))"

lemma paired_eq: "g f = (r, s, f') \<Longrightarrow> paired g f = ((r, s), f')"
  by (simp add: paired_def)

text \<open>The contents of the files, by canonical path.\<close>

definition file_at :: "fs \<Rightarrow> path \<Rightarrow> bytes option" where
  "file_at f q = (case lookup f q of Some (FFile b t) \<Rightarrow> Some b | _ \<Rightarrow> None)"

text \<open>
  A well-formed file system: one node per path, paths canonical, and the parent of every node a
  directory.
\<close>

definition fs_ok :: "fs \<Rightarrow> bool" where
  "fs_ok f \<longleftrightarrow> distinct (map fst (nodes f)) \<and> [] \<notin> fst ` set (nodes f) \<and>
     (\<forall>q. q \<noteq> [] \<longrightarrow> lookup f q \<noteq> None \<longrightarrow> ''..'' \<notin> set q \<and> lookup f (butlast q) = Some FDir)"

lemma file_at_Some: "file_at f q = Some b \<longleftrightarrow> (\<exists>t. lookup f q = Some (FFile b t))"
  by (auto simp: file_at_def split: option.splits fnode.splits)

lemma file_at_Nil [simp]: "file_at f [] = None"
  by (simp add: file_at_def)

lemma file_at_put [fs_simps]:
  "q \<noteq> [] \<Longrightarrow> file_at (put_node q (FFile b t) f) r = (if r = q then Some b else file_at f r)"
  by (simp add: file_at_def lookup_put)

lemma file_at_drop [fs_simps]:
  "q \<noteq> [] \<Longrightarrow> file_at (drop_node q f) r = (if r = q then None else file_at f r)"
  by (simp add: file_at_def lookup_drop)

lemma fs_okD: "fs_ok f \<Longrightarrow> q \<noteq> [] \<Longrightarrow> lookup f q = Some n \<Longrightarrow> lookup f (butlast q) = Some FDir"
  by (auto simp: fs_ok_def)

lemma fs_ok_canonical: "fs_ok f \<Longrightarrow> lookup f q = Some n \<Longrightarrow> ''..'' \<notin> set q"
  by (cases "q = []") (auto simp: fs_ok_def)

lemma fs_ok_put:
  assumes ok: "fs_ok f" and q: "q \<noteq> []" "''..'' \<notin> set q"
    and parent: "lookup f (butlast q) = Some FDir" and n: "n = FDir \<or> lookup f q \<noteq> Some FDir"
  shows "fs_ok (put_node q n f)"
proof -
  have "distinct (map fst (nodes (put_node q n f)))" "[] \<notin> fst ` set (nodes (put_node q n f))"
    using ok q by (auto simp: fs_ok_def put_node_def distinct_update dom_update [symmetric]
        simp flip: dom_map_of_conv_image_fst simp: update_conv')
  moreover have "''..'' \<notin> set r \<and> lookup (put_node q n f) (butlast r) = Some FDir"
    if r: "r \<noteq> []" "lookup (put_node q n f) r \<noteq> None" for r
  proof (cases "r = q")
    case True
    have "butlast q \<noteq> q" using q(1) by (metis append_butlast_last_id append_self_conv not_Cons_self2)
    with True parent q show ?thesis by (simp add: lookup_put)
  next
    case False
    with r q have old: "lookup f r \<noteq> None" by (simp add: lookup_put)
    with ok r(1) have "''..'' \<notin> set r" "lookup f (butlast r) = Some FDir"
      by (auto simp: fs_ok_def)
    with n q show ?thesis by (auto simp: lookup_put)
  qed
  ultimately show ?thesis by (auto simp: fs_ok_def)
qed

lemma fs_ok_drop:
  assumes ok: "fs_ok f" and q: "q \<noteq> []" and n: "lookup f q \<noteq> Some FDir"
  shows "fs_ok (drop_node q f)"
proof -
  have "distinct (map fst (nodes (drop_node q f)))" "[] \<notin> fst ` set (nodes (drop_node q f))"
    using ok by (auto simp: fs_ok_def drop_node_def AList.delete_eq distinct_map_filter)
  with ok q n show ?thesis
    by (auto simp: fs_ok_def lookup_drop)
qed

text \<open>
  The contract the calls share: only the contents at the touched paths may change, the fault
  pattern is the environment's, and a well-formed file system stays well-formed.
\<close>

locale fs_call =
  fixes call :: "fs \<Rightarrow> 'r \<times> fs" and touched :: "path set"
  assumes frame: "q \<notin> touched \<Longrightarrow> file_at (snd (call f)) q = file_at f q"
    and keeps_faults: "faults (snd (call f)) = faults f"
    and keeps_ok: "fs_ok f \<Longrightarrow> fs_ok (snd (call f))"
begin

lemma untouched_set: "P \<inter> touched = {} \<Longrightarrow> q \<in> P \<Longrightarrow> file_at (snd (call f)) q = file_at f q"
  by (auto intro: frame)

lemma same_failing: "failing (snd (call f)) op p = failing f op p"
  by (simp add: failing_def keeps_faults)

lemma widen: "touched \<subseteq> U \<Longrightarrow> fs_call call U"
  by unfold_locales (auto intro: frame keeps_ok simp: keeps_faults)

end

lemma fs_call_return: "fs_call (\<lambda>f. (r, f)) T"
  by unfold_locales auto

text \<open>A call that first looks and then decides what to do.\<close>

lemma fs_call_pick: "(\<And>f. \<exists>c. fs_call c T \<and> call f = c f) \<Longrightarrow> fs_call call T"
  by unfold_locales (metis fs_call.frame, metis fs_call.keeps_faults, metis fs_call.keeps_ok)

lemma fs_call_seq:
  assumes c: "fs_call c T" and d: "\<And>r. fs_call (d r) T"
  shows "fs_call (\<lambda>f. case c f of (r, f1) \<Rightarrow> d r f1) T"
proof
  fix q f assume "q \<notin> T"
  then show "file_at (snd (case c f of (r, f1) \<Rightarrow> d r f1)) q = file_at f q"
    using fs_call.frame [OF c, of q f] fs_call.frame [OF d, of q] by (auto split: prod.splits)
next
  fix f
  show "faults (snd (case c f of (r, f1) \<Rightarrow> d r f1)) = faults f"
    using fs_call.keeps_faults [OF c, of f] fs_call.keeps_faults [OF d]
    by (auto split: prod.splits)
next
  fix f assume "fs_ok f"
  then show "fs_ok (snd (case c f of (r, f1) \<Rightarrow> d r f1))"
    using fs_call.keeps_ok [OF c, of f] fs_call.keeps_ok [OF d] by (auto split: prod.splits)
qed

text \<open>Sequencing with the early return of \<^verbatim>\<open>?\<close>: the error ends the call.\<close>

lemma fs_call_try:
  assumes "fs_call c T" and "\<And>r. fs_call (d r) T"
  shows "fs_call (\<lambda>f. case c f of (Inl e, f1) \<Rightarrow> (h e, f1) | (Inr r, f1) \<Rightarrow> d r f1) T"
proof -
  have "fs_call (\<lambda>f. case c f of (x, f1) \<Rightarrow> (case x of Inl e \<Rightarrow> (\<lambda>f. (h e, f)) | Inr r \<Rightarrow> d r) f1) T"
    using assms by (intro fs_call_seq) (auto split: sum.split intro: fs_call_return)
  then show ?thesis
    by (simp add: case_sum_if sum.case_distrib [where h = "\<lambda>g. g _"] split_def cong: sum.case_cong)
qed

section \<open>The calls\<close>

lemma lookup_Some_nonempty [dest]: "lookup f q = None \<Longrightarrow> q \<noteq> []"
  "lookup f q = Some (FFile b t) \<Longrightarrow> q \<noteq> []"
  by auto

interpretation sys_create: fs_call "fs_create now p" "{resolve p}" for now p
proof
  fix q f assume "q \<notin> {resolve p}"
  then show "file_at (snd (fs_create now p f)) q = file_at f q"
    by (auto simp: fs_create_def Let_def fs_simps dest: lookup_Some_nonempty
        split: option.splits fnode.splits)
next
  fix f show "faults (snd (fs_create now p f)) = faults f"
    by (auto simp: fs_create_def Let_def split: option.splits fnode.splits)
next
  fix f assume "fs_ok f"
  then show "fs_ok (snd (fs_create now p f))"
    by (auto simp: fs_create_def Let_def resolve_no_dotdot dest: fs_okD
        split: option.splits fnode.splits intro!: fs_ok_put)
qed

interpretation sys_append: fs_call "fs_append now p d" "{resolve p}" for now p d
proof
  fix q f assume "q \<notin> {resolve p}"
  then show "file_at (snd (fs_append now p d f)) q = file_at f q"
    by (auto simp: fs_append_def Let_def fs_simps dest: lookup_Some_nonempty
        split: option.splits fnode.splits)
next
  fix f show "faults (snd (fs_append now p d f)) = faults f"
    by (auto simp: fs_append_def Let_def split: option.splits fnode.splits)
next
  fix f assume "fs_ok f"
  then show "fs_ok (snd (fs_append now p d f))"
    by (auto simp: fs_append_def Let_def resolve_no_dotdot dest: fs_okD
        split: option.splits fnode.splits intro!: fs_ok_put)
qed

interpretation sys_write: fs_call "fs_write now p d" "{resolve p}" for now p d
proof -
  have "fs_call (\<lambda>f. case fs_create now p f of (Inl e, f1) \<Rightarrow> (Inl e, f1)
      | (Inr r, f1) \<Rightarrow> fs_append now p d f1) {resolve p}"
    by (rule fs_call_try) (rule sys_create.fs_call_axioms sys_append.fs_call_axioms)+
  then show "fs_call (fs_write now p d) {resolve p}"
    by (simp add: fs_write_def [abs_def])
qed

interpretation sys_rename: fs_call "fs_rename a b" "{resolve a, resolve b}" for a b
proof
  fix q f assume "q \<notin> {resolve a, resolve b}"
  then show "file_at (snd (fs_rename a b f)) q = file_at f q"
    by (cases "resolve b = []")
      (auto simp: fs_rename_def Let_def fs_simps dest: lookup_Some_nonempty
        split: option.splits fnode.splits)
next
  fix f show "faults (snd (fs_rename a b f)) = faults f"
    by (auto simp: fs_rename_def Let_def split: option.splits fnode.splits)
next
  fix f assume ok: "fs_ok f"
  show "fs_ok (snd (fs_rename a b f))"
  proof (cases "snd (fs_rename a b f) = f")
    case False
    then obtain d t where f': "snd (fs_rename a b f) =
        put_node (resolve b) (FFile d t) (drop_node (resolve a) f)"
      and a: "lookup f (resolve a) = Some (FFile d t)" and ne: "resolve a \<noteq> resolve b"
      and b: "lookup f (resolve b) \<noteq> Some FDir" "lookup f (butlast (resolve b)) = Some FDir"
      by (auto simp: fs_rename_def Let_def split: option.splits fnode.splits if_splits)
    from a have "resolve a \<noteq> []" "butlast (resolve b) \<noteq> resolve a" using b by auto
    moreover from b have "resolve b \<noteq> []" by auto
    ultimately show ?thesis
      using ok a b ne
      by (auto simp: f' resolve_no_dotdot lookup_drop intro!: fs_ok_put fs_ok_drop)
  qed (simp add: ok)
qed

interpretation sys_remove: fs_call "fs_remove_file p" "{resolve p}" for p
proof
  fix q f assume "q \<notin> {resolve p}"
  then show "file_at (snd (fs_remove_file p f)) q = file_at f q"
    by (auto simp: fs_remove_file_def node_at_def fs_simps dest: lookup_Some_nonempty
        split: option.splits fnode.splits)
next
  fix f show "faults (snd (fs_remove_file p f)) = faults f"
    by (auto simp: fs_remove_file_def split: option.splits fnode.splits)
next
  fix f assume "fs_ok f"
  then show "fs_ok (snd (fs_remove_file p f))"
    by (auto simp: fs_remove_file_def node_at_def dest: lookup_Some_nonempty
        split: option.splits fnode.splits intro!: fs_ok_drop)
qed

subsection \<open>Making directories\<close>

lemma mkdirs_lookup:
  "lookup (mkdirs qs f) q =
     (if lookup f q = None \<and> q \<in> set qs then Some FDir else lookup f q)"
proof (induction qs f rule: mkdirs.induct)
  case (2 a qs f)
  have "lookup (if lookup f a = None then put_node a FDir f else f) q =
      (if lookup f q = None \<and> q = a then Some FDir else lookup f q)"
    by (cases "a = []") (auto simp: fs_simps)
  with 2 show ?case by auto
qed simp

lemma mkdirs_faults [simp]: "faults (mkdirs qs f) = faults f"
  by (induction qs f rule: mkdirs.induct) auto

lemma mkdirs_file_at [fs_simps]: "file_at (mkdirs qs f) q = file_at f q"
  by (simp add: file_at_def mkdirs_lookup)

lemma mkdirs_ok:
  "fs_ok f \<Longrightarrow> ''..'' \<notin> set r \<Longrightarrow> k \<le> n \<Longrightarrow> n \<le> length r \<Longrightarrow>
   \<forall>j \<le> n. \<not> is_file_node (lookup f (take j r)) \<Longrightarrow> lookup f (take k r) = Some FDir \<Longrightarrow>
   fs_ok (mkdirs (map (\<lambda>j. take j r) [Suc k..<Suc n]) f)"
proof (induction "n - k" arbitrary: k f)
  case 0
  then show ?case by simp
next
  case (Suc m)
  let ?q = "take (Suc k) r"
  let ?f = "if lookup f ?q = None then put_node ?q FDir f else f"
  have k: "k < n" using Suc.hyps(2) by simp
  have q: "?q \<noteq> []" "''..'' \<notin> set ?q" "butlast ?q = take k r"
    using Suc.prems k by (auto simp: butlast_take dest: in_set_takeD)
  have ok: "fs_ok ?f"
    using Suc.prems(1,6) q by (auto intro: fs_ok_put)
  have nf: "\<forall>j \<le> n. \<not> is_file_node (lookup ?f (take j r))"
    using Suc.prems(5) q(1) by (auto simp: lookup_put)
  have "\<not> is_file_node (lookup f ?q)" using Suc.prems(5) k by simp
  then have d: "lookup ?f ?q = Some FDir"
    using q(1) by (cases "lookup f ?q" rule: is_file_node.cases) (auto simp: lookup_put)
  have "fs_ok (mkdirs (map (\<lambda>j. take j r) [Suc (Suc k)..<Suc n]) ?f)"
    using Suc.hyps(1) [of "Suc k" ?f] Suc.hyps(2) Suc.prems(2,4) k ok nf d by simp
  moreover have "[Suc k..<Suc n] = Suc k # [Suc (Suc k)..<Suc n]"
    using k by (simp add: upt_conv_Cons)
  ultimately show ?case by simp
qed

interpretation sys_mkdir: fs_call "fs_create_dir_all p" "{}" for p
proof
  fix q f show "file_at (snd (fs_create_dir_all p f)) q = file_at f q"
    by (simp add: fs_create_dir_all_def Let_def fs_simps)
next
  fix f show "faults (snd (fs_create_dir_all p f)) = faults f"
    by (simp add: fs_create_dir_all_def Let_def)
next
  fix f assume ok: "fs_ok f"
  let ?r = "resolve p"
  show "fs_ok (snd (fs_create_dir_all p f))"
  proof (cases "list_ex (\<lambda>q. is_file_node (lookup f q)) (map (\<lambda>k. take k ?r) [1..<Suc (length ?r)])")
    case False
    then have "\<not> is_file_node (lookup f (take j ?r))" if "j \<le> length ?r" for j
      using that by (cases j) (auto simp: list_ex_iff simp del: upt_Suc)
    then have "fs_ok (mkdirs (map (\<lambda>k. take k ?r) [Suc 0..<Suc (length ?r)]) f)"
      using ok by (intro mkdirs_ok) (auto simp: resolve_no_dotdot)
    then show ?thesis using ok by (auto simp: fs_create_dir_all_def Let_def)
  qed (use ok in \<open>simp add: fs_create_dir_all_def Let_def\<close>)
qed

lemma create_dir_all_lookup_keep:
  "lookup f q = Some n \<Longrightarrow> lookup (snd (fs_create_dir_all p f)) q = Some n"
  by (simp add: fs_create_dir_all_def Let_def mkdirs_lookup)

lemma create_dir_all_lookup_other:
  "\<not> prefix q (resolve p) \<Longrightarrow> lookup (snd (fs_create_dir_all p f)) q = lookup f q"
  by (auto simp: fs_create_dir_all_def Let_def mkdirs_lookup take_is_prefix)

lemma create_dir_all_Inr:
  assumes "fs_create_dir_all p f = (Inr u, f')"
  shows "lookup f' (resolve p) = Some FDir"
proof (cases "resolve p = []")
  case False
  let ?ps = "map (\<lambda>k. take k (resolve p)) [1..<Suc (length (resolve p))]"
  have mem: "resolve p \<in> set ?ps" using False
    by (auto simp: image_iff Suc_le_eq simp del: upt_Suc intro!: bexI [of _ "length (resolve p)"])
  from assms have "f' = mkdirs ?ps f" and nf: "\<not> list_ex (\<lambda>q. is_file_node (lookup f q)) ?ps"
    by (auto simp: fs_create_dir_all_def Let_def simp del: upt_Suc split: if_splits)
  moreover have "\<not> is_file_node (lookup f (resolve p))"
    using nf mem by (auto simp: list_ex_iff)
  then have "lookup f (resolve p) = None \<or> lookup f (resolve p) = Some FDir"
    by (cases "lookup f (resolve p)" rule: is_file_node.cases) auto
  ultimately show ?thesis using mem by (auto simp: mkdirs_lookup)
qed simp

subsection \<open>Results of the calls\<close>

lemma create_Inr:
  assumes "fs_create now p f = (Inr u, f')"
  shows "lookup f' (resolve p) = Some (FFile [] now)"
    and "q \<noteq> resolve p \<Longrightarrow> lookup f' q = lookup f q"
  using assms
  by (auto simp: fs_create_def Let_def fs_simps split: option.splits fnode.splits if_splits)

lemma create_Inl: "fs_create now p f = (Inl e, f') \<Longrightarrow> f' = f"
  by (auto simp: fs_create_def Let_def split: option.splits fnode.splits if_splits)

lemma create_lookup_other: "q \<noteq> resolve p \<Longrightarrow> lookup (snd (fs_create now p f)) q = lookup f q"
  by (auto simp: fs_create_def Let_def fs_simps dest: lookup_Some_nonempty
      split: option.splits fnode.splits)

lemma append_Inr:
  assumes "fs_append now p d f = (Inr u, f')"
  obtains b t where "lookup f (resolve p) = Some (FFile b t)"
    and "lookup f' (resolve p) = Some (FFile (b @ d) now)"
    and "\<And>q. q \<noteq> resolve p \<Longrightarrow> lookup f' q = lookup f q"
proof -
  from assms obtain b t where bt: "lookup f (resolve p) = Some (FFile b t)"
    and f': "f' = put_node (resolve p) (FFile (b @ d) now) f"
    by (auto simp: fs_append_def Let_def split: option.splits fnode.splits)
  from bt have "resolve p \<noteq> []" by auto
  with bt f' show thesis by (intro that) (auto simp: fs_simps)
qed

lemma append_lookup_other: "q \<noteq> resolve p \<Longrightarrow> lookup (snd (fs_append now p d f)) q = lookup f q"
  by (auto simp: fs_append_def Let_def fs_simps dest: lookup_Some_nonempty
      split: option.splits fnode.splits)

lemma write_Inr:
  assumes "fs_write now p d f = (Inr u, f')"
  shows "lookup f' (resolve p) = Some (FFile d now)"
    and "q \<noteq> resolve p \<Longrightarrow> lookup f' q = lookup f q"
proof -
  from assms obtain f1 where c: "fs_create now p f = (Inr (), f1)"
    and a: "fs_append now p d f1 = (Inr u, f')"
    by (auto simp: fs_write_def split: prod.splits sum.splits)
  from c have f1: "lookup f1 (resolve p) = Some (FFile [] now)" by (rule create_Inr)
  show "lookup f' (resolve p) = Some (FFile d now)"
    by (rule append_Inr [OF a]) (simp add: f1)
  show "q \<noteq> resolve p \<Longrightarrow> lookup f' q = lookup f q"
    using append_lookup_other [of q p now d f1] create_Inr(2) [OF c] a by simp
qed

lemma write_lookup_other: "q \<noteq> resolve p \<Longrightarrow> lookup (snd (fs_write now p d f)) q = lookup f q"
  using append_lookup_other [of q p now d] create_lookup_other [of q p now f]
  by (auto simp: fs_write_def split: prod.splits sum.splits)

lemma rename_Inr:
  assumes "fs_rename a b f = (Inr u, f')"
  obtains d t where "lookup f (resolve a) = Some (FFile d t)"
    and "lookup f' (resolve b) = Some (FFile d t)"
    and "resolve a \<noteq> resolve b \<Longrightarrow> lookup f' (resolve a) = None"
    and "\<And>q. q \<noteq> resolve a \<Longrightarrow> q \<noteq> resolve b \<Longrightarrow> lookup f' q = lookup f q"
proof -
  from assms obtain d t where a: "lookup f (resolve a) = Some (FFile d t)"
    and f': "f' = f \<and> resolve a = resolve b \<or>
      f' = put_node (resolve b) (FFile d t) (drop_node (resolve a) f) \<and>
      lookup f (resolve b) \<noteq> Some FDir"
    by (auto simp: fs_rename_def Let_def split: option.splits fnode.splits if_splits)
  from a have ne: "resolve a \<noteq> []" by auto
  from f' show thesis
  proof
    assume "f' = f \<and> resolve a = resolve b"
    with a show thesis by (intro that) auto
  next
    assume "f' = put_node (resolve b) (FFile d t) (drop_node (resolve a) f) \<and>
      lookup f (resolve b) \<noteq> Some FDir"
    moreover from this have "resolve b \<noteq> []" by auto
    ultimately show thesis using a ne by (intro that) (auto simp: fs_simps)
  qed
qed

lemma rename_Inl: "fs_rename a b f = (Inl e, f') \<Longrightarrow> f' = f"
  by (auto simp: fs_rename_def Let_def split: option.splits fnode.splits if_splits)

lemma rename_lookup_other:
  "q \<noteq> resolve a \<Longrightarrow> q \<noteq> resolve b \<Longrightarrow> lookup (snd (fs_rename a b f)) q = lookup f q"
  by (cases "fs_rename a b f"; cases "fst (fs_rename a b f)")
    (auto dest: rename_Inl elim: rename_Inr)

lemma remove_Inr:
  assumes "fs_remove_file p f = (Inr u, f')"
  shows "is_file_node (lookup f (resolve p))" and "lookup f' (resolve p) = None"
    and "q \<noteq> resolve p \<Longrightarrow> lookup f' q = lookup f q"
  using assms
  by (auto simp: fs_remove_file_def node_at_def fs_simps dest: lookup_Some_nonempty
      split: option.splits fnode.splits if_splits)

lemma remove_Inl: "fs_remove_file p f = (Inl e, f') \<Longrightarrow> f' = f"
  by (auto simp: fs_remove_file_def split: option.splits fnode.splits if_splits)

lemma read_Inr: "fs_read p f = Inr b \<Longrightarrow> file_at f (resolve p) = Some b"
  by (auto simp: fs_read_def node_at_def file_at_def split: option.splits fnode.splits if_splits)

lemma metadata_Inr: "fs_metadata p f = Inr n \<Longrightarrow> lookup f (resolve p) = Some n"
  by (auto simp: fs_metadata_def node_at_def split: option.splits if_splits)

lemma children_iff:
  assumes "fs_ok f"
  shows "(c, n) \<in> set (children f r) \<longleftrightarrow> lookup f (r @ [c]) = Some n"
proof -
  have "(c, n) \<in> set (children f r) \<longleftrightarrow> (r @ [c], n) \<in> set (nodes f) \<and> c \<noteq> ''..''"
    by (force simp: children_def image_iff)
  also have "\<dots> \<longleftrightarrow> lookup f (r @ [c]) = Some n \<and> c \<noteq> ''..''"
    using assms by (auto simp: fs_ok_def lookup_def)
  also have "\<dots> \<longleftrightarrow> lookup f (r @ [c]) = Some n"
    using fs_ok_canonical [OF assms, of "r @ [c]" n] by auto
  finally show ?thesis .
qed

text \<open>The length of the longest path, the bound on the depth of every directory walk.\<close>

definition fs_depth :: "fs \<Rightarrow> nat" where
  "fs_depth f = Max (insert 0 (length ` fst ` set (nodes f)))"

lemma lookup_depth: "lookup f q = Some n \<Longrightarrow> length q \<le> fs_depth f"
proof (cases "q = []")
  case False
  assume "lookup f q = Some n"
  with False have "(q, n) \<in> set (nodes f)" by (auto simp: lookup_def dest: map_of_SomeD)
  then show ?thesis by (force simp: fs_depth_def intro: Max_ge)
qed simp

lemma child_name: "(c, n) \<in> set (children f r) \<Longrightarrow> c \<noteq> ''..''"
  by (auto simp: children_def)

text \<open>Calls on a file system without faults.\<close>

definition no_faults :: "fs \<Rightarrow> bool" where
  "no_faults f \<longleftrightarrow> (\<forall>op p. faults f op p = None)"

lemma no_faults_failing [simp]: "no_faults f \<Longrightarrow> \<not> failing f op p"
  by (simp add: no_faults_def failing_def)

text \<open>No file lies on the way to a directory.\<close>

definition dir_clear :: "fs \<Rightarrow> path \<Rightarrow> bool" where
  "dir_clear f q \<longleftrightarrow> (\<forall>k \<le> length q. \<not> is_file_node (lookup f (take k q)))"

lemma is_file_node_iff: "is_file_node (lookup f q) \<longleftrightarrow> file_at f q \<noteq> None"
  by (cases "lookup f q" rule: is_file_node.cases) (auto simp: file_at_def)

lemma dir_clear_file_at: "dir_clear f q \<longleftrightarrow> (\<forall>k \<le> length q. file_at f (take k q) = None)"
  by (auto simp: dir_clear_def is_file_node_iff)

lemma no_faults_cong: "faults g = faults f \<Longrightarrow> no_faults f \<Longrightarrow> no_faults g"
  by (simp add: no_faults_def)

lemma create_dir_all_ok:
  assumes "no_faults f" and "dir_clear f (resolve p)"
  obtains f' where "fs_create_dir_all p f = (Inr (), f')" and "file_at f' = file_at f"
    and "lookup f' (resolve p) = Some FDir" and "no_faults f'"
    and "\<And>q n. lookup f q = Some n \<Longrightarrow> lookup f' q = Some n"
    and "\<And>q. \<not> prefix q (resolve p) \<Longrightarrow> lookup f' q = lookup f q"
proof -
  have "\<not> list_ex (\<lambda>q. is_file_node (lookup f q)) (map (\<lambda>k. take k (resolve p)) [1..<Suc (length (resolve p))])"
    using assms(2) by (auto simp: list_ex_iff dir_clear_def simp del: upt_Suc)
  with assms(1) obtain f' where f': "fs_create_dir_all p f = (Inr (), f')"
    by (simp add: fs_create_dir_all_def Let_def del: upt_Suc)
  then have s: "f' = snd (fs_create_dir_all p f)" by simp
  show thesis
  proof (rule that [OF f'])
    show "file_at f' = file_at f" using sys_mkdir.frame [of _ p f] by (auto simp: s)
    show "lookup f' (resolve p) = Some FDir" by (rule create_dir_all_Inr [OF f'])
    show "no_faults f'" using sys_mkdir.keeps_faults [of p f] assms(1) by (simp add: s no_faults_def)
    show "lookup f q = Some n \<Longrightarrow> lookup f' q = Some n" for q n
      by (simp add: s create_dir_all_lookup_keep)
    show "\<not> prefix q (resolve p) \<Longrightarrow> lookup f' q = lookup f q" for q
      by (simp add: s create_dir_all_lookup_other)
  qed
qed

lemma create_ok:
  assumes "no_faults f" and "lookup f (butlast (resolve p)) = Some FDir" and "lookup f (resolve p) \<noteq> Some FDir"
  obtains f' where "fs_create now p f = (Inr (), f')" and "lookup f' (resolve p) = Some (FFile [] now)"
    and "\<And>q. q \<noteq> resolve p \<Longrightarrow> lookup f' q = lookup f q" and "no_faults f'"
proof -
  from assms obtain f' where f': "fs_create now p f = (Inr (), f')"
    by (cases "lookup f (resolve p)"; cases "the (lookup f (resolve p))")
      (auto simp: fs_create_def Let_def)
  then have "no_faults f'"
    using sys_create.keeps_faults [of now p f] assms(1) by (simp add: no_faults_def)
  with create_Inr [OF f'] f' show thesis by (intro that)
qed

lemma append_ok:
  assumes "no_faults f" and "lookup f (resolve p) = Some (FFile b t)"
  obtains f' where "fs_append now p d f = (Inr (), f')"
    and "lookup f' (resolve p) = Some (FFile (b @ d) now)"
    and "\<And>q. q \<noteq> resolve p \<Longrightarrow> lookup f' q = lookup f q" and "no_faults f'"
proof -
  from assms obtain f' where f': "fs_append now p d f = (Inr (), f')"
    by (auto simp: fs_append_def no_faults_def)
  then have "no_faults f'"
    using sys_append.keeps_faults [of now p d f] assms(1) by (simp add: no_faults_def)
  moreover have "lookup f' (resolve p) = Some (FFile (b @ d) now)"
    by (rule append_Inr [OF f']) (use assms(2) in auto)
  moreover have "lookup f' q = lookup f q" if "q \<noteq> resolve p" for q
    using append_lookup_other [OF that, of now d f] f' by simp
  ultimately show thesis using f' by (intro that)
qed

lemma rename_ok:
  assumes "no_faults f" and "lookup f (resolve a) = Some (FFile b t)"
    and "lookup f (butlast (resolve c)) = Some FDir" and "lookup f (resolve c) \<noteq> Some FDir"
  obtains f' where "fs_rename a c f = (Inr (), f')" and "lookup f' (resolve c) = Some (FFile b t)"
    and "resolve a \<noteq> resolve c \<Longrightarrow> lookup f' (resolve a) = None"
    and "\<And>q. q \<noteq> resolve a \<Longrightarrow> q \<noteq> resolve c \<Longrightarrow> lookup f' q = lookup f q" and "no_faults f'"
proof -
  from assms obtain f' where f': "fs_rename a c f = (Inr (), f')"
    by (cases "resolve a = resolve c") (auto simp: fs_rename_def Let_def)
  then have nf: "no_faults f'"
    using sys_rename.keeps_faults [of a c f] assms(1) by (simp add: no_faults_def)
  show thesis
    by (rule rename_Inr [OF f']) (use assms(2) f' nf in \<open>auto intro: that\<close>)
qed

lemma write_ok:
  assumes "no_faults f" and "lookup f (butlast (resolve p)) = Some FDir" and "lookup f (resolve p) \<noteq> Some FDir"
  obtains f' where "fs_write now p d f = (Inr (), f')" and "lookup f' (resolve p) = Some (FFile d now)"
    and "\<And>q. q \<noteq> resolve p \<Longrightarrow> lookup f' q = lookup f q" and "no_faults f'"
proof -
  obtain f1 where f1: "fs_create now p f = (Inr (), f1)" "lookup f1 (resolve p) = Some (FFile [] now)"
    "no_faults f1" and o1: "\<And>q. q \<noteq> resolve p \<Longrightarrow> lookup f1 q = lookup f q"
    using create_ok [OF assms, where now = now] by metis
  obtain f2 where f2: "fs_append now p d f1 = (Inr (), f2)"
    "lookup f2 (resolve p) = Some (FFile ([] @ d) now)" "no_faults f2"
    and o2: "\<And>q. q \<noteq> resolve p \<Longrightarrow> lookup f2 q = lookup f1 q"
    using append_ok [OF f1(3,2), where now = now and d = d] by metis
  show thesis
    by (rule that [of f2]) (use f1 f2 o1 o2 in \<open>auto simp: fs_write_def\<close>)
qed

lemma read_ok: "no_faults f \<Longrightarrow> file_at f (resolve p) = Some b \<Longrightarrow> fs_read p f = Inr b"
  by (auto simp: fs_read_def node_at_def file_at_Some)

lemma fs_ok_prefix_dir:
  "fs_ok f \<Longrightarrow> lookup f q = Some n \<Longrightarrow> k < length q \<Longrightarrow> lookup f (take k q) = Some FDir"
proof (induction q arbitrary: n rule: rev_induct)
  case (snoc c q)
  then have d: "lookup f q = Some FDir" using fs_okD [of f "q @ [c]" n] by simp
  show ?case
  proof (cases "k = length q")
    case True
    with d show ?thesis by simp
  next
    case False
    with snoc.prems have "k < length q" by simp
    with snoc.IH [OF snoc.prems(1) d] show ?thesis by simp
  qed
qed simp

lemma missing_err_NotFound:
  assumes "fs_ok f" and "lookup f (butlast (resolve p)) = Some FDir"
  shows "missing_err f p = ENotFound"
proof -
  let ?r = "resolve p"
  have "lookup f (take k ?r) = Some FDir" if "k < length ?r" for k
  proof (cases "k = length ?r - 1")
    case True
    with assms(2) show ?thesis by (simp add: butlast_conv_take)
  next
    case False
    with that have "k < length (butlast ?r)" by simp
    from fs_ok_prefix_dir [OF assms this] that False show ?thesis by (simp add: take_butlast)
  qed
  then show ?thesis by (auto simp: missing_err_def Let_def list_ex_iff)
qed

section \<open>Atomic replacement\<close>

interpretation sys_replace: fs_call "fs_replace now tmp p d" "{resolve tmp, resolve p}" for now tmp p d
proof -
  have "fs_call (fs_write now tmp d) {resolve tmp, resolve p}" by (rule sys_write.widen) simp
  then have "fs_call (\<lambda>f. case fs_write now tmp d f of (Inl e, f1) \<Rightarrow> (Inl e, f1)
      | (Inr r, f1) \<Rightarrow> fs_rename tmp p f1) {resolve tmp, resolve p}"
    by (rule fs_call_try) (rule sys_rename.fs_call_axioms)
  then show "fs_call (fs_replace now tmp p d) {resolve tmp, resolve p}"
    by (simp add: fs_replace_def [abs_def])
qed

lemma replace_lookup_other:
  "q \<noteq> resolve tmp \<Longrightarrow> q \<noteq> resolve p \<Longrightarrow> lookup (snd (fs_replace now tmp p d f)) q = lookup f q"
  using write_lookup_other [of q tmp now d f] rename_lookup_other [of q tmp p]
  by (auto simp: fs_replace_def split: prod.splits sum.splits)

lemma replace_ok:
  assumes "no_faults f" and "butlast (resolve tmp) = butlast (resolve p)" and "resolve tmp \<noteq> resolve p"
    and "lookup f (butlast (resolve p)) = Some FDir" and "resolve p \<noteq> []"
    and "lookup f (resolve tmp) \<noteq> Some FDir" and "lookup f (resolve p) \<noteq> Some FDir"
  obtains f' where "fs_replace now tmp p d f = (Inr (), f')"
proof -
  obtain f1 where w: "fs_write now tmp d f = (Inr (), f1)" "lookup f1 (resolve tmp) = Some (FFile d now)" "no_faults f1"
    and o1: "\<And>q. q \<noteq> resolve tmp \<Longrightarrow> lookup f1 q = lookup f q"
    using write_ok [OF assms(1), of tmp now d] assms(2,4,6) by metis
  have "butlast (resolve p) \<noteq> resolve tmp" using assms(4,6) by metis
  with assms o1 have "lookup f1 (butlast (resolve p)) = Some FDir" "lookup f1 (resolve p) \<noteq> Some FDir" by metis+
  with w obtain f2 where "fs_rename tmp p f1 = (Inr (), f2)" using rename_ok [of f1 tmp d now p] by metis
  with w show thesis by (intro that [of f2]) (simp add: fs_replace_def)
qed

lemma replace_Inr:
  assumes "fs_replace now tmp p d f = (Inr u, f')"
  shows "file_at f' (resolve p) = Some d"
proof -
  from assms obtain f1 where w: "fs_write now tmp d f = (Inr (), f1)" and r: "fs_rename tmp p f1 = (Inr u, f')"
    by (auto simp: fs_replace_def split: prod.splits sum.splits)
  show ?thesis
    by (rule rename_Inr [OF r]) (use write_Inr(1) [OF w] in \<open>auto simp: file_at_def\<close>)
qed

lemma replace_Inl:
  assumes "fs_replace now tmp p d f = (Inl e, f')" and ne: "resolve tmp \<noteq> resolve p"
  shows "file_at f' (resolve p) = file_at f (resolve p)"
  using assms sys_write.frame [of "resolve p" tmp now d f]
  by (auto simp: fs_replace_def dest!: rename_Inl split: prod.splits sum.splits)

text \<open>
  The contract of the operations that save a small file through a temporary one: readers see the old
  contents or the new ones.
\<close>

locale atomic_save =
  fixes save :: "fs \<Rightarrow> 'r \<times> fs" and saved :: "'r \<Rightarrow> bool" and target tmp :: path and body :: "bytes option"
  assumes save_frame: "q \<noteq> target \<Longrightarrow> q \<noteq> tmp \<Longrightarrow> file_at (snd (save f)) q = file_at f q"
    and save_done: "saved (fst (save f)) \<Longrightarrow> body \<noteq> None \<and> file_at (snd (save f)) target = body"
    and save_failed: "\<not> saved (fst (save f)) \<Longrightarrow> file_at (snd (save f)) target = file_at f target"
begin

lemma old_or_new: "file_at (snd (save f)) target = file_at f target \<or>
    file_at (snd (save f)) target = body \<and> saved (fst (save f))"
  using save_done [of f] save_failed [of f] by auto

lemma never_lost: "file_at f target \<noteq> None \<Longrightarrow> file_at (snd (save f)) target \<noteq> None"
  using old_or_new [of f] save_done [of f] by auto

end

lemma with_ext_simple: "CHR ''.'' \<notin> set e \<Longrightarrow> a \<noteq> [] \<Longrightarrow> with_ext (a @ ''.'' @ e) x = a @ ''.'' @ x"
  using rsplit_once_char [of "CHR ''.''" e a] by (simp add: with_ext_def)

end
