(* ===== verification/Blob_Cache.thy ===== *)
theory Blob_Cache
  imports Cas_Layout
begin

text \<open>
  \<^verbatim>\<open>crates/quill-storage/src/cache.rs\<close>: the in-memory metadata cache, keyed by repository and
  digest, whose entries expire after a time to live.  The locale \<open>ttl_cache\<close> is the contract of
  every expiring cache of the program (this one, the bearer tokens, the verified
  \<^verbatim>\<open>Authorization\<close> headers, the upstream tags); each is interpreted in its own theory.
\<close>

section \<open>The contract of an expiring cache\<close>

locale ttl_cache =
  fixes get :: "'m \<Rightarrow> nat \<Rightarrow> 'k \<Rightarrow> 'v option"
    and put :: "nat \<Rightarrow> 'k \<Rightarrow> 'v \<Rightarrow> 'm \<Rightarrow> 'm"
    and alive :: "nat \<Rightarrow> nat \<Rightarrow> bool"
  assumes get_put_same: "get (put t k v m) now k = (if alive t now then Some v else None)"
    and get_put_other: "k' \<noteq> k \<Longrightarrow> get (put t k v m) now k' = get m now k'"
    and alive_antimono: "alive t now' \<Longrightarrow> now \<le> now' \<Longrightarrow> alive t now"
begin

lemma hit_is_stored: "get (put t k v m) now k = Some w \<Longrightarrow> w = v"
  by (simp add: get_put_same split: if_splits)

lemma last_put_wins: "get (put t k v (put s k w m)) now k = get (put t k v m) now k"
  by (simp add: get_put_same)

text \<open>Once expired, an entry stays expired until it is replaced.\<close>

lemma expired_stays: "get (put t k v m) now k = None \<Longrightarrow> now \<le> now' \<Longrightarrow> get (put t k v m) now' k = None"
  using alive_antimono by (auto simp: get_put_same split: if_splits)

lemma puts_commute:
  "k \<noteq> k' \<Longrightarrow> get (put t k v (put s k' w m)) now x = get (put s k' w (put t k v m)) now x"
  by (cases "x = k"; cases "x = k'") (simp_all add: get_put_same get_put_other)

end

section \<open>The blob metadata cache\<close>

record blob_meta =
  bm_path :: path
  bm_size :: u64
  bm_cached_at :: nat

record blob_meta_cache =
  bmc_entries :: "(string \<times> digest, blob_meta) dashmap"
  bmc_ttl :: nat

definition cache_new :: "nat \<Rightarrow> blob_meta_cache" where
  "cache_new t = \<lparr>bmc_entries = [], bmc_ttl = t\<rparr>"

definition cache_get :: "nat \<Rightarrow> blob_meta_cache \<Rightarrow> string \<Rightarrow> digest \<Rightarrow> blob_meta option" where
  "cache_get now c repo d =
     (case dm_get (bmc_entries c) (repo, d) of
        None \<Rightarrow> None
      | Some m \<Rightarrow> if now - bm_cached_at m < bmc_ttl c then Some m else None)"

definition cache_insert ::
    "string \<Rightarrow> digest \<Rightarrow> blob_meta \<Rightarrow> blob_meta_cache \<Rightarrow> blob_meta_cache" where
  "cache_insert repo d m c = c\<lparr>bmc_entries := dm_insert (repo, d) m (bmc_entries c)\<rparr>"

definition cache_invalidate :: "string \<Rightarrow> digest \<Rightarrow> blob_meta_cache \<Rightarrow> blob_meta_cache" where
  "cache_invalidate repo d c = c\<lparr>bmc_entries := dm_remove (repo, d) (bmc_entries c)\<rparr>"

definition cache_len :: "blob_meta_cache \<Rightarrow> nat" where
  "cache_len c = length (bmc_entries c)"

definition cache_is_empty :: "blob_meta_cache \<Rightarrow> bool" where
  "cache_is_empty c \<longleftrightarrow> bmc_entries c = []"

lemma cache_get_insert:
  "cache_get now (cache_insert repo d m c) repo' d' =
     (if (repo', d') = (repo, d) then (if now - bm_cached_at m < bmc_ttl c then Some m else None)
      else cache_get now c repo' d')"
  by (auto simp: cache_get_def cache_insert_def split: option.splits)

lemma cache_get_invalidate:
  "cache_get now (cache_invalidate repo d c) repo' d' =
     (if (repo', d') = (repo, d) then None else cache_get now c repo' d')"
  by (auto simp: cache_get_def cache_invalidate_def split: option.splits)

lemma cache_ttl [simp]:
  "bmc_ttl (cache_insert repo d m c) = bmc_ttl c" "bmc_ttl (cache_invalidate repo d c) = bmc_ttl c"
  by (simp_all add: cache_insert_def cache_invalidate_def)

text \<open>
  The contract, for a cache with a fixed time to live: an insertion stamps the metadata with the
  time of the call, as every caller of \<^verbatim>\<open>insert\<close> does.
\<close>

interpretation blob_ttl: ttl_cache
  "\<lambda>es now (repo, d). map_option (\<lambda>m. (bm_path m, bm_size m)) (cache_get now \<lparr>bmc_entries = es, bmc_ttl = t\<rparr> repo d)"
  "\<lambda>now (repo, d) (p, n) es.
     bmc_entries (cache_insert repo d \<lparr>bm_path = p, bm_size = n, bm_cached_at = now\<rparr> \<lparr>bmc_entries = es, bmc_ttl = t\<rparr>)"
  "\<lambda>s now. now - s < t" for t
  by unfold_locales (auto simp: cache_get_def cache_insert_def split: prod.splits option.splits)

end
