(* ===== verification/Cas_Store.thy ===== *)
theory Cas_Store
  imports Blob_Cache
begin

text \<open>
  The consistency of the content-addressed store, and the contract of the operations that commit a
  blob to it.  \<open>sha\<close> stands for \<^verbatim>\<open>hex::encode(Sha256::digest(..))\<close> of the \<^verbatim>\<open>sha2\<close> and \<^verbatim>\<open>hex\<close> crates;
  what the sources rely on is the shape of its result (\<open>sha_ok\<close>).  A running \<^verbatim>\<open>Sha256\<close> hasher is
  represented by the bytes it has been fed.
\<close>

definition sha_ok :: "(bytes \<Rightarrow> string) \<Rightarrow> bool" where
  "sha_ok sha \<longleftrightarrow> (\<forall>b. hex64 (sha b))"

lemma sha_okD [simp]: "sha_ok sha \<Longrightarrow> hex64 (sha b)"
  by (simp add: sha_ok_def)

text \<open>Every file in a slot of the store hashes to the name of the slot.\<close>

definition cas_ok :: "(bytes \<Rightarrow> string) \<Rightarrow> fs \<Rightarrow> bool" where
  "cas_ok sha f \<longleftrightarrow> (\<forall>p h b. hex64 h \<longrightarrow> file_at f (slot p h) = Some b \<longrightarrow> sha b = h)"

lemma cas_okI:
  "(\<And>p h b. hex64 h \<Longrightarrow> file_at f (slot p h) = Some b \<Longrightarrow> sha b = h) \<Longrightarrow> cas_ok sha f"
  by (simp add: cas_ok_def)

lemma cas_okD: "cas_ok sha f \<Longrightarrow> hex64 h \<Longrightarrow> file_at f (slot p h) = Some b \<Longrightarrow> sha b = h"
  by (simp add: cas_ok_def)

lemma cas_ok_blob:
  "cas_ok sha f \<Longrightarrow> wf_digest d \<Longrightarrow> file_at f (resolve (blob_path L repo d)) = Some b \<Longrightarrow> sha b = hex d"
  by (auto simp: path_simps wf_digest_def intro: cas_okD)

lemma cas_ok_subset:
  assumes "cas_ok sha f"
    and "\<And>p h b. hex64 h \<Longrightarrow> file_at g (slot p h) = Some b \<Longrightarrow> file_at f (slot p h) = Some b"
  shows "cas_ok sha g"
  using assms by (meson cas_okD cas_okI)

text \<open>A call that touches no slot keeps the store consistent.\<close>

context fs_call
begin

lemma keeps_cas: "\<forall>q \<in> touched. \<not> is_slot q \<Longrightarrow> cas_ok sha f \<Longrightarrow> cas_ok sha (snd (call f))"
proof (erule cas_ok_subset)
  fix p h b
  assume "\<forall>q \<in> touched. \<not> is_slot q" "hex64 h" "file_at (snd (call f)) (slot p h) = Some b"
  moreover from this have "slot p h \<notin> touched" by (metis is_slot_slot)
  ultimately show "file_at f (slot p h) = Some b" by (simp add: frame)
qed

end

text \<open>Nor does removing a file make it inconsistent.\<close>

lemma remove_keeps_cas [cas_intros]: "cas_ok sha f \<Longrightarrow> cas_ok sha (snd (fs_remove_file p f))"
proof (erule cas_ok_subset)
  fix q h b assume a: "file_at (snd (fs_remove_file p f)) (slot q h) = Some b"
  obtain r g where r: "fs_remove_file p f = (r, g)" by fastforce
  show "file_at f (slot q h) = Some b"
  proof (cases "slot q h = resolve p")
    case True
    with a r show ?thesis
      using remove_Inr(2) [of p f _ g] remove_Inl [of p f _ g] by (cases r) (auto simp: file_at_def)
  next
    case False
    with a sys_remove.frame [of "slot q h" p f] show ?thesis by simp
  qed
qed

section \<open>The contract of a commit\<close>

text \<open>
  Three operations commit a blob: the buffered write of \<^verbatim>\<open>LocalStorage\<close>, the end of an upload
  session, and the pull-through producer.  Each works in scratch files, and either the slot of the
  digest ends up with content of that digest, or the slot is left as it was.
\<close>

locale cas_commit =
  fixes sha :: "bytes \<Rightarrow> string"
    and commit :: "fs \<Rightarrow> 'r \<times> fs"
    and finished :: "'r \<Rightarrow> bool"
    and ready :: "fs \<Rightarrow> bool"
    and target :: path
    and dir :: path
    and name :: string
    and scratch :: "path set"
  assumes target_slot: "ready f \<Longrightarrow> hex64 name \<and> target = slot dir name"
    and scratch_no_slot: "ready f \<Longrightarrow> q \<in> scratch \<Longrightarrow> \<not> is_slot q"
    and commit_frame: "q \<notin> scratch \<Longrightarrow> q \<noteq> target \<Longrightarrow> file_at (snd (commit f)) q = file_at f q"
    and commit_failed: "ready f \<Longrightarrow> \<not> finished (fst (commit f)) \<Longrightarrow>
      file_at (snd (commit f)) target = file_at f target"
    and commit_done: "ready f \<Longrightarrow> finished (fst (commit f)) \<Longrightarrow>
      \<exists>b. file_at (snd (commit f)) target = Some b \<and> sha b = name"
begin

lemma other_slots:
  "ready f \<Longrightarrow> hex64 h \<Longrightarrow> (p, h) \<noteq> (dir, name) \<Longrightarrow>
   file_at (snd (commit f)) (slot p h) = file_at f (slot p h)"
  by (metis commit_frame is_slot_slot scratch_no_slot slot_inject target_slot)

lemma commit_keeps_cas:
  assumes "cas_ok sha f" and r: "ready f"
  shows "cas_ok sha (snd (commit f))"
proof (rule cas_okI)
  fix p h b assume h: "hex64 h" and b: "file_at (snd (commit f)) (slot p h) = Some b"
  show "sha b = h"
  proof (cases "(p, h) = (dir, name)")
    case True
    then show ?thesis
      using b target_slot [OF r] commit_done [OF r] commit_failed [OF r] cas_okD [OF assms(1) h, of p b]
      by (cases "finished (fst (commit f))") auto
  next
    case False
    with h b assms show ?thesis by (simp add: other_slots cas_okD)
  qed
qed

text \<open>A commit never removes a blob.\<close>

lemma commit_keeps_blobs:
  assumes r: "ready f" and "hex64 h" and "file_at f (slot p h) \<noteq> None"
  shows "file_at (snd (commit f)) (slot p h) \<noteq> None"
proof (cases "(p, h) = (dir, name)")
  case True
  with assms show ?thesis
    using target_slot [OF r] commit_done [OF r] commit_failed [OF r]
    by (cases "finished (fst (commit f))") auto
next
  case False
  with assms show ?thesis by (simp add: other_slots)
qed

end

end
