(* ===== verification/Local_Storage.thy ===== *)
theory Local_Storage
  imports Cas_Store
begin

unbundle bit_operations_syntax

text \<open>
  \<^verbatim>\<open>crates/quill-storage/src/local.rs\<close>: the local content-addressed storage with its metadata cache.
  Writes go through a temporary file and an atomic rename.  The buffered write is an instance of the
  commit contract; reads, deletions and the cache are related to the files on disk.
\<close>

section \<open>Data\<close>

datatype storage_error =
    SIo io_error
  | SNotFound string
  | SDigestMismatch string string

record local_storage =
  layout :: cas_layout
  meta_cache :: blob_meta_cache

definition storage_new :: "cas_layout \<Rightarrow> nat \<Rightarrow> local_storage" where
  "storage_new L t = \<lparr>layout = L, meta_cache = cache_new t\<rparr>"

section \<open>Operations\<close>

definition rand_u64 :: "clock \<Rightarrow> u64" where
  "rand_u64 ck =
     (let nanos = of_nat (wall ck) :: u64
      in word_rotl 13 nanos XOR (pid ck * 0x9E3779B97F4A7C15))"

definition tempfile_name :: "clock \<Rightarrow> string" where
  "tempfile_name ck = ''tmp-'' @ hex16 (rand_u64 ck)"

definition tempfile_path :: "clock \<Rightarrow> cas_layout \<Rightarrow> string \<Rightarrow> path" where
  "tempfile_path ck L repo = path_join (uploads_dir L repo) (tempfile_name ck)"

definition blob_meta_of :: "clock \<Rightarrow> string \<Rightarrow> digest \<Rightarrow> fs \<Rightarrow> local_storage \<Rightarrow>
    (storage_error + blob_meta option) \<times> local_storage" where
  "blob_meta_of ck repo d f S =
     (case cache_get (inst ck) (meta_cache S) repo d of
        Some m \<Rightarrow> (Inr (Some m), S)
      | None \<Rightarrow>
          (let p = blob_path (layout S) repo d in
           case fs_metadata p f of
             Inr (FFile b t) \<Rightarrow>
               (let m = \<lparr>bm_path = p, bm_size = len_u64 b, bm_cached_at = inst ck\<rparr>
                in (Inr (Some m), S\<lparr>meta_cache := cache_insert repo d m (meta_cache S)\<rparr>))
           | Inr FDir \<Rightarrow> (Inr None, S)
           | Inl ENotFound \<Rightarrow> (Inr None, S)
           | Inl e \<Rightarrow> (Inl (SIo e), S)))"

definition open_blob :: "blob_meta \<Rightarrow> fs \<Rightarrow> storage_error + bytes" where
  "open_blob m f = (case fs_read (bm_path m) f of Inl e \<Rightarrow> Inl (SIo e) | Inr b \<Rightarrow> Inr b)"

text \<open>The file system calls of \<^verbatim>\<open>put_blob_buffered\<close> after the digest check.\<close>

definition write_via_tempfile ::
    "nat \<Rightarrow> path \<Rightarrow> path \<Rightarrow> bytes \<Rightarrow> fs \<Rightarrow> (io_error + unit) \<times> fs" where
  "write_via_tempfile now tmp final bs f =
     (case fs_create_dir_all (butlast final) f of
        (Inl e, f1) \<Rightarrow> (Inl e, f1)
      | (Inr _, f1) \<Rightarrow>
     (case fs_create_dir_all (butlast tmp) f1 of
        (Inl e, f2) \<Rightarrow> (Inl e, f2)
      | (Inr _, f2) \<Rightarrow>
     (case fs_create now tmp f2 of
        (Inl e, f3) \<Rightarrow> (Inl e, f3)
      | (Inr _, f3) \<Rightarrow>
     (case fs_append now tmp bs f3 of
        (Inl e, f4) \<Rightarrow> (Inl e, f4)
      | (Inr _, f4) \<Rightarrow> fs_rename tmp final f4))))"

definition put_blob_buffered :: "(bytes \<Rightarrow> string) \<Rightarrow> clock \<Rightarrow> string \<Rightarrow> digest \<Rightarrow> bytes \<Rightarrow>
    local_storage \<Rightarrow> fs \<Rightarrow> (storage_error + blob_meta) \<times> local_storage \<times> fs" where
  "put_blob_buffered sha ck repo expected bs S f =
     (let got_hex = sha bs in
      if got_hex \<noteq> hex expected
      then (Inl (SDigestMismatch (digest_to_string expected) (''sha256:'' @ got_hex)), S, f)
      else
        let final = blob_path (layout S) repo expected;
            tmp = tempfile_path ck (layout S) repo
        in case write_via_tempfile (wall ck) tmp final bs f of
             (Inl e, f') \<Rightarrow> (Inl (SIo e), S, f')
           | (Inr _, f') \<Rightarrow>
               let m = \<lparr>bm_path = final, bm_size = len_u64 bs, bm_cached_at = inst ck\<rparr>
               in (Inr m, S\<lparr>meta_cache := cache_insert repo expected m (meta_cache S)\<rparr>, f'))"

definition read_blob_to_bytes :: "blob_meta \<Rightarrow> fs \<Rightarrow> storage_error + bytes" where
  "read_blob_to_bytes m f = open_blob m f"

definition delete_blob :: "string \<Rightarrow> digest \<Rightarrow> local_storage \<Rightarrow> fs \<Rightarrow>
    (storage_error + unit) \<times> local_storage \<times> fs" where
  "delete_blob repo d S f =
     (let S' = S\<lparr>meta_cache := cache_invalidate repo d (meta_cache S)\<rparr> in
      case fs_remove_file (blob_path (layout S) repo d) f of
        (Inr _, f') \<Rightarrow> (Inr (), S', f')
      | (Inl ENotFound, f') \<Rightarrow> (Inl (SNotFound (digest_to_string d)), S', f')
      | (Inl e, f') \<Rightarrow> (Inl (SIo e), S, f'))"

definition ensure_repo :: "string \<Rightarrow> local_storage \<Rightarrow> fs \<Rightarrow> (storage_error + unit) \<times> fs" where
  "ensure_repo repo S f =
     (case ensure_repo_dirs (layout S) repo f of
        (Inl e, f') \<Rightarrow> (Inl (SIo e), f')
      | (Inr _, f') \<Rightarrow> (Inr (), f'))"

section \<open>The temporary file\<close>

lemma tempfile_plain [simp]: "plain_name (tempfile_name ck)"
  by (auto simp: plain_name_def tempfile_name_def dest!: hex16_chars)

lemma resolve_tempfile [path_simps]:
  "resolve (tempfile_path ck L repo) = rdir L repo @ [''_uploads'', tempfile_name ck]"
  by (simp add: tempfile_path_def resolve_upload_file)

lemma write_via_tempfile_call:
  "fs_call (write_via_tempfile now tmp final bs) {resolve tmp, resolve final}"
proof -
  let ?T = "{resolve tmp, resolve final}"
  have a: "fs_call (fs_rename tmp final) ?T" by (rule sys_rename.fs_call_axioms)
  have b: "fs_call (fs_append now tmp bs) ?T" "fs_call (fs_create now tmp) ?T"
    "fs_call (fs_create_dir_all p) ?T" for p
    by (rule sys_append.widen sys_create.widen sys_mkdir.widen; simp)+
  show ?thesis
    unfolding write_via_tempfile_def [abs_def] by (intro fs_call_try a b)
qed

text \<open>A completed write leaves the bytes at the final path; a failed one leaves it untouched.\<close>

lemma write_via_tempfile_Inr:
  assumes w: "write_via_tempfile now tmp final bs f = (Inr u, f')"
  shows "file_at f' (resolve final) = Some bs"
proof -
  from w obtain f3 f4 where c: "\<exists>f2. fs_create now tmp f2 = (Inr (), f3)"
    and a: "fs_append now tmp bs f3 = (Inr (), f4)" and r: "fs_rename tmp final f4 = (Inr u, f')"
    by (auto simp: write_via_tempfile_def split: prod.splits sum.splits)
  from c have f3: "lookup f3 (resolve tmp) = Some (FFile [] now)" by (auto dest: create_Inr)
  have f4: "lookup f4 (resolve tmp) = Some (FFile bs now)"
    by (rule append_Inr [OF a]) (simp add: f3)
  show ?thesis by (rule rename_Inr [OF r]) (simp add: f4 file_at_def)
qed

lemma write_via_tempfile_Inl:
  assumes w: "write_via_tempfile now tmp final bs f = (Inl e, f')" and ne: "resolve tmp \<noteq> resolve final"
  shows "file_at f' (resolve final) = file_at f (resolve final)"
proof -
  note frames = sys_mkdir.frame [of "resolve final"] sys_create.frame [of "resolve final" tmp]
    sys_append.frame [of "resolve final" tmp]
  from w show ?thesis
    unfolding write_via_tempfile_def
    using frames ne by (auto split: prod.splits sum.splits dest!: rename_Inl; metis snd_conv)
qed

section \<open>The buffered write commits\<close>

lemma put_blob_cases:
  obtains (mismatch) "sha bs \<noteq> hex d"
      "put_blob_buffered sha ck repo d bs S f =
       (Inl (SDigestMismatch (digest_to_string d) (''sha256:'' @ sha bs)), S, f)"
  | (io) e f' where "sha bs = hex d"
      "write_via_tempfile (wall ck) (tempfile_path ck (layout S) repo) (blob_path (layout S) repo d) bs f = (Inl e, f')"
      "put_blob_buffered sha ck repo d bs S f = (Inl (SIo e), S, f')"
  | (stored) m f' where "sha bs = hex d"
      "write_via_tempfile (wall ck) (tempfile_path ck (layout S) repo) (blob_path (layout S) repo d) bs f = (Inr (), f')"
      "m = \<lparr>bm_path = blob_path (layout S) repo d, bm_size = len_u64 bs, bm_cached_at = inst ck\<rparr>"
      "put_blob_buffered sha ck repo d bs S f =
       (Inr m, S\<lparr>meta_cache := cache_insert repo d m (meta_cache S)\<rparr>, f')"
proof -
  obtain w f' where w: "write_via_tempfile (wall ck) (tempfile_path ck (layout S) repo)
      (blob_path (layout S) repo d) bs f = (w, f')" by fastforce
  show thesis
  proof (cases "sha bs = hex d")
    case True
    with w show thesis by (cases w) (auto simp: put_blob_buffered_def Let_def intro: io stored)
  next
    case False
    with mismatch show thesis by (simp add: put_blob_buffered_def)
  qed
qed

lemma tempfile_neq_blob:
  "wf_digest d \<Longrightarrow> resolve (tempfile_path ck L r) \<noteq> resolve (blob_path L r d)"
  by (metis is_slot_slot resolve_blob_path resolve_tempfile upload_not_slot wf_digest_def)

interpretation buffered: cas_commit sha "paired (put_blob_buffered sha ck repo d bs S)" "\<lambda>(r, S'). \<exists>m. r = Inr m"
  "\<lambda>f. wf_digest d" "resolve (blob_path (layout S) repo d)" "rdir (layout S) repo" "hex d"
  "{resolve (tempfile_path ck (layout S) repo)}" for sha ck repo d bs S
proof
  fix f assume "wf_digest d"
  then show "hex64 (hex d) \<and> resolve (blob_path (layout S) repo d) = slot (rdir (layout S) repo) (hex d)"
    by (simp add: path_simps wf_digest_def)
next
  fix q and f :: fs assume "q \<in> {resolve (tempfile_path ck (layout S) repo)}"
  then show "\<not> is_slot q" by (simp add: path_simps)
next
  fix q f
  assume "q \<notin> {resolve (tempfile_path ck (layout S) repo)}" "q \<noteq> resolve (blob_path (layout S) repo d)"
  then show "file_at (snd (paired (put_blob_buffered sha ck repo d bs S) f)) q = file_at f q"
    using fs_call.frame [OF write_via_tempfile_call, of q "tempfile_path ck (layout S) repo"
        "blob_path (layout S) repo d" "wall ck" bs f]
    by (cases rule: put_blob_cases [of sha bs d ck repo S f]) (simp_all add: paired_def)
next
  fix f assume "wf_digest d" "\<not> (case fst (paired (put_blob_buffered sha ck repo d bs S) f) of (r, S') \<Rightarrow> \<exists>m. r = Inr m)"
  then show "file_at (snd (paired (put_blob_buffered sha ck repo d bs S) f)) (resolve (blob_path (layout S) repo d)) =
      file_at f (resolve (blob_path (layout S) repo d))"
    by (cases rule: put_blob_cases [of sha bs d ck repo S f])
      (auto simp: paired_def tempfile_neq_blob write_via_tempfile_Inl)
next
  fix f assume "case fst (paired (put_blob_buffered sha ck repo d bs S) f) of (r, S') \<Rightarrow> \<exists>m. r = Inr m"
  then show "\<exists>b. file_at (snd (paired (put_blob_buffered sha ck repo d bs S) f)) (resolve (blob_path (layout S) repo d)) =
      Some b \<and> sha b = hex d"
    by (cases rule: put_blob_cases [of sha bs d ck repo S f])
      (auto simp: paired_def write_via_tempfile_Inr)
qed

lemma put_blob_keeps_cas [cas_intros]:
  assumes "put_blob_buffered sha ck repo d bs S f = (r, S', f')" "wf_digest d" "cas_ok sha f"
  shows "cas_ok sha f'"
  using buffered.commit_keeps_cas [of sha f d ck repo bs S] assms by (simp add: paired_def)

section \<open>Reading, deleting, caching\<close>

text \<open>
  The cache is sound when every live entry names the blob's own path and size.  Deletions behind the
  server's back (the garbage collector is another process) can make it stale; that is what the time
  to live bounds.
\<close>

definition meta_sound :: "local_storage \<Rightarrow> fs \<Rightarrow> bool" where
  "meta_sound S f \<longleftrightarrow> (\<forall>repo d m. dm_get (bmc_entries (meta_cache S)) (repo, d) = Some m \<longrightarrow>
     bm_path m = blob_path (layout S) repo d \<and>
     (\<exists>b. file_at f (resolve (blob_path (layout S) repo d)) = Some b \<and> bm_size m = len_u64 b))"

lemma cache_get_Some:
  "cache_get now c repo d = Some m \<longleftrightarrow>
   dm_get (bmc_entries c) (repo, d) = Some m \<and> now - bm_cached_at m < bmc_ttl c"
  by (auto simp: cache_get_def split: option.splits)

lemma blob_meta_cases:
  obtains (hit) m where "cache_get (inst ck) (meta_cache S) repo d = Some m"
      "blob_meta_of ck repo d f S = (Inr (Some m), S)"
  | (stat) m b where "cache_get (inst ck) (meta_cache S) repo d = None"
      "file_at f (resolve (blob_path (layout S) repo d)) = Some b"
      "m = \<lparr>bm_path = blob_path (layout S) repo d, bm_size = len_u64 b, bm_cached_at = inst ck\<rparr>"
      "blob_meta_of ck repo d f S =
       (Inr (Some m), S\<lparr>meta_cache := cache_insert repo d m (meta_cache S)\<rparr>)"
  | (absent) "cache_get (inst ck) (meta_cache S) repo d = None"
      "file_at f (resolve (blob_path (layout S) repo d)) = None"
      "blob_meta_of ck repo d f S = (Inr None, S)"
  | (error) e where "cache_get (inst ck) (meta_cache S) repo d = None"
      "blob_meta_of ck repo d f S = (Inl (SIo e), S)"
proof (cases "cache_get (inst ck) (meta_cache S) repo d")
  case (Some m)
  then show thesis by (intro hit) (auto simp: blob_meta_of_def)
next
  case None
  let ?p = "blob_path (layout S) repo d"
  show thesis
  proof (cases "fs_metadata ?p f")
    case (Inl e)
    then show thesis
    proof (cases e)
      case ENotFound
      with Inl have "node_at f ?p = None" by (auto simp: fs_metadata_def split: if_splits option.splits)
      with None Inl ENotFound show thesis
        by (intro absent) (auto simp: blob_meta_of_def node_at_def file_at_def)
    next
      case EOther
      with None Inl show thesis by (intro error) (auto simp: blob_meta_of_def)
    qed
  next
    case (Inr n)
    then show thesis
    proof (cases n)
      case FDir
      with None Inr show thesis
        by (intro absent) (auto simp: blob_meta_of_def file_at_def dest: metadata_Inr)
    next
      case (FFile b t)
      with None Inr show thesis
        by (intro stat) (auto simp: blob_meta_of_def Let_def file_at_def dest: metadata_Inr)
    qed
  qed
qed

lemma blob_meta_of_layout: "blob_meta_of ck repo d f S = (r, S') \<Longrightarrow> layout S' = layout S"
  by (cases rule: blob_meta_cases [of ck S repo d f]) auto

lemma meta_sound_insert:
  assumes "meta_sound S f" and "file_at f (resolve (blob_path (layout S) repo d)) = Some b"
    and "bm_path m = blob_path (layout S) repo d" and "bm_size m = len_u64 b"
  shows "meta_sound (S\<lparr>meta_cache := cache_insert repo d m (meta_cache S)\<rparr>) f"
  using assms by (auto simp: meta_sound_def cache_insert_def)

lemma meta_soundD:
  assumes "meta_sound S f" and "cache_get now (meta_cache S) repo d = Some m"
  shows "bm_path m = blob_path (layout S) repo d"
    and "\<exists>b. file_at f (resolve (blob_path (layout S) repo d)) = Some b \<and> bm_size m = len_u64 b"
  using assms by (auto simp: meta_sound_def cache_get_Some)

text \<open>
  Metadata lookup is exact when the cache is sound: a positive answer names the blob's path and
  its size on disk, a negative answer means no such blob, and the answer leaves the cache sound.
\<close>

lemma blob_meta_of_exact:
  assumes "meta_sound S f" and "blob_meta_of ck repo d f S = (r, S')"
  shows "meta_sound S' f \<and> layout S' = layout S \<and>
    (case r of
       Inr (Some m) \<Rightarrow> bm_path m = blob_path (layout S) repo d \<and>
         (\<exists>b. file_at f (resolve (bm_path m)) = Some b \<and> bm_size m = len_u64 b)
     | Inr None \<Rightarrow> file_at f (resolve (blob_path (layout S) repo d)) = None
     | Inl e \<Rightarrow> S' = S)"
proof (cases rule: blob_meta_cases [of ck S repo d f])
  case (hit m)
  with assms meta_soundD [OF assms(1) hit(1)] show ?thesis by auto
next
  case (stat m b)
  with assms meta_sound_insert [OF assms(1) stat(2), of m] show ?thesis by auto
next
  case absent
  with assms show ?thesis by auto
next
  case (error e)
  with assms show ?thesis by auto
qed

definition demo_fs :: fs where
  "demo_fs = \<lparr>nodes = [], faults = (\<lambda>_ _. None)\<rparr>"

lemma demo_fs_ok [simp]: "fs_ok demo_fs" "no_faults demo_fs" "cas_ok sha demo_fs"
  by (auto simp: demo_fs_def fs_ok_def lookup_def no_faults_def cas_ok_def file_at_def)

section \<open>Storing and reading back\<close>

lemma butlast_butlast_blob [path_simps]: "wf_digest d \<Longrightarrow>
    butlast (resolve (blob_path L repo d)) = resolve (butlast (blob_path L repo d))"
  by (simp add: path_simps slot_def butlast_append)

lemma tempfile_parent [path_simps]: "butlast (tempfile_path ck L repo) = uploads_dir L repo"
  by (simp add: tempfile_path_def path_join_plain)

text \<open>When no file is in the way and no call faults, the write through a temporary file completes.\<close>

lemma write_via_tempfile_ok:
  assumes nf: "no_faults f" and ne: "resolve tmp \<noteq> resolve final"
    and bt: "butlast (resolve tmp) = resolve (butlast tmp)"
    and bf: "butlast (resolve final) = resolve (butlast final)"
    and clear: "dir_clear f (resolve (butlast final))" "dir_clear f (resolve (butlast tmp))"
    and free: "lookup f (resolve tmp) \<noteq> Some FDir" "lookup f (resolve final) \<noteq> Some FDir"
    and np: "\<not> prefix (resolve tmp) (resolve (butlast final))" "\<not> prefix (resolve final) (resolve (butlast tmp))"
      "\<not> prefix (resolve tmp) (resolve (butlast tmp))" "\<not> prefix (resolve final) (resolve (butlast final))"
  shows "fst (write_via_tempfile now tmp final bs f) = Inr ()"
proof -
  obtain f1 where f1: "fs_create_dir_all (butlast final) f = (Inr (), f1)" "file_at f1 = file_at f"
    "lookup f1 (resolve (butlast final)) = Some FDir" "no_faults f1"
    and o1: "\<And>q. \<not> prefix q (resolve (butlast final)) \<Longrightarrow> lookup f1 q = lookup f q"
    using create_dir_all_ok [OF nf clear(1)] by metis
  then have "dir_clear f1 (resolve (butlast tmp))" using clear(2) by (simp add: dir_clear_file_at)
  then obtain f2 where f2: "fs_create_dir_all (butlast tmp) f1 = (Inr (), f2)"
    "lookup f2 (resolve (butlast tmp)) = Some FDir" "no_faults f2"
    "lookup f2 (resolve (butlast final)) = Some FDir"
    and o2: "\<And>q. \<not> prefix q (resolve (butlast tmp)) \<Longrightarrow> lookup f2 q = lookup f1 q"
    using create_dir_all_ok [OF f1(4)] f1(3) by metis
  have free2: "lookup f2 (resolve tmp) \<noteq> Some FDir" "lookup f2 (resolve final) \<noteq> Some FDir"
    using free np o1 o2 by simp_all
  obtain f3 where f3: "fs_create now tmp f2 = (Inr (), f3)" "lookup f3 (resolve tmp) = Some (FFile [] now)"
    "no_faults f3" and o3: "\<And>q. q \<noteq> resolve tmp \<Longrightarrow> lookup f3 q = lookup f2 q"
    using create_ok [OF f2(3) _ free2(1)] f2(2) bt by metis
  obtain f4 where f4: "fs_append now tmp bs f3 = (Inr (), f4)"
    "lookup f4 (resolve tmp) = Some (FFile ([] @ bs) now)" "no_faults f4"
    and o4: "\<And>q. q \<noteq> resolve tmp \<Longrightarrow> lookup f4 q = lookup f3 q"
    using append_ok [OF f3(3,2)] by metis
  have "resolve tmp \<noteq> resolve (butlast final)" using np(1) by auto
  then have "lookup f4 (butlast (resolve final)) = Some FDir" "lookup f4 (resolve final) \<noteq> Some FDir"
    using f2(4) free2(2) o3 o4 bf ne by auto
  then obtain f5 where "fs_rename tmp final f4 = (Inr (), f5)"
    using rename_ok [OF f4(3,2)] by metis
  with f1 f2 f3 f4 show ?thesis by (simp add: write_via_tempfile_def)
qed

text \<open>The storage can take a blob: the repository's directories are not blocked by files.\<close>

definition repo_clear :: "cas_layout \<Rightarrow> string \<Rightarrow> fs \<Rightarrow> bool" where
  "repo_clear L repo f \<longleftrightarrow> no_faults f \<and> dir_clear f (rdir L repo @ [''blobs'', ''sha256'']) \<and>
     dir_clear f (rdir L repo @ [''_uploads''])"

lemma put_blob_succeeds:
  assumes "repo_clear (layout S) repo f" and "wf_digest d" and "sha bs = hex d"
    and "lookup f (resolve (tempfile_path ck (layout S) repo)) \<noteq> Some FDir"
    and "lookup f (resolve (blob_path (layout S) repo d)) \<noteq> Some FDir"
  shows "\<exists>m S' f'. put_blob_buffered sha ck repo d bs S f = (Inr m, S', f')"
proof -
  from assms have "fst (write_via_tempfile (wall ck) (tempfile_path ck (layout S) repo)
      (blob_path (layout S) repo d) bs f) = Inr ()"
    by (intro write_via_tempfile_ok)
      (auto simp: repo_clear_def path_simps slot_def butlast_append)
  then show ?thesis
    by (cases rule: put_blob_cases [of sha bs d ck repo S f]) (use assms(3) in auto)
qed

text \<open>
  C12. The buffered write is all or nothing: it stores exactly the bytes and only under a digest they
  hash to, a mismatch changes nothing, an I/O failure leaves the blob's slot as it was, no file other
  than the temporary one and the slot changes, and the store stays consistent.
\<close>

theorem put_blob_buffered_spec:
  assumes wf: "wf_digest d" and put: "put_blob_buffered sha ck repo d bs S f = (r, S', f')"
  shows "(case r of
      Inr m \<Rightarrow> sha bs = hex d \<and> bm_path m = blob_path (layout S) repo d \<and> bm_size m = len_u64 bs \<and>
        file_at f' (resolve (bm_path m)) = Some bs \<and>
        S' = S\<lparr>meta_cache := cache_insert repo d m (meta_cache S)\<rparr>
    | Inl (SDigestMismatch x y) \<Rightarrow> sha bs \<noteq> hex d \<and> x = digest_to_string d \<and>
        y = ''sha256:'' @ sha bs \<and> S' = S \<and> f' = f
    | Inl (SIo e) \<Rightarrow> S' = S \<and>
        file_at f' (resolve (blob_path (layout S) repo d)) = file_at f (resolve (blob_path (layout S) repo d))
    | Inl (SNotFound x) \<Rightarrow> False) \<and>
    (\<forall>q. q \<noteq> resolve (tempfile_path ck (layout S) repo) \<longrightarrow> q \<noteq> resolve (blob_path (layout S) repo d) \<longrightarrow>
       file_at f' q = file_at f q) \<and>
    (cas_ok sha f \<longrightarrow> cas_ok sha f')"
proof (intro conjI)
  show "case r of
      Inr m \<Rightarrow> sha bs = hex d \<and> bm_path m = blob_path (layout S) repo d \<and> bm_size m = len_u64 bs \<and>
        file_at f' (resolve (bm_path m)) = Some bs \<and>
        S' = S\<lparr>meta_cache := cache_insert repo d m (meta_cache S)\<rparr>
    | Inl (SDigestMismatch x y) \<Rightarrow> sha bs \<noteq> hex d \<and> x = digest_to_string d \<and>
        y = ''sha256:'' @ sha bs \<and> S' = S \<and> f' = f
    | Inl (SIo e) \<Rightarrow> S' = S \<and>
        file_at f' (resolve (blob_path (layout S) repo d)) = file_at f (resolve (blob_path (layout S) repo d))
    | Inl (SNotFound x) \<Rightarrow> False"
    by (cases rule: put_blob_cases [of sha bs d ck repo S f])
      (use put wf in \<open>auto simp: write_via_tempfile_Inr write_via_tempfile_Inl tempfile_neq_blob\<close>)
  show "\<forall>q. q \<noteq> resolve (tempfile_path ck (layout S) repo) \<longrightarrow> q \<noteq> resolve (blob_path (layout S) repo d) \<longrightarrow>
       file_at f' q = file_at f q"
    using buffered.commit_frame [of _ ck S repo d sha bs f] put by (simp add: paired_def)
  show "cas_ok sha f \<longrightarrow> cas_ok sha f'"
    using put_blob_keeps_cas [OF put wf] by blast
qed

text \<open>A hash of the right shape, a layout and a moment for the concrete instances.\<close>

definition demo_sha :: "bytes \<Rightarrow> string" where
  "demo_sha b = replicate 64 (hex_digit (length b))"

definition demo_clock :: clock where
  "demo_clock = \<lparr>inst = 5, wall = 7, pid = 1\<rparr>"

definition demo_storage :: local_storage where
  "demo_storage = storage_new \<lparr>root = [''q'']\<rparr> 60"

lemma demo_sha_ok [simp]: "sha_ok demo_sha"
  using hex_digit_in by (simp add: sha_ok_def demo_sha_def hex64_def is_lower_hexdigit_def list_all_iff)

lemma wf_demo_digest [simp]: "wf_digest (sha256_digest (demo_sha b))"
  using demo_sha_ok by simp

theorem put_blob_buffered_spec_witness:
  "\<exists>r S' f'. put_blob_buffered demo_sha demo_clock ''a/b'' (sha256_digest (demo_sha [1])) [2]
      demo_storage demo_fs = (r, S', f') \<and> cas_ok demo_sha f'"
proof -
  let ?d = "sha256_digest (demo_sha [1])"
  obtain r S' f' where put: "put_blob_buffered demo_sha demo_clock ''a/b'' ?d [2] demo_storage demo_fs =
      (r, S', f')" by (metis prod_cases3)
  show ?thesis using put put_blob_buffered_spec [OF wf_demo_digest put] by auto
qed

text \<open>
  Store and read back: on a repository whose directories are not blocked and with no failing
  call, storing bytes under their own digest succeeds, and the blob is found again with its size and
  read back byte for byte.
\<close>

lemma put_then_read:
  assumes "sha_ok sha" and "repo_clear (layout S) repo f" and "d = sha256_digest (sha bs)"
    and "lookup f (resolve (tempfile_path ck (layout S) repo)) \<noteq> Some FDir"
    and "lookup f (resolve (blob_path (layout S) repo d)) \<noteq> Some FDir"
    and "0 < bmc_ttl (meta_cache S)"
  shows "\<exists>m S' f'. put_blob_buffered sha ck repo d bs S f = (Inr m, S', f') \<and>
    bm_size m = len_u64 bs \<and> blob_meta_of ck repo d f' S' = (Inr (Some m), S') \<and>
    read_blob_to_bytes m f' = Inr bs"
proof -
  have wf: "wf_digest d" and h: "sha bs = hex d" using assms(1,3) by auto
  from put_blob_succeeds [where sha = sha and bs = bs, OF assms(2) wf h assms(4,5)] obtain m S' f'
    where put: "put_blob_buffered sha ck repo d bs S f = (Inr m, S', f')" by blast
  then have w: "write_via_tempfile (wall ck) (tempfile_path ck (layout S) repo)
      (blob_path (layout S) repo d) bs f = (Inr (), f')"
    and m: "m = \<lparr>bm_path = blob_path (layout S) repo d, bm_size = len_u64 bs, bm_cached_at = inst ck\<rparr>"
    and S': "S' = S\<lparr>meta_cache := cache_insert repo d m (meta_cache S)\<rparr>"
    by (cases rule: put_blob_cases [of sha bs d ck repo S f]; simp)+
  have "no_faults f'"
    using fs_call.keeps_faults [OF write_via_tempfile_call, of "wall ck" _ _ bs f] w assms(2)
    by (metis no_faults_cong repo_clear_def snd_conv)
  then have "read_blob_to_bytes m f' = Inr bs"
    using write_via_tempfile_Inr [OF w] m by (simp add: read_blob_to_bytes_def open_blob_def read_ok)
  moreover have "blob_meta_of ck repo d f' S' = (Inr (Some m), S')"
    using S' m assms(6) by (simp add: blob_meta_of_def cache_get_insert)
  ultimately show ?thesis using put m by auto
qed

lemma demo_repo_clear [simp]: "repo_clear L repo demo_fs"
  by (auto simp: repo_clear_def dir_clear_def demo_fs_def lookup_def no_faults_def)

lemma demo_lookup [simp]: "lookup demo_fs q = Some FDir \<longleftrightarrow> q = []"
  by (simp add: demo_fs_def lookup_def)

lemma removed_blob_missing:
  assumes "fs_ok f" and "wf_digest d" and rm: "fs_remove_file (blob_path L repo d) f = (Inr (), f')"
  shows "missing_err f' (blob_path L repo d) = ENotFound"
proof (rule missing_err_NotFound)
  let ?p = "blob_path L repo d"
  show "fs_ok f'" using sys_remove.keeps_ok [of f ?p] assms(1) rm by simp
  from rm have "is_file_node (lookup f (resolve ?p))" by (auto dest: remove_Inr)
  then obtain b t where "lookup f (resolve ?p) = Some (FFile b t)"
    by (cases "lookup f (resolve ?p)" rule: is_file_node.cases) auto
  then have "lookup f (butlast (resolve ?p)) = Some FDir" using assms(1) by (auto dest: fs_okD)
  moreover have "butlast (resolve ?p) \<noteq> resolve ?p" using assms(2) by (simp add: path_simps slot_def butlast_append)
  ultimately show "lookup f' (butlast (resolve ?p)) = Some FDir" using remove_Inr(3) [OF rm] by simp
qed

lemma invalidated_absent:
  assumes "no_faults f" and "lookup f (resolve (blob_path (layout S) repo d)) = None"
    and "missing_err f (blob_path (layout S) repo d) = ENotFound"
  shows "fst (blob_meta_of ck repo d f (S\<lparr>meta_cache := cache_invalidate repo d (meta_cache S)\<rparr>)) = Inr None"
proof -
  have "cache_get now (meta_cache (S\<lparr>meta_cache := cache_invalidate repo d (meta_cache S)\<rparr>)) repo d = None" for now
    by (simp add: cache_get_invalidate)
  with assms show ?thesis by (simp add: blob_meta_of_def fs_metadata_def node_at_def)
qed



end
