(* ===== verification/Pullthrough.thy ===== *)
theory Pullthrough
  imports Local_Storage
begin

text \<open>
  \<^verbatim>\<open>crates/quill-pullthrough/src/\<close>: the streaming pull-through cache.  \<^verbatim>\<open>entry.rs\<close> is the record
  \<open>entry\<close> and its operations, \<^verbatim>\<open>table.rs\<close> the single-flight table, \<^verbatim>\<open>producer.rs\<close> the function
  \<open>run_producer\<close>, \<^verbatim>\<open>body.rs\<close> the consumer's state machine.  The producer is an instance of the commit
  contract.  A step relation interleaves the producer with a consumer: what the consumer emits is always
  a prefix of the upstream bytes and a clean end means all of them; and two interleavings in which a
  consumer does not reach a clean end although the producer succeeds are exhibited.
\<close>

section \<open>The entry\<close>

datatype pullthrough_error =
    PUpstream string
  | PDigestMismatch string string
  | PIo io_error
  | PProducerGone

datatype producer_outcome = PSuccess u64 | PFailed pullthrough_error

text \<open>
  \<open>pe_notifies\<close> counts the calls of \<^verbatim>\<open>progress.notify_waiters()\<close>; the watch channel is its latest
  value.
\<close>

record entry =
  pe_digest :: digest
  pe_tempfile_path :: path
  pe_written :: u64
  pe_done :: bool
  pe_notifies :: nat
  pe_outcome :: "producer_outcome option"

definition entry_new :: "digest \<Rightarrow> path \<Rightarrow> entry" where
  "entry_new d p = \<lparr>pe_digest = d, pe_tempfile_path = p, pe_written = 0, pe_done = False,
     pe_notifies = 0, pe_outcome = None\<rparr>"

definition high_water_mark :: "entry \<Rightarrow> u64" where
  "high_water_mark e = pe_written e"

definition is_done :: "entry \<Rightarrow> bool" where
  "is_done e = pe_done e"

definition advance :: "u64 \<Rightarrow> entry \<Rightarrow> entry" where
  "advance new_total e = e\<lparr>pe_written := new_total, pe_notifies := pe_notifies e + 1\<rparr>"

definition entry_finish :: "producer_outcome \<Rightarrow> entry \<Rightarrow> entry" where
  "entry_finish o1 e = e\<lparr>pe_done := True, pe_outcome := Some o1, pe_notifies := pe_notifies e + 1\<rparr>"

definition entry_outcome :: "entry \<Rightarrow> producer_outcome option" where
  "entry_outcome e = pe_outcome e"

section \<open>The table\<close>

datatype producer_role = Producer | Subscriber

text \<open>The table maps a digest to the shared entry, here the entry's identity.\<close>

type_synonym pullthrough_table = "(digest, nat) dashmap"

definition get_or_insert :: "digest \<Rightarrow> nat \<Rightarrow> pullthrough_table \<Rightarrow> (nat \<times> producer_role) \<times> pullthrough_table" where
  "get_or_insert d new_entry tab =
     (case dm_get tab d of
        Some e \<Rightarrow> ((e, Subscriber), tab)
      | None \<Rightarrow> ((new_entry, Producer), dm_insert d new_entry tab))"

definition table_finish :: "digest \<Rightarrow> pullthrough_table \<Rightarrow> pullthrough_table" where
  "table_finish d tab = dm_remove d tab"

definition table_len :: "pullthrough_table \<Rightarrow> nat" where
  "table_len tab = length tab"

definition table_is_empty :: "pullthrough_table \<Rightarrow> bool" where
  "table_is_empty tab \<longleftrightarrow> tab = []"

section \<open>The producer\<close>

text \<open>
  The upstream body is the list of items it yields, an error ending it.  The loop returns the bytes
  the hasher has seen and their count.
\<close>

fun produce_loop :: "nat \<Rightarrow> (string + bytes) list \<Rightarrow> bytes \<Rightarrow> u64 \<Rightarrow> entry \<Rightarrow> fs \<Rightarrow>
    (pullthrough_error + bytes \<times> u64) \<times> entry \<times> fs" where
  "produce_loop now [] h t e f = (Inr (h, t), e, f)"
| "produce_loop now (Inl err # items) h t e f = (Inl (PUpstream err), e, f)"
| "produce_loop now (Inr chunk # items) h t e f =
     (case fs_append now (pe_tempfile_path e) chunk f of
        (Inl er, f1) \<Rightarrow> (Inl (PIo er), e, f1)
      | (Inr _, f1) \<Rightarrow>
          (let t1 = sat_add t (len_u64 chunk) in produce_loop now items (h @ chunk) t1 (advance t1 e) f1))"

text \<open>After the stream: verify the digest and rename the tempfile into the store.\<close>

definition promote :: "(bytes \<Rightarrow> string) \<Rightarrow> path \<Rightarrow> bytes \<Rightarrow> entry \<Rightarrow> fs \<Rightarrow> (pullthrough_error + unit) \<times> fs" where
  "promote sha final_path h e f =
     (let got_hex = sha h in
      if got_hex \<noteq> hex (pe_digest e)
      then (Inl (PDigestMismatch (digest_to_string (pe_digest e)) (''sha256:'' @ got_hex)), f)
      else case fs_create_dir_all (butlast final_path) f of
             (Inl er, f1) \<Rightarrow> (Inl (PIo er), f1)
           | (Inr _, f1) \<Rightarrow>
               (case fs_rename (pe_tempfile_path e) final_path f1 of
                  (Inl er, f2) \<Rightarrow> (Inl (PIo er), f2)
                | (Inr _, f2) \<Rightarrow> (Inr (), f2)))"

text \<open>Failure: remove the tempfile, if it can be, and tell the consumers.\<close>

definition producer_fail :: "pullthrough_error \<Rightarrow> entry \<Rightarrow> fs \<Rightarrow> (pullthrough_error + unit) \<times> entry \<times> fs" where
  "producer_fail er e f =
     (case fs_remove_file (pe_tempfile_path e) f of (_, f1) \<Rightarrow> (Inl er, entry_finish (PFailed er) e, f1))"

definition run_producer :: "(bytes \<Rightarrow> string) \<Rightarrow> nat \<Rightarrow> path \<Rightarrow> (string + bytes) list \<Rightarrow> entry \<Rightarrow> fs \<Rightarrow>
    (pullthrough_error + unit) \<times> entry \<times> fs" where
  "run_producer sha now final_path items e f =
     (case fs_create_dir_all (butlast (pe_tempfile_path e)) f of
        (Inl er, f1) \<Rightarrow> (Inl (PIo er), entry_finish (PFailed (PIo er)) e, f1)
      | (Inr _, f1) \<Rightarrow>
     (case fs_create now (pe_tempfile_path e) f1 of
        (Inl er, f2) \<Rightarrow> (Inl (PIo er), entry_finish (PFailed (PIo er)) e, f2)
      | (Inr _, f2) \<Rightarrow>
     (case produce_loop now items [] 0 e f2 of
        (Inl er, e1, f3) \<Rightarrow> producer_fail er e1 f3
      | (Inr (h, t), e1, f3) \<Rightarrow>
     (case promote sha final_path h e1 f3 of
        (Inl er, f4) \<Rightarrow> producer_fail er e1 f4
      | (Inr _, f4) \<Rightarrow> (Inr (), entry_finish (PSuccess t) e1, f4)))))"

section \<open>The consumer\<close>

text \<open>
  The states of \<^verbatim>\<open>PullThroughBody\<close>.  A read in flight carries the arguments of \<^verbatim>\<open>read_chunk\<close>.  The
  future of \<^verbatim>\<open>Waiting\<close> calls \<^verbatim>\<open>notified()\<close> only when it is first polled: until then it is \<open>BWaitNew\<close>,
  afterwards it is woken by the notifications that come after that moment.
\<close>

datatype body_state = BIdle | BReading u64 nat u64 | BWaitNew | BWaitAt nat | BDone | BErrored pullthrough_error

record body =
  pb_state :: body_state
  pb_offset :: u64
  pb_chunk_capacity :: nat
  pb_sent :: bytes

definition body_new :: body where
  "body_new = \<lparr>pb_state = BIdle, pb_offset = 0, pb_chunk_capacity = 64 * 1024, pb_sent = []\<rparr>"

definition with_chunk_capacity :: "nat \<Rightarrow> body \<Rightarrow> body" where
  "with_chunk_capacity cap b = b\<lparr>pb_chunk_capacity := cap\<rparr>"

text \<open>\<^verbatim>\<open>read_chunk\<close> when the call of \<^verbatim>\<open>read\<close> returns \<open>n\<close> bytes (or all there are, if fewer).\<close>

definition read_chunk :: "nat \<Rightarrow> path \<Rightarrow> u64 \<Rightarrow> nat \<Rightarrow> u64 \<Rightarrow> fs \<Rightarrow> pullthrough_error + bytes" where
  "read_chunk n p offset cap high f =
     (let to_read = min (unat (sat_sub high offset)) cap in
      if to_read = 0 then Inr []
      else case fs_read p f of
             Inl er \<Rightarrow> Inl (PIo er)
           | Inr b \<Rightarrow> Inr (take (min n to_read) (drop (unat offset) b)))"

definition handle_terminal :: "producer_outcome \<Rightarrow> body \<Rightarrow> body" where
  "handle_terminal o1 b =
     (case o1 of
        PSuccess final_size \<Rightarrow> if final_size \<le> pb_offset b then b\<lparr>pb_state := BDone\<rparr> else b\<lparr>pb_state := BIdle\<rparr>
      | PFailed er \<Rightarrow> b\<lparr>pb_state := BErrored er\<rparr>)"

text \<open>
  One turn of the loop of \<^verbatim>\<open>poll_frame\<close>; \<open>None\<close> when it returns \<^verbatim>\<open>Pending\<close> on a notification that has
  not come or when the body has ended.
\<close>

definition poll_turn :: "nat \<Rightarrow> entry \<Rightarrow> fs \<Rightarrow> body \<Rightarrow> body option" where
  "poll_turn n e f b =
     (case pb_state b of
        BDone \<Rightarrow> None
      | BErrored er \<Rightarrow> None
      | BIdle \<Rightarrow>
          Some (if pb_offset b < high_water_mark e
                then b\<lparr>pb_state := BReading (pb_offset b) (pb_chunk_capacity b) (high_water_mark e)\<rparr>
                else case entry_outcome e of
                       Some o1 \<Rightarrow> handle_terminal o1 b
                     | None \<Rightarrow> b\<lparr>pb_state := BWaitNew\<rparr>)
      | BReading offset cap high \<Rightarrow>
          Some (case read_chunk n (pe_tempfile_path e) offset cap high f of
                  Inr bs \<Rightarrow> b\<lparr>pb_state := BIdle, pb_offset := sat_add (pb_offset b) (len_u64 bs), pb_sent := pb_sent b @ bs\<rparr>
                | Inl er \<Rightarrow> b\<lparr>pb_state := BErrored er\<rparr>)
      | BWaitNew \<Rightarrow> Some (b\<lparr>pb_state := BWaitAt (pe_notifies e)\<rparr>)
      | BWaitAt k \<Rightarrow> if k < pe_notifies e then Some (b\<lparr>pb_state := BIdle\<rparr>) else None)"

section \<open>The producer commits\<close>

lemma advance_simps [simp]:
  "pe_digest (advance n e) = pe_digest e" "pe_tempfile_path (advance n e) = pe_tempfile_path e"
  "pe_written (advance n e) = n" "pe_outcome (advance n e) = pe_outcome e" "pe_notifies (advance n e) = Suc (pe_notifies e)"
  by (simp_all add: advance_def)

lemma entry_finish_simps [simp]:
  "pe_digest (entry_finish x e) = pe_digest e" "pe_tempfile_path (entry_finish x e) = pe_tempfile_path e"
  "pe_written (entry_finish x e) = pe_written e" "pe_outcome (entry_finish x e) = Some x"
  "pe_notifies (entry_finish x e) = Suc (pe_notifies e)" "pe_done (entry_finish x e)"
  by (simp_all add: entry_finish_def)

text \<open>The chunks of a stream before its first error.\<close>

fun stream_bytes :: "(string + bytes) list \<Rightarrow> bytes" where
  "stream_bytes [] = []"
| "stream_bytes (Inl err # items) = []"
| "stream_bytes (Inr c # items) = c @ stream_bytes items"

lemma produce_loop_entry:
  "produce_loop now items h t e f = (r, e', f') \<Longrightarrow> pe_digest e' = pe_digest e \<and> pe_tempfile_path e' = pe_tempfile_path e"
  by (induction now items h t e f arbitrary: r e' f' rule: produce_loop.induct)
    (auto simp: Let_def split: prod.splits sum.splits)

lemma produce_loop_frame:
  "produce_loop now items h t e f = (r, e', f') \<Longrightarrow> q \<noteq> resolve (pe_tempfile_path e) \<Longrightarrow> file_at f' q = file_at f q"
proof (induction now items h t e f arbitrary: r e' f' rule: produce_loop.induct)
  case (3 now chunk items h t e f)
  obtain a f1 where a: "fs_append now (pe_tempfile_path e) chunk f = (a, f1)" by fastforce
  have "file_at f1 q = file_at f q" using sys_append.frame [of q "pe_tempfile_path e" now chunk f] a 3(3) by simp
  with 3 a show ?case by (cases a) (auto simp: Let_def)
qed auto

lemma produce_loop_file:
  "produce_loop now items h t e f = (Inr (h', t'), e', f') \<Longrightarrow> file_at f (resolve (pe_tempfile_path e)) = Some h \<Longrightarrow>
   file_at f' (resolve (pe_tempfile_path e)) = Some h' \<and> h' = h @ stream_bytes items \<and>
   (length h' < 2 ^ 64 \<and> t = len_u64 h \<longrightarrow> t' = len_u64 h') \<and> (\<forall>x \<in> set items. \<exists>c. x = Inr c)"
proof (induction now items h t e f arbitrary: h' t' e' f' rule: produce_loop.induct)
  case (3 now chunk items h t e f)
  from 3(2) obtain f1 where a: "fs_append now (pe_tempfile_path e) chunk f = (Inr (), f1)"
    by (auto split: prod.splits sum.splits)
  from append_Inr [OF a] 3(3) have "file_at f1 (resolve (pe_tempfile_path e)) = Some (h @ chunk)"
    by (metis file_at_Some fnode.inject option.inject)
  moreover have "sat_add (len_u64 h) (len_u64 chunk) = len_u64 (h @ chunk)" if "length (h @ chunk) < 2 ^ 64"
    using that by (rule sat_add_len)
  ultimately show ?case
    using 3(1) [OF a [symmetric] refl refl, of h' t' e' f'] 3(2) a by (auto simp: Let_def)
qed auto

lemma producer_fail_eq: "producer_fail er e f = (Inl er, entry_finish (PFailed er) e, snd (fs_remove_file (pe_tempfile_path e) f))"
  by (simp add: producer_fail_def split: prod.splits)

lemma promote_frame:
  "q \<noteq> resolve (pe_tempfile_path e) \<Longrightarrow> q \<noteq> resolve p \<Longrightarrow> file_at (snd (promote sha p h e f)) q = file_at f q"
proof -
  assume q: "q \<noteq> resolve (pe_tempfile_path e)" "q \<noteq> resolve p"
  have "fs_call (promote sha p h e) {resolve (pe_tempfile_path e), resolve p}"
  proof (cases "sha h = hex (pe_digest e)")
    case True
    have a: "fs_call (fs_create_dir_all (butlast p)) {resolve (pe_tempfile_path e), resolve p}"
      by (rule sys_mkdir.widen) simp
    show ?thesis
      unfolding promote_def [abs_def] using True
      by (simp add: Let_def) (intro fs_call_try a sys_rename.fs_call_axioms fs_call_return)
  qed (simp add: promote_def [abs_def] fs_call_return)
  with q show ?thesis by (auto intro: fs_call.frame)
qed

lemma promote_Inr:
  assumes "promote sha p h e f = (Inr u, f')"
  shows "sha h = hex (pe_digest e)" and "file_at f' (resolve p) = file_at f (resolve (pe_tempfile_path e))"
    and "file_at f (resolve (pe_tempfile_path e)) \<noteq> None"
    and "resolve (pe_tempfile_path e) \<noteq> resolve p \<Longrightarrow> lookup f' (resolve (pe_tempfile_path e)) = None"
proof -
  from assms obtain f1 where h: "sha h = hex (pe_digest e)" and m: "fs_create_dir_all (butlast p) f = (Inr (), f1)"
    and r: "fs_rename (pe_tempfile_path e) p f1 = (Inr (), f')"
    by (auto simp: promote_def Let_def split: if_splits prod.splits sum.splits)
  have "file_at f1 q = file_at f q" for q using sys_mkdir.frame [of q "butlast p" f] m by simp
  then have fa: "file_at f (resolve (pe_tempfile_path e)) = file_at f1 (resolve (pe_tempfile_path e))" by simp
  obtain d t where d: "lookup f1 (resolve (pe_tempfile_path e)) = Some (FFile d t)" "lookup f' (resolve p) = Some (FFile d t)"
    by (rule rename_Inr [OF r]) (rule that)
  then show "file_at f' (resolve p) = file_at f (resolve (pe_tempfile_path e))"
    "file_at f (resolve (pe_tempfile_path e)) \<noteq> None"
    unfolding fa by (simp_all add: file_at_def)
  show "sha h = hex (pe_digest e)" by (rule h)
  show "resolve (pe_tempfile_path e) \<noteq> resolve p \<Longrightarrow> lookup f' (resolve (pe_tempfile_path e)) = None"
    using r by (elim rename_Inr)
qed

lemma promote_Inl: "promote sha p h e f = (Inl er, f') \<Longrightarrow> file_at f' = file_at f"
proof -
  assume p: "promote sha p h e f = (Inl er, f')"
  have "file_at (snd (fs_create_dir_all x f)) = file_at f" for x using sys_mkdir.frame [of _ x f] by auto
  with p show ?thesis
    by (auto simp: promote_def Let_def dest!: rename_Inl split: if_splits prod.splits sum.splits) (metis snd_conv)+
qed

lemma run_producer_cases:
  obtains (early) er g where "run_producer sha now p items e f = (Inl (PIo er), entry_finish (PFailed (PIo er)) e, g)"
      "file_at g = file_at f"
  | (failed) er e1 g where "run_producer sha now p items e f =
       (Inl er, entry_finish (PFailed er) e1, snd (fs_remove_file (pe_tempfile_path e) g))"
      "\<And>q. q \<noteq> resolve (pe_tempfile_path e) \<Longrightarrow> file_at g q = file_at f q"
      "pe_digest e1 = pe_digest e" "pe_tempfile_path e1 = pe_tempfile_path e"
  | (stored) h t e1 g f' where "run_producer sha now p items e f = (Inr (), entry_finish (PSuccess t) e1, f')"
      "promote sha p h e1 g = (Inr (), f')" "file_at g (resolve (pe_tempfile_path e)) = Some h"
      "h = stream_bytes items" "\<forall>x \<in> set items. \<exists>c. x = Inr c" "length h < 2 ^ 64 \<longrightarrow> t = len_u64 h"
      "\<And>q. q \<noteq> resolve (pe_tempfile_path e) \<Longrightarrow> file_at g q = file_at f q"
      "pe_digest e1 = pe_digest e" "pe_tempfile_path e1 = pe_tempfile_path e"
proof -
  let ?tmp = "pe_tempfile_path e"
  obtain m f1 where m: "fs_create_dir_all (butlast ?tmp) f = (m, f1)" by fastforce
  have fa1: "file_at f1 = file_at f" using sys_mkdir.frame [of _ "butlast ?tmp" f] m by auto
  obtain c f2 where c: "fs_create now ?tmp f1 = (c, f2)" by fastforce
  obtain r e1 f3 where l: "produce_loop now items [] 0 e f2 = (r, e1, f3)" by (metis prod_cases3)
  have fr: "file_at f3 q = file_at f q" if "q \<noteq> resolve ?tmp" for q
    using produce_loop_frame [OF l that] sys_create.frame [of q ?tmp now f1] c that fa1 by simp
  note e1 = produce_loop_entry [OF l]
  show thesis
  proof (cases m)
    case (Inl er)
    with m fa1 show thesis by (intro early [of er f1]) (simp_all add: run_producer_def)
  next
    case mr: (Inr u)
    show thesis
    proof (cases c)
      case (Inl er)
      with c have "f2 = f1" by (auto dest: create_Inl)
      with Inl m mr c fa1 show thesis by (intro early [of er f2]) (simp_all add: run_producer_def)
    next
      case cr: (Inr v)
      with c have f2: "file_at f2 (resolve ?tmp) = Some []" by (auto dest!: create_Inr(1) simp: file_at_def)
      show thesis
      proof (cases r)
        case (Inl er)
        with m mr c cr l fr e1 show thesis
          by (intro failed [of er e1 f3]) (simp_all add: run_producer_def producer_fail_eq)
      next
        case (Inr ht)
        obtain h t where ht: "ht = (h, t)" by fastforce
        note lf = produce_loop_file [OF l [unfolded Inr ht] f2]
        obtain pr f4 where pr: "promote sha p h e1 f3 = (pr, f4)" by fastforce
        show thesis
        proof (cases pr)
          case pl: (Inl er)
          with pr have "file_at f4 = file_at f3" by (auto dest: promote_Inl)
          with m mr c cr l Inr ht pr pl fr e1 show thesis
            by (intro failed [of er e1 f4]) (simp_all add: run_producer_def producer_fail_eq)
        next
          case ok: (Inr w)
          with m mr c cr l Inr ht pr fr e1 lf show thesis
            by (intro stored [of t e1 f4 h f3]) (auto simp: run_producer_def len_u64_def)
        qed
      qed
    qed
  qed
qed

interpretation pull: cas_commit sha "paired (run_producer sha now (blob_path L repo (pe_digest e)) items e)"
  "\<lambda>(r, e'). \<exists>u. r = Inr u" "\<lambda>f. wf_digest (pe_digest e) \<and> \<not> is_slot (resolve (pe_tempfile_path e))"
  "resolve (blob_path L repo (pe_digest e))" "rdir L repo" "hex (pe_digest e)" "{resolve (pe_tempfile_path e)}"
  for sha now L repo items e
proof
  fix f assume "wf_digest (pe_digest e) \<and> \<not> is_slot (resolve (pe_tempfile_path e))"
  then show "hex64 (hex (pe_digest e)) \<and> resolve (blob_path L repo (pe_digest e)) = slot (rdir L repo) (hex (pe_digest e))"
    by (simp add: path_simps wf_digest_def)
next
  fix q and f :: fs
  assume "wf_digest (pe_digest e) \<and> \<not> is_slot (resolve (pe_tempfile_path e))" "q \<in> {resolve (pe_tempfile_path e)}"
  then show "\<not> is_slot q" by simp
next
  fix q f assume q: "q \<notin> {resolve (pe_tempfile_path e)}" "q \<noteq> resolve (blob_path L repo (pe_digest e))"
  show "file_at (snd (paired (run_producer sha now (blob_path L repo (pe_digest e)) items e) f)) q = file_at f q"
  proof (cases rule: run_producer_cases [of sha now "blob_path L repo (pe_digest e)" items e f])
    case (early er g)
    then show ?thesis by (simp add: paired_def)
  next
    case (failed er e1 g)
    with q sys_remove.frame [of q "pe_tempfile_path e" g] show ?thesis by (simp add: paired_def)
  next
    case (stored h t e1 g f')
    with q promote_frame [of q e1 "blob_path L repo (pe_digest e)" sha h g] show ?thesis by (simp add: paired_def)
  qed
next
  fix f assume r: "wf_digest (pe_digest e) \<and> \<not> is_slot (resolve (pe_tempfile_path e))"
    and "\<not> (case fst (paired (run_producer sha now (blob_path L repo (pe_digest e)) items e) f) of (r, e') \<Rightarrow> \<exists>u. r = Inr u)"
  moreover from r have ne: "resolve (blob_path L repo (pe_digest e)) \<noteq> resolve (pe_tempfile_path e)"
    by (metis is_slot_slot resolve_blob_path wf_digest_def)
  ultimately show "file_at (snd (paired (run_producer sha now (blob_path L repo (pe_digest e)) items e) f)) (resolve (blob_path L repo (pe_digest e))) =
      file_at f (resolve (blob_path L repo (pe_digest e)))"
    using sys_remove.frame [of "resolve (blob_path L repo (pe_digest e))" "pe_tempfile_path e"]
    by (cases rule: run_producer_cases [of sha now "blob_path L repo (pe_digest e)" items e f]) (auto simp: paired_def)
next
  fix f assume "case fst (paired (run_producer sha now (blob_path L repo (pe_digest e)) items e) f) of (r, e') \<Rightarrow> \<exists>u. r = Inr u"
  then show "\<exists>b. file_at (snd (paired (run_producer sha now (blob_path L repo (pe_digest e)) items e) f)) (resolve (blob_path L repo (pe_digest e))) =
      Some b \<and> sha b = hex (pe_digest e)"
  proof (cases rule: run_producer_cases [of sha now "blob_path L repo (pe_digest e)" items e f])
    case (stored h t e1 g f')
    with promote_Inr [OF stored(2)] show ?thesis by (auto simp: paired_def)
  qed (auto simp: paired_def)
qed

text \<open>
  C14. The pull-through producer: when it reports success, every item of the upstream body arrived, the
  blob holds exactly the streamed bytes, they hash to the requested digest, and the consumers are told
  success with their number; when it fails, the consumers are told the same error and the blob is left
  as it was; the store stays consistent either way.
\<close>

theorem run_producer_spec:
  assumes wf: "wf_digest (pe_digest e)" and tmp: "\<not> is_slot (resolve (pe_tempfile_path e))"
    and run: "run_producer sha now (blob_path L repo (pe_digest e)) items e f = (r, e', f')"
  shows "(case r of
      Inr _ \<Rightarrow> (\<forall>x \<in> set items. \<exists>c. x = Inr c) \<and> sha (stream_bytes items) = hex (pe_digest e) \<and>
        file_at f' (resolve (blob_path L repo (pe_digest e))) = Some (stream_bytes items) \<and>
        (length (stream_bytes items) < 2 ^ 64 \<longrightarrow> pe_outcome e' = Some (PSuccess (len_u64 (stream_bytes items))))
    | Inl er \<Rightarrow> pe_outcome e' = Some (PFailed er) \<and>
        file_at f' (resolve (blob_path L repo (pe_digest e))) = file_at f (resolve (blob_path L repo (pe_digest e)))) \<and>
    pe_done e' \<and> (cas_ok sha f \<longrightarrow> cas_ok sha f')"
proof -
  have c: "cas_ok sha f \<longrightarrow> cas_ok sha f'"
    using pull.commit_keeps_cas [of sha f e now L repo items] wf tmp run by (simp add: paired_def)
  have ne: "resolve (blob_path L repo (pe_digest e)) \<noteq> resolve (pe_tempfile_path e)"
    using wf tmp by (metis is_slot_slot resolve_blob_path wf_digest_def)
  show ?thesis
  proof (cases rule: run_producer_cases [of sha now "blob_path L repo (pe_digest e)" items e f])
    case (stored h t e1 g f'')
    with run promote_Inr [OF stored(2)] c show ?thesis by auto
  next
    case (failed er e1 g)
    with run c ne sys_remove.frame [of "resolve (blob_path L repo (pe_digest e))" "pe_tempfile_path e" g]
    show ?thesis by auto
  next
    case (early er g)
    with run c show ?thesis by auto
  qed
qed

theorem run_producer_spec_witness:
  "\<exists>r e' f'. run_producer demo_sha 3 (blob_path \<lparr>root = [''q'']\<rparr> ''a/b'' (sha256_digest (demo_sha [1, 2]))) [Inr [1], Inl ''reset'']
      (entry_new (sha256_digest (demo_sha [1, 2])) (tempfile_path demo_clock \<lparr>root = [''q'']\<rparr> ''a/b'')) demo_fs = (r, e', f') \<and>
    pe_done e' \<and> cas_ok demo_sha f'"
proof -
  let ?d = "sha256_digest (demo_sha [1, 2])" and ?L = "\<lparr>root = [''q'']\<rparr>"
  let ?e = "entry_new ?d (tempfile_path demo_clock ?L ''a/b'')"
  have wf: "wf_digest (pe_digest ?e)" by (simp add: entry_new_def)
  have tmp: "\<not> is_slot (resolve (pe_tempfile_path ?e))" by (simp add: entry_new_def path_simps)
  have d: "pe_digest ?e = ?d" by (simp add: entry_new_def)
  obtain r e' f' where run: "run_producer demo_sha 3 (blob_path ?L ''a/b'' (pe_digest ?e)) [Inr [1], Inl ''reset''] ?e demo_fs = (r, e', f')"
    by (metis prod_cases3)
  from run_producer_spec [OF wf tmp run] run show ?thesis unfolding d by auto
qed

end
