(* ===== verification/Pull_Interleaving.thy ===== *)
theory Pull_Interleaving
  imports Pullthrough
begin

text \<open>
  The pull-through producer and one consumer, interleaved: every step of \<^verbatim>\<open>run_producer\<close> that another
  task can observe, and every turn of the consumer's \<^verbatim>\<open>poll_frame\<close>, is a step of \<open>pt_step\<close>.  An
  invariant of all interleavings shows that a consumer only ever emits a prefix of the upstream bytes
  and that a clean end means the verified blob; two concrete interleavings show how a consumer can
  miss the end.  The single-flight table is treated the same way.
\<close>

section \<open>The step relation\<close>

datatype prod_phase =
    Streaming bytes u64 "(string + bytes) list"
  | Renamed u64
  | Failing pullthrough_error
  | Cleaned pullthrough_error
  | Ended

record pt_run =
  r_fs :: fs
  r_entry :: entry
  r_phase :: prod_phase
  r_body :: body

inductive pt_step :: "(bytes \<Rightarrow> string) \<Rightarrow> nat \<Rightarrow> path \<Rightarrow> pt_run \<Rightarrow> pt_run \<Rightarrow> bool"
  for sha now final where
  chunk: "r_phase s = Streaming h t (Inr c # items) \<Longrightarrow>
    fs_append now (pe_tempfile_path (r_entry s)) c (r_fs s) = (Inr (), f') \<Longrightarrow> t' = sat_add t (len_u64 c) \<Longrightarrow>
    pt_step sha now final s
      (s\<lparr>r_fs := f', r_entry := advance t' (r_entry s), r_phase := Streaming (h @ c) t' items\<rparr>)"
| chunk_err: "r_phase s = Streaming h t (Inr c # items) \<Longrightarrow>
    fs_append now (pe_tempfile_path (r_entry s)) c (r_fs s) = (Inl er, f') \<Longrightarrow>
    pt_step sha now final s (s\<lparr>r_fs := f', r_phase := Failing (PIo er)\<rparr>)"
| upstream_err: "r_phase s = Streaming h t (Inl err # items) \<Longrightarrow>
    pt_step sha now final s (s\<lparr>r_phase := Failing (PUpstream err)\<rparr>)"
| promoted: "r_phase s = Streaming h t [] \<Longrightarrow> promote sha final h (r_entry s) (r_fs s) = (Inr (), f') \<Longrightarrow>
    pt_step sha now final s (s\<lparr>r_fs := f', r_phase := Renamed t\<rparr>)"
| rejected: "r_phase s = Streaming h t [] \<Longrightarrow> promote sha final h (r_entry s) (r_fs s) = (Inl er, f') \<Longrightarrow>
    pt_step sha now final s (s\<lparr>r_fs := f', r_phase := Failing er\<rparr>)"
| cleanup: "r_phase s = Failing er \<Longrightarrow> fs_remove_file (pe_tempfile_path (r_entry s)) (r_fs s) = (x, f') \<Longrightarrow>
    pt_step sha now final s (s\<lparr>r_fs := f', r_phase := Cleaned er\<rparr>)"
| finish_ok: "r_phase s = Renamed t \<Longrightarrow>
    pt_step sha now final s (s\<lparr>r_entry := entry_finish (PSuccess t) (r_entry s), r_phase := Ended\<rparr>)"
| finish_err: "r_phase s = Cleaned er \<Longrightarrow>
    pt_step sha now final s (s\<lparr>r_entry := entry_finish (PFailed er) (r_entry s), r_phase := Ended\<rparr>)"
| poll: "poll_turn n (r_entry s) (r_fs s) (r_body s) = Some b' \<Longrightarrow>
    pt_step sha now final s (s\<lparr>r_body := b'\<rparr>)"

inductive_cases pt_stepE: "pt_step sha now final s s'"

text \<open>The state in which the producer has created its tempfile and a consumer attaches.\<close>

definition pt_start :: "digest \<Rightarrow> path \<Rightarrow> (string + bytes) list \<Rightarrow> nat \<Rightarrow> fs \<Rightarrow> pt_run" where
  "pt_start d tmp items cap f =
     \<lparr>r_fs = f, r_entry = entry_new d tmp, r_phase = Streaming [] 0 items, r_body = with_chunk_capacity cap body_new\<rparr>"

section \<open>The invariant\<close>

definition committed :: "(bytes \<Rightarrow> string) \<Rightarrow> path \<Rightarrow> digest \<Rightarrow> bytes \<Rightarrow> fs \<Rightarrow> bool" where
  "committed sha final d S f \<longleftrightarrow> sha S = hex d \<and> file_at f (resolve final) = Some S"

fun body_inv :: "bytes \<Rightarrow> nat \<Rightarrow> body \<Rightarrow> bool" where
  "body_inv S w b \<longleftrightarrow> unat (pb_offset b) \<le> w \<and> pb_sent b = take (unat (pb_offset b)) S \<and>
     (case pb_state b of
        BReading off cap high \<Rightarrow> off = pb_offset b \<and> unat high \<le> w
      | BDone \<Rightarrow> length S \<le> unat (pb_offset b)
      | _ \<Rightarrow> True)"

definition phase_inv :: "(bytes \<Rightarrow> string) \<Rightarrow> path \<Rightarrow> path \<Rightarrow> digest \<Rightarrow> bytes \<Rightarrow> pt_run \<Rightarrow> bool" where
  "phase_inv sha final tmp d S s \<longleftrightarrow>
     (case r_phase s of
        Streaming h t rest \<Rightarrow> S = h @ stream_bytes rest \<and> file_at (r_fs s) (resolve tmp) = Some h \<and>
          t = len_u64 h \<and> pe_written (r_entry s) = t \<and> pe_outcome (r_entry s) = None
      | Renamed t \<Rightarrow> t = len_u64 S \<and> committed sha final d S (r_fs s) \<and> pe_outcome (r_entry s) = None
      | Failing er \<Rightarrow> pe_outcome (r_entry s) = None
      | Cleaned er \<Rightarrow> pe_outcome (r_entry s) = None
      | Ended \<Rightarrow> True)"

text \<open>
  The consumers' view: the tempfile, while it exists, starts with the bytes up to the mark; a success
  is only reported for the whole stream, committed; a consumer has sent the bytes up to its offset.
\<close>

definition pt_inv :: "(bytes \<Rightarrow> string) \<Rightarrow> path \<Rightarrow> path \<Rightarrow> digest \<Rightarrow> bytes \<Rightarrow> pt_run \<Rightarrow> bool" where
  "pt_inv sha final tmp d S s \<longleftrightarrow>
     pe_tempfile_path (r_entry s) = tmp \<and> pe_digest (r_entry s) = d \<and>
     unat (pe_written (r_entry s)) \<le> length S \<and>
     (\<forall>x. file_at (r_fs s) (resolve tmp) = Some x \<longrightarrow> prefix (take (unat (pe_written (r_entry s))) S) x) \<and>
     body_inv S (unat (pe_written (r_entry s))) (r_body s) \<and>
     phase_inv sha final tmp d S s \<and>
     (\<forall>t. pe_outcome (r_entry s) = Some (PSuccess t) \<longrightarrow>
        r_phase s = Ended \<and> t = len_u64 S \<and> committed sha final d S (r_fs s)) \<and>
     (pb_state (r_body s) = BDone \<longrightarrow> r_phase s = Ended \<and> committed sha final d S (r_fs s))"

lemma body_inv_mono: "body_inv S w b \<Longrightarrow> w \<le> w' \<Longrightarrow> body_inv S w' b"
  by (cases "pb_state b") auto

text \<open>A read delivers the stream's bytes from the offset on.\<close>

lemma read_chunk_stream:
  assumes r: "read_chunk n p off cap high f = Inr bs" and len: "length S < 2 ^ 64"
    and x: "\<And>x. file_at f (resolve p) = Some x \<Longrightarrow> prefix (take w S) x" and w: "w \<le> length S" and h: "unat high \<le> w" and o1: "unat off \<le> w"
  shows "\<exists>k. bs = take k (drop (unat off) S) \<and> unat off + length bs \<le> w \<and> length bs = k"
proof (cases "min (unat (sat_sub high off)) cap = 0")
  case True
  with r o1 show ?thesis by (simp add: read_chunk_def)
next
  case False
  define m where "m = min n (min (unat (sat_sub high off)) cap)"
  from r False obtain x where x1: "fs_read p f = Inr x" and bs: "bs = take m (drop (unat off) x)"
    by (auto simp: read_chunk_def Let_def m_def split: sum.splits)
  from x [OF read_Inr [OF x1]] obtain z where z: "x = take w S @ z" by (auto simp: prefix_def)
  have m: "unat off + m \<le> w" using h False by (auto simp: m_def unat_sat_sub)
  then have "bs = take m (drop (unat off) S)"
    using w by (simp add: bs z take_drop) 
  with m w show ?thesis by (intro exI [of _ m]) auto
qed

lemma unat_advance_offset:
  assumes "unat off + length bs \<le> w" and "w < 2 ^ 64"
  shows "unat (sat_add off (len_u64 bs)) = unat off + length bs"
  using assms by (simp add: unat_sat_add unat_len_u64)

lemma poll_reading_inv:
  assumes b: "pb_state b = BReading off cap high" and p: "poll_turn n e f b = Some b'" and inv: "body_inv S (unat (pe_written e)) b"
    and x: "\<And>x. file_at f (resolve (pe_tempfile_path e)) = Some x \<Longrightarrow> prefix (take (unat (pe_written e)) S) x"
    and w: "unat (pe_written e) \<le> length S" and len: "length S < 2 ^ 64"
  shows "body_inv S (unat (pe_written e)) b' \<and> pb_state b' \<noteq> BDone"
proof -
  from b inv have off: "off = pb_offset b" and h: "unat high \<le> unat (pe_written e)" and o1: "unat off \<le> unat (pe_written e)"
    and s: "pb_sent b = take (unat off) S" by auto
  show ?thesis
  proof (cases "read_chunk n (pe_tempfile_path e) off cap high f")
    case (Inl er)
    with p b inv show ?thesis by (auto simp: poll_turn_def)
  next
    case (Inr bs)
    from read_chunk_stream [OF Inr len x w h o1] obtain k where k: "bs = take k (drop (unat off) S)"
      "unat off + length bs \<le> unat (pe_written e)" "length bs = k" by blast
    have u: "unat (sat_add off (len_u64 bs)) = unat off + length bs"
      by (rule unat_advance_offset [OF k(2)]) (use w len in simp)
    have "take (unat off) S @ bs = take (unat off + length bs) S"
      using k(1,3) by (simp add: take_add)
    with p b Inr off s u k(2) show ?thesis by (auto simp: poll_turn_def)
  qed
qed

lemma poll_body_inv:
  assumes p: "poll_turn n e f b = Some b'" and inv: "body_inv S (unat (pe_written e)) b"
    and x: "\<And>x. file_at f (resolve (pe_tempfile_path e)) = Some x \<Longrightarrow> prefix (take (unat (pe_written e)) S) x"
    and w: "unat (pe_written e) \<le> length S" and len: "length S < 2 ^ 64"
    and ok: "\<And>t. pe_outcome e = Some (PSuccess t) \<Longrightarrow> t = len_u64 S"
  shows "body_inv S (unat (pe_written e)) b' \<and> (pb_state b' = BDone \<longrightarrow> (\<exists>t. pe_outcome e = Some (PSuccess t)))"
proof (cases "pb_state b")
  case BIdle
  show ?thesis
  proof (cases "pb_offset b < high_water_mark e")
    case True
    with p BIdle inv show ?thesis by (auto simp: poll_turn_def high_water_mark_def)
  next
    case False
    show ?thesis
    proof (cases "entry_outcome e")
      case None
      with p BIdle inv False show ?thesis by (auto simp: poll_turn_def)
    next
      case (Some o1)
      show ?thesis
      proof (cases o1)
        case (PSuccess t)
        with Some ok have t: "t = len_u64 S" by (simp add: entry_outcome_def)
        have "unat t \<le> unat (pb_offset b) \<Longrightarrow> length S \<le> unat (pb_offset b)"
          using len by (simp add: t unat_len_u64)
        with p BIdle inv False Some PSuccess show ?thesis
          by (auto simp: poll_turn_def handle_terminal_def word_le_nat_alt entry_outcome_def)
      next
        case (PFailed er)
        with p BIdle inv False Some show ?thesis by (auto simp: poll_turn_def handle_terminal_def)
      qed
    qed
  qed
next
  case (BReading off cap high)
  from poll_reading_inv [OF this p inv x w len] show ?thesis by simp
qed (use p inv in \<open>auto simp: poll_turn_def split: if_splits\<close>)

lemma append_Inl_prefix:
  assumes "fs_append now p c f = (Inl er, f')" and "file_at f (resolve p) = Some h" and "file_at f' (resolve p) = Some x"
  shows "prefix h x"
proof -
  from assms(2) obtain t where t: "lookup f (resolve p) = Some (FFile h t)" by (auto simp: file_at_Some)
  then have "resolve p \<noteq> []" by auto
  with t assms(1,3) show ?thesis
    by (auto simp: fs_append_def Let_def fs_simps split: option.splits)
qed

lemma pt_inv_chunk:
  assumes inv: "pt_inv sha final tmp d S s" and len: "length S < 2 ^ 64" and ph: "r_phase s = Streaming h t (Inr c # items)"
    and a: "fs_append now (pe_tempfile_path (r_entry s)) c (r_fs s) = (Inr (), f')"
  defines "t' \<equiv> sat_add t (len_u64 c)"
  shows "pt_inv sha final tmp d S (s\<lparr>r_fs := f', r_entry := advance t' (r_entry s), r_phase := Streaming (h @ c) t' items\<rparr>)"
proof -
  from inv ph have i: "S = h @ c @ stream_bytes items" "file_at (r_fs s) (resolve tmp) = Some h" "t = len_u64 h"
    "pe_written (r_entry s) = t" "pe_outcome (r_entry s) = None" "pe_tempfile_path (r_entry s) = tmp"
    by (auto simp: pt_inv_def phase_inv_def)
  from append_Inr [OF a] i have "file_at f' (resolve tmp) = Some (h @ c)"
    by (metis file_at_Some fnode.inject option.inject)
  moreover have t': "t' = len_u64 (h @ c)" using len i(1,3) by (simp add: t'_def sat_add_len)
  moreover from t' have "unat t' = length (h @ c)" using len i(1) by (simp add: unat_len_u64)
  moreover have "body_inv S (length (h @ c)) (r_body s)"
  proof (rule body_inv_mono)
    show "body_inv S (unat (pe_written (r_entry s))) (r_body s)" using inv by (simp only: pt_inv_def)
    show "unat (pe_written (r_entry s)) \<le> length (h @ c)" using i len by (simp add: unat_len_u64)
  qed
  ultimately show ?thesis
    using inv i by (auto simp: pt_inv_def phase_inv_def ph simp del: body_inv.simps)
qed

lemma pt_inv_chunk_err:
  assumes inv: "pt_inv sha final tmp d S s" and len: "length S < 2 ^ 64" and ph: "r_phase s = Streaming h t (Inr c # items)"
    and a: "fs_append now (pe_tempfile_path (r_entry s)) c (r_fs s) = (Inl er, f')"
  shows "pt_inv sha final tmp d S (s\<lparr>r_fs := f', r_phase := Failing (PIo er)\<rparr>)"
proof -
  from inv ph have i: "S = h @ c @ stream_bytes items" "file_at (r_fs s) (resolve tmp) = Some h" "t = len_u64 h"
    "pe_written (r_entry s) = t" "pe_tempfile_path (r_entry s) = tmp"
    by (auto simp: pt_inv_def phase_inv_def)
  have "prefix (take (unat (pe_written (r_entry s))) S) x" if "file_at f' (resolve tmp) = Some x" for x
    using append_Inl_prefix [OF a] that i len by (simp add: unat_len_u64)
  with inv show ?thesis by (auto simp: pt_inv_def phase_inv_def ph simp del: body_inv.simps)
qed

lemma pt_inv_step:
  assumes step: "pt_step sha now final s s'" and inv: "pt_inv sha final tmp d S s"
    and ne: "resolve tmp \<noteq> resolve final" and len: "length S < 2 ^ 64"
  shows "pt_inv sha final tmp d S s'"
  using step
proof cases
  case (chunk h t c items f' t')
  from pt_inv_chunk [OF inv len chunk(2,3)] show ?thesis unfolding chunk(1,4) .
next
  case (chunk_err h t c items er f')
  from pt_inv_chunk_err [OF inv len chunk_err(2,3)] show ?thesis unfolding chunk_err(1) .
next
  case (upstream_err h t err items)
  with inv show ?thesis by (auto simp: pt_inv_def phase_inv_def simp del: body_inv.simps)
next
  case (promoted h t f')
  from inv promoted(2) have i: "S = h" "file_at (r_fs s) (resolve tmp) = Some h" "t = len_u64 h"
    "pe_digest (r_entry s) = d" "pe_tempfile_path (r_entry s) = tmp" by (auto simp: pt_inv_def phase_inv_def)
  note pr = promote_Inr [OF promoted(3)]
  have "committed sha final d S f'" "file_at f' (resolve tmp) = None"
    using pr i ne by (simp_all add: committed_def file_at_def)
  with inv i show ?thesis unfolding promoted(1)
    by (auto simp: pt_inv_def phase_inv_def promoted(2) simp del: body_inv.simps)
next
  case (rejected h t er f')
  from promote_Inl [OF rejected(3)] inv show ?thesis unfolding rejected(1)
    by (auto simp: pt_inv_def phase_inv_def committed_def rejected(2) simp del: body_inv.simps)
next
  case (cleanup er x f')
  have "file_at f' (resolve tmp) = None \<or> file_at f' (resolve tmp) = file_at (r_fs s) (resolve tmp)"
    using cleanup(3) remove_Inr(2) [of tmp "r_fs s"] remove_Inl [of tmp "r_fs s"] inv
    by (cases x) (auto simp: pt_inv_def file_at_def)
  with inv show ?thesis unfolding cleanup(1)
    by (auto simp: pt_inv_def phase_inv_def cleanup(2) simp del: body_inv.simps)
next
  case (finish_ok t)
  with inv show ?thesis by (auto simp: pt_inv_def phase_inv_def simp del: body_inv.simps)
next
  case (finish_err er)
  with inv show ?thesis by (auto simp: pt_inv_def phase_inv_def simp del: body_inv.simps)
next
  case (poll n b')
  have "body_inv S (unat (pe_written (r_entry s))) b' \<and>
      (pb_state b' = BDone \<longrightarrow> (\<exists>t. pe_outcome (r_entry s) = Some (PSuccess t)))"
    by (rule poll_body_inv [OF poll(2)]) (use inv len in \<open>auto simp: pt_inv_def simp del: body_inv.simps\<close>)
  with inv show ?thesis unfolding poll(1)
    by (auto simp: pt_inv_def phase_inv_def simp del: body_inv.simps split: prod_phase.splits)
qed

lemma pt_inv_start:
  assumes "file_at f (resolve tmp) = Some []"
  shows "pt_inv sha final tmp d (stream_bytes items) (pt_start d tmp items cap f)"
  using assms by (simp add: pt_inv_def phase_inv_def pt_start_def entry_new_def body_new_def with_chunk_capacity_def len_u64_def)

lemma pt_inv_run:
  assumes "(pt_step sha now final)\<^sup>*\<^sup>* s s'" and "pt_inv sha final tmp d S s" and "resolve tmp \<noteq> resolve final" and "length S < 2 ^ 64"
  shows "pt_inv sha final tmp d S s'"
  using assms by (induction rule: rtranclp_induct) (auto intro: pt_inv_step)

text \<open>
  C23. What a consumer of a pull-through sees: in every interleaving of the producer with the consumer's
  polls and with any short reads, the bytes handed to the client are a prefix of the bytes the upstream
  sent; and when the body ends cleanly they are all of them, they hash to the requested digest, and the
  blob is in the store.
\<close>

theorem consumer_safe:
  assumes "file_at f (resolve tmp) = Some []" and "resolve tmp \<noteq> resolve final" and "length (stream_bytes items) < 2 ^ 64"
    and "(pt_step sha now final)\<^sup>*\<^sup>* (pt_start d tmp items cap f) s"
  shows "prefix (pb_sent (r_body s)) (stream_bytes items) \<and>
    (pb_state (r_body s) = BDone \<longrightarrow> pb_sent (r_body s) = stream_bytes items \<and>
       sha (stream_bytes items) = hex d \<and> file_at (r_fs s) (resolve final) = Some (stream_bytes items))"
proof -
  have "pt_inv sha final tmp d (stream_bytes items) s"
    by (rule pt_inv_run [OF assms(4) pt_inv_start [OF assms(1)] assms(2,3)])
  then show ?thesis by (auto simp: pt_inv_def committed_def take_is_prefix)
qed

section \<open>Consumers that miss the end\<close>

text \<open>The producer can stream one chunk and commit it.\<close>

definition can_produce :: "path \<Rightarrow> cas_layout \<Rightarrow> string \<Rightarrow> digest \<Rightarrow> fs \<Rightarrow> bool" where
  "can_produce tmp L repo d f \<longleftrightarrow> no_faults f \<and> wf_digest d \<and> \<not> is_slot (resolve tmp) \<and> file_at f (resolve tmp) = Some [] \<and>
     dir_clear f (rdir L repo @ [''blobs'', ''sha256'']) \<and> \<not> prefix (resolve tmp) (rdir L repo @ [''blobs'', ''sha256'']) \<and>
     lookup f (slot (rdir L repo) (hex d)) \<noteq> Some FDir"

lemma produce_one:
  assumes ok: "can_produce tmp L repo d f" and h: "sha c = hex d"
    and e: "pe_tempfile_path e = tmp" "pe_digest e = d"
  obtains f1 f2 where "fs_append now tmp c f = (Inr (), f1)" "promote sha (blob_path L repo d) c e f1 = (Inr (), f2)"
    "file_at f2 (resolve (blob_path L repo d)) = Some c" "file_at f2 (resolve tmp) = None"
proof -
  let ?b = "blob_path L repo d" and ?D = "rdir L repo @ [''blobs'', ''sha256'']"
  have nf: "no_faults f" and wf: "wf_digest d" using ok by (simp_all add: can_produce_def)
  have rb: "resolve ?b = slot (rdir L repo) (hex d)" "resolve (butlast ?b) = ?D" using wf by (simp_all add: path_simps)
  from ok obtain t where t: "lookup f (resolve tmp) = Some (FFile [] t)" by (auto simp: can_produce_def file_at_Some)
  obtain f1 where f1: "fs_append now tmp c f = (Inr (), f1)" "lookup f1 (resolve tmp) = Some (FFile ([] @ c) now)" "no_faults f1"
    and o1: "\<And>q. q \<noteq> resolve tmp \<Longrightarrow> lookup f1 q = lookup f q"
    by (rule append_ok [OF nf t]) (rule that)
  have ntake: "take k ?D \<noteq> resolve tmp" for k using ok by (metis can_produce_def take_is_prefix)
  have dc: "dir_clear f1 (resolve (butlast ?b))"
    using ok ntake o1 unfolding rb by (simp add: can_produce_def dir_clear_def)
  obtain g where g: "fs_create_dir_all (butlast ?b) f1 = (Inr (), g)" "file_at g = file_at f1"
    "lookup g ?D = Some FDir" "no_faults g" and keep: "\<And>q n. lookup f1 q = Some n \<Longrightarrow> lookup g q = Some n"
    and og: "\<And>q. \<not> prefix q ?D \<Longrightarrow> lookup g q = lookup f1 q"
    by (rule create_dir_all_ok [OF f1(3) dc]) (rule that, assumption, simp_all add: rb)
  have ne: "resolve tmp \<noteq> resolve ?b" using ok wf by (metis can_produce_def is_slot_slot rb(1) wf_digest_def)
  have "\<not> prefix (slot (rdir L repo) (hex d)) ?D" by (auto simp: slot_def dest: prefix_length_le)
  then have free: "lookup g (resolve ?b) \<noteq> Some FDir" using og o1 ne ok unfolding rb by (simp add: can_produce_def)
  obtain f2 where "fs_rename tmp ?b g = (Inr (), f2)"
    by (rule rename_ok [OF g(4) keep [OF f1(2)], of ?b]) (use g(3) free that in \<open>simp_all add: rb\<close>)
  with g(1) h e have p: "promote sha ?b c e f1 = (Inr (), f2)" by (simp add: promote_def)
  from promote_Inr [OF p] f1(2) ne e have "file_at f2 (resolve ?b) = Some c" "file_at f2 (resolve tmp) = None"
    by (simp_all add: file_at_def)
  with f1(1) p show thesis by (rule that)
qed

lemma produce_one_run:
  assumes "can_produce tmp L repo d f" and "sha c = hex d" and "pe_tempfile_path e = tmp" and "pe_digest e = d"
  obtains f2 where "(pt_step sha now (blob_path L repo d))\<^sup>*\<^sup>*
      \<lparr>r_fs = f, r_entry = e, r_phase = Streaming [] 0 [Inr c], r_body = b\<rparr>
      \<lparr>r_fs = f2, r_entry = entry_finish (PSuccess (len_u64 c)) (advance (len_u64 c) e), r_phase = Ended, r_body = b\<rparr>"
    "file_at f2 (resolve (blob_path L repo d)) = Some c" "file_at f2 (resolve tmp) = None"
proof -
  let ?S = "pt_step sha now (blob_path L repo d)" and ?t = "len_u64 c"
  have e: "pe_tempfile_path (advance ?t e) = tmp" "pe_digest (advance ?t e) = d" using assms by simp_all
  obtain f1 f2 where a: "fs_append now tmp c f = (Inr (), f1)"
    "promote sha (blob_path L repo d) c (advance ?t e) f1 = (Inr (), f2)"
    and f2: "file_at f2 (resolve (blob_path L repo d)) = Some c" "file_at f2 (resolve tmp) = None"
    by (rule produce_one [where sha = sha and c = c and now = now, OF assms(1,2) e])
  have "unat ?t < 2 ^ 64" by (rule order_less_le_trans [OF unsigned_less]) simp
  then have t: "sat_add 0 ?t = ?t" by (simp add: sat_add_def)
  have "?S \<lparr>r_fs = f, r_entry = e, r_phase = Streaming [] 0 [Inr c], r_body = b\<rparr>
      \<lparr>r_fs = f1, r_entry = advance ?t e, r_phase = Streaming c ?t [], r_body = b\<rparr>"
    using pt_step.chunk [of "\<lparr>r_fs = f, r_entry = e, r_phase = Streaming [] 0 [Inr c], r_body = b\<rparr>" "[]" 0 c "[]" now f1 ?t sha]
      a(1) assms(3) t by simp
  moreover have "?S \<lparr>r_fs = f1, r_entry = advance ?t e, r_phase = Streaming c ?t [], r_body = b\<rparr>
      \<lparr>r_fs = f2, r_entry = advance ?t e, r_phase = Renamed ?t, r_body = b\<rparr>"
    using pt_step.promoted [of "\<lparr>r_fs = f1, r_entry = advance ?t e, r_phase = Streaming c ?t [], r_body = b\<rparr>" c ?t sha _ f2 now] a(2) by simp
  moreover have "?S \<lparr>r_fs = f2, r_entry = advance ?t e, r_phase = Renamed ?t, r_body = b\<rparr>
      \<lparr>r_fs = f2, r_entry = entry_finish (PSuccess ?t) (advance ?t e), r_phase = Ended, r_body = b\<rparr>"
    using pt_step.finish_ok [of "\<lparr>r_fs = f2, r_entry = advance ?t e, r_phase = Renamed ?t, r_body = b\<rparr>" ?t] by simp
  ultimately show thesis using f2
    by (intro that [of f2]) (meson converse_rtranclp_into_rtranclp rtranclp.rtrancl_refl)+
qed

lemma poll_step:
  "poll_turn n e f b = Some b' \<Longrightarrow> pt_step sha now final \<lparr>r_fs = f, r_entry = e, r_phase = ph, r_body = b\<rparr>
     \<lparr>r_fs = f, r_entry = e, r_phase = ph, r_body = b'\<rparr>"
  using pt_step.poll [of n "\<lparr>r_fs = f, r_entry = e, r_phase = ph, r_body = b\<rparr>" b' sha now final] by simp

lemma ended_stuck:
  assumes "poll_turn 0 e f b = None"
  shows "\<not> pt_step sha now final \<lparr>r_fs = f, r_entry = e, r_phase = Ended, r_body = b\<rparr> s'"
proof
  assume "pt_step sha now final \<lparr>r_fs = f, r_entry = e, r_phase = Ended, r_body = b\<rparr> s'"
  moreover have "poll_turn n e f b = None" for n
    using assms by (auto simp: poll_turn_def split: body_state.splits)
  ultimately show False by (auto elim!: pt_stepE)
qed

text \<open>
  C24. A consumer may miss the end of a successful pull.  The tempfile is renamed away while a consumer
  still has bytes to read, and the consumer opens the tempfile again for every chunk: there is an
  interleaving in which the producer commits the blob and the consumer fails with an I/O error.  And the
  consumer starts to listen for notifications only after it has looked at the outcome: there is an
  interleaving in which the producer succeeds in between, the consumer then waits for a notification,
  and no step of either task is possible any more.
\<close>

theorem consumer_misses_end:
  assumes ok: "can_produce tmp L repo d f" and h: "sha c = hex d" and c: "c \<noteq> []" "length c < 2 ^ 64" and cap: "0 < cap"
  shows "(\<exists>s er. (pt_step sha now (blob_path L repo d))\<^sup>*\<^sup>* (pt_start d tmp [Inr c] cap f) s \<and>
      pe_outcome (r_entry s) = Some (PSuccess (len_u64 c)) \<and> file_at (r_fs s) (resolve (blob_path L repo d)) = Some c \<and>
      pb_state (r_body s) = BErrored (PIo er) \<and> pb_sent (r_body s) = []) \<and>
    (\<exists>s k. (pt_step sha now (blob_path L repo d))\<^sup>*\<^sup>* (pt_start d tmp [Inr c] cap f) s \<and>
      pe_outcome (r_entry s) = Some (PSuccess (len_u64 c)) \<and> file_at (r_fs s) (resolve (blob_path L repo d)) = Some c \<and>
      pb_state (r_body s) = BWaitAt k \<and> pb_sent (r_body s) = [] \<and>
      (\<forall>s'. \<not> pt_step sha now (blob_path L repo d) s s'))"
proof
  let ?S = "pt_step sha now (blob_path L repo d)" and ?e = "entry_new d tmp" and ?b = "with_chunk_capacity cap body_new"
  let ?x = "entry_finish (PSuccess (len_u64 c)) (advance (len_u64 c) ?e)"
  have e: "pe_tempfile_path ?e = tmp" "pe_digest ?e = d" by (simp_all add: entry_new_def)
  have b: "pb_state ?b = BIdle" "pb_offset ?b = 0" "pb_sent ?b = []" "pb_chunk_capacity ?b = cap"
    by (simp_all add: with_chunk_capacity_def body_new_def)
  have l: "0 < len_u64 c" "0 < unat (len_u64 c)" using c by (simp_all add: word_less_nat_alt unat_len_u64)
  obtain f2 where run: "?S\<^sup>*\<^sup>* (pt_start d tmp [Inr c] cap f) \<lparr>r_fs = f2, r_entry = ?x, r_phase = Ended, r_body = ?b\<rparr>"
    and f2: "file_at f2 (resolve (blob_path L repo d)) = Some c" "file_at f2 (resolve tmp) = None"
    unfolding pt_start_def by (rule produce_one_run [where sha = sha, OF ok h e])
  let ?r = "?b\<lparr>pb_state := BReading 0 cap (len_u64 c)\<rparr>"
  have s1: "poll_turn 0 ?x f2 ?b = Some ?r" using b l by (simp add: poll_turn_def high_water_mark_def)
  obtain er where "fs_read tmp f2 = Inl er" using f2(2) by (cases "fs_read tmp f2") (auto dest: read_Inr)
  then have s2: "poll_turn 0 ?x f2 ?r = Some (?r\<lparr>pb_state := BErrored (PIo er)\<rparr>)"
    using b l cap e by (simp add: poll_turn_def read_chunk_def Let_def unat_sat_sub)
  have "?S\<^sup>*\<^sup>* (pt_start d tmp [Inr c] cap f) \<lparr>r_fs = f2, r_entry = ?x, r_phase = Ended, r_body = ?r\<lparr>pb_state := BErrored (PIo er)\<rparr>\<rparr>"
    by (rule rtranclp.rtrancl_into_rtrancl [OF rtranclp.rtrancl_into_rtrancl [OF run poll_step [OF s1]] poll_step [OF s2]])
  then show "\<exists>s er. ?S\<^sup>*\<^sup>* (pt_start d tmp [Inr c] cap f) s \<and>
      pe_outcome (r_entry s) = Some (PSuccess (len_u64 c)) \<and> file_at (r_fs s) (resolve (blob_path L repo d)) = Some c \<and>
      pb_state (r_body s) = BErrored (PIo er) \<and> pb_sent (r_body s) = []"
    using f2 b by (intro exI [of _ "\<lparr>r_fs = f2, r_entry = ?x, r_phase = Ended, r_body = ?r\<lparr>pb_state := BErrored (PIo er)\<rparr>\<rparr>"]
        exI [of _ er]) simp
  let ?n = "?b\<lparr>pb_state := BWaitNew\<rparr>" and ?k = "pe_notifies ?x"
  have w1: "poll_turn 0 ?e f ?b = Some ?n"
    using b by (simp add: poll_turn_def high_water_mark_def entry_outcome_def entry_new_def)
  obtain f3 where run': "?S\<^sup>*\<^sup>* \<lparr>r_fs = f, r_entry = ?e, r_phase = Streaming [] 0 [Inr c], r_body = ?n\<rparr>
      \<lparr>r_fs = f3, r_entry = ?x, r_phase = Ended, r_body = ?n\<rparr>"
    and f3: "file_at f3 (resolve (blob_path L repo d)) = Some c"
    by (rule produce_one_run [where sha = sha, OF ok h e])
  have w2: "poll_turn 0 ?x f3 ?n = Some (?n\<lparr>pb_state := BWaitAt ?k\<rparr>)" by (simp add: poll_turn_def)
  have "?S\<^sup>*\<^sup>* (pt_start d tmp [Inr c] cap f) \<lparr>r_fs = f3, r_entry = ?x, r_phase = Ended, r_body = ?n\<lparr>pb_state := BWaitAt ?k\<rparr>\<rparr>"
    unfolding pt_start_def
    by (rule rtranclp.rtrancl_into_rtrancl [OF converse_rtranclp_into_rtranclp [OF poll_step [OF w1] run'] poll_step [OF w2]])
  moreover have "poll_turn 0 ?x f3 (?n\<lparr>pb_state := BWaitAt ?k\<rparr>) = None" by (simp add: poll_turn_def)
  ultimately show "\<exists>s k. ?S\<^sup>*\<^sup>* (pt_start d tmp [Inr c] cap f) s \<and>
      pe_outcome (r_entry s) = Some (PSuccess (len_u64 c)) \<and> file_at (r_fs s) (resolve (blob_path L repo d)) = Some c \<and>
      pb_state (r_body s) = BWaitAt k \<and> pb_sent (r_body s) = [] \<and> (\<forall>s'. \<not> ?S s s')"
    using f3 b ended_stuck [of ?x f3 "?n\<lparr>pb_state := BWaitAt ?k\<rparr>" sha now "blob_path L repo d"]
    by (intro exI [of _ "\<lparr>r_fs = f3, r_entry = ?x, r_phase = Ended, r_body = ?n\<lparr>pb_state := BWaitAt ?k\<rparr>\<rparr>"] exI [of _ ?k]) simp
qed

text \<open>A file system in which the tempfile has just been created.\<close>

definition pull_demo_fs :: fs where
  "pull_demo_fs = \<lparr>nodes = [([''t''], FFile [] 0)], faults = (\<lambda>_ _. None)\<rparr>"

lemma pull_demo_ok: "can_produce [''t''] \<lparr>root = [''q'']\<rparr> ''a'' (sha256_digest (demo_sha [1, 2])) pull_demo_fs"
proof -
  have r: "resolve [''t''] = [''t'']" "rdir \<lparr>root = [''q'']\<rparr> ''a'' = [''q'', ''a'']" by code_simp+
  have "dir_clear pull_demo_fs [''q'', ''a'', ''blobs'', ''sha256'']"
    by (auto simp: dir_clear_def pull_demo_fs_def lookup_def take_Cons split: nat.splits)
  then show ?thesis
    by (auto simp: can_produce_def r no_faults_def pull_demo_fs_def is_slot_def slot_def file_at_def lookup_def)
qed

theorem consumer_misses_end_witness:
  "\<exists>s er. (pt_step demo_sha 0 (blob_path \<lparr>root = [''q'']\<rparr> ''a'' (sha256_digest (demo_sha [1, 2]))))\<^sup>*\<^sup>*
      (pt_start (sha256_digest (demo_sha [1, 2])) [''t''] [Inr [1, 2]] 1 pull_demo_fs) s \<and>
    pe_outcome (r_entry s) = Some (PSuccess 2) \<and> pb_state (r_body s) = BErrored (PIo er)"
proof -
  have "demo_sha [1, 2] = hex (sha256_digest (demo_sha [1, 2]))" by simp
  from consumer_misses_end [where sha = demo_sha and c = "[1, 2]" and cap = 1 and now = 0, OF pull_demo_ok this]
  show ?thesis by (simp add: len_u64_def) blast
qed

theorem consumer_safe_witness:
  "\<exists>s. (pt_step demo_sha 0 [''b''])\<^sup>*\<^sup>* (pt_start (sha256_digest (demo_sha [1, 2])) [''t''] [Inr [1, 2]] 1 pull_demo_fs) s \<and>
     r_phase s = Streaming [1, 2] 2 [] \<and> prefix (pb_sent (r_body s)) [1, 2]"
proof -
  let ?d = "sha256_digest (demo_sha [1, 2])"
  let ?s = "pt_start ?d [''t''] [Inr [1, 2]] 1 pull_demo_fs"
  have r: "resolve [''t''] = [''t'']" "resolve [''b''] = [''b'']" by code_simp+
  have f: "file_at pull_demo_fs (resolve [''t'']) = Some []" unfolding r by (simp add: pull_demo_fs_def file_at_def lookup_def)
  obtain f' where a: "fs_append 0 [''t''] [1, 2] pull_demo_fs = (Inr (), f')"
    by (simp add: fs_append_def Let_def r pull_demo_fs_def lookup_def)
  have t: "sat_add 0 (len_u64 [1 :: byte, 2]) = 2" by (simp add: sat_add_def len_u64_def)
  have "pt_step demo_sha 0 [''b''] ?s (?s\<lparr>r_fs := f', r_entry := advance 2 (r_entry ?s), r_phase := Streaming ([] @ [1, 2]) 2 []\<rparr>)"
    by (rule pt_step.chunk [where t = 0 and c = "[1, 2]"]) (simp_all add: pt_start_def entry_new_def a t)
  then have st: "(pt_step demo_sha 0 [''b''])\<^sup>*\<^sup>* ?s
      (?s\<lparr>r_fs := f', r_entry := advance 2 (r_entry ?s), r_phase := Streaming ([] @ [1, 2]) 2 []\<rparr>)" by blast
  from consumer_safe [OF f _ _ st] st show ?thesis by (force simp: r)
qed

end
