(* ===== verification/Config.thy ===== *)
theory Config
  imports Cas_Layout
begin

text \<open>
  \<^verbatim>\<open>crates/quill-config/src/lib.rs\<close>: the configuration file and its validation.  The TOML parser (with
  the \<^verbatim>\<open>serde\<close> decoding into the structures below) is a parameter.
\<close>

section \<open>Data\<close>

datatype config_error = CIo io_error | CParse | CInvalid string

record tls_cfg =
  tls_cert :: path
  tls_key :: path

record htpasswd_auth =
  hp_path :: path

record token_auth =
  ta_realm :: string
  ta_service :: string
  ta_issuer_key :: path

record auth_cfg =
  au_htpasswd :: "htpasswd_auth option"
  au_token :: "token_auth option"

record http_cfg =
  ht_address :: string
  ht_tls :: "tls_cfg option"
  ht_auth :: "auth_cfg option"

record storage_cfg =
  st_root :: path
  st_blob_meta_ttl_secs :: u64

definition default_blob_meta_ttl :: u64 where
  "default_blob_meta_ttl = 60"

datatype upstream_kind = Ecr | Harbor | Generic

datatype upstream_auth = UBasic string string

record upstream_cfg =
  uc_name :: string
  uc_url :: string
  uc_kind :: upstream_kind
  uc_repo_prefix :: string
  uc_auth :: "upstream_auth option"

record config =
  cf_http :: http_cfg
  cf_storage :: storage_cfg
  cf_upstream :: "upstream_cfg list"

section \<open>Operations\<close>

definition auth_or_anonymous :: "upstream_cfg \<Rightarrow> upstream_auth option" where
  "auth_or_anonymous u = uc_auth u"

definition is_localhost :: "string \<Rightarrow> bool" where
  "is_localhost bind \<longleftrightarrow> starts_with ''127.0.0.1:'' bind \<or> starts_with ''[::1]:'' bind \<or> starts_with ''localhost:'' bind"

definition validate :: "config \<Rightarrow> config_error + unit" where
  "validate c =
     (if ht_tls (cf_http c) = None \<and> \<not> is_localhost (ht_address (cf_http c))
      then Inl (CInvalid ''TLS required for non-localhost bind addresses; set [http.tls] or bind to 127.0.0.1'')
      else Inr ())"

definition from_file :: "(string \<Rightarrow> config option) \<Rightarrow> path \<Rightarrow> fs \<Rightarrow> config_error + config" where
  "from_file toml p f =
     (case fs_read_to_string p f of
        Inl e \<Rightarrow> Inl (CIo e)
      | Inr body \<Rightarrow>
          (case toml body of
             None \<Rightarrow> Inl CParse
           | Some c \<Rightarrow> (case validate c of Inl e \<Rightarrow> Inl e | Inr _ \<Rightarrow> Inr c)))"

section \<open>What a loaded configuration guarantees\<close>

text \<open>
  C31. Loading the configuration, on every branch: a configuration is returned exactly when the file is
  readable, parses, and either names a certificate or binds a loopback address; so no plain text
  service is ever started on another address.  Each failure is reported as its own error.
\<close>

theorem from_file_spec:
  "case from_file toml p f of
     Inr c \<Rightarrow> (\<exists>b s. file_at f (resolve p) = Some b \<and> from_utf8 b = Some s \<and> toml s = Some c) \<and>
       ((\<exists>t. ht_tls (cf_http c) = Some t) \<or>
        (\<exists>port. ht_address (cf_http c) \<in> {''127.0.0.1:'' @ port, ''[::1]:'' @ port, ''localhost:'' @ port}))
   | Inl (CIo e) \<Rightarrow> fs_read_to_string p f = Inl e
   | Inl CParse \<Rightarrow> (\<exists>s. fs_read_to_string p f = Inr s \<and> toml s = None)
   | Inl (CInvalid m) \<Rightarrow> (\<exists>s c. fs_read_to_string p f = Inr s \<and> toml s = Some c \<and>
       ht_tls (cf_http c) = None \<and>
       (\<forall>port. ht_address (cf_http c) \<notin> {''127.0.0.1:'' @ port, ''[::1]:'' @ port, ''localhost:'' @ port}))"
proof (cases "fs_read_to_string p f")
  case (Inl e)
  then show ?thesis by (simp add: from_file_def)
next
  case (Inr s)
  then have b: "\<exists>b. file_at f (resolve p) = Some b \<and> from_utf8 b = Some s"
    by (auto simp: fs_read_to_string_def dest: read_Inr split: sum.splits option.splits)
  have loc: "is_localhost a \<longleftrightarrow> (\<exists>port. a \<in> {''127.0.0.1:'' @ port, ''[::1]:'' @ port, ''localhost:'' @ port})" for a
    by (auto simp: is_localhost_def starts_with_iff prefix_def)
  show ?thesis
  proof (cases "toml s")
    case None
    with Inr show ?thesis by (simp add: from_file_def)
  next
    case (Some c)
    show ?thesis
    proof (cases "ht_tls (cf_http c) = None \<and> \<not> is_localhost (ht_address (cf_http c))")
      case True
      with Inr Some have "from_file toml p f =
          Inl (CInvalid ''TLS required for non-localhost bind addresses; set [http.tls] or bind to 127.0.0.1'')"
        by (simp add: from_file_def validate_def)
      with True Inr Some show ?thesis unfolding loc by (simp only: sum.case config_error.case) blast
    next
      case False
      with Inr Some have "from_file toml p f = Inr c" by (auto simp: from_file_def validate_def)
      with False b Some show ?thesis unfolding loc by (simp only: sum.case) (metis option.exhaust)
    qed
  qed
qed

end
