(* ===== verification/Json.thy ===== *)
theory Json
  imports Quill_Prelude
begin

text \<open>
  The part of \<^verbatim>\<open>serde_json::Value\<close> the sources inspect: \<^verbatim>\<open>get\<close>, \<^verbatim>\<open>as_str\<close> and \<^verbatim>\<open>as_array\<close>.  The parser
  \<^verbatim>\<open>serde_json::from_slice\<close> is not part of the repository and is an argument of the operations that
  call it.
\<close>

datatype json =
    JNull
  | JBool bool
  | JNumber string
  | JString string
  | JArray "json list"
  | JObject "(string \<times> json) list"

fun json_get :: "string \<Rightarrow> json \<Rightarrow> json option" where
  "json_get k (JObject ms) = map_of ms k"
| "json_get k _ = None"

fun as_str :: "json \<Rightarrow> string option" where
  "as_str (JString s) = Some s"
| "as_str _ = None"

fun as_array :: "json \<Rightarrow> json list option" where
  "as_array (JArray xs) = Some xs"
| "as_array _ = None"

end
