(* ===== verification/Http.thy ===== *)
theory Http
  imports Quill_Prelude Json
begin

text \<open>
  The vocabulary of HTTP shared by the upstream client, the registry routes and the authentication
  layer: methods, header maps, status codes, bodies read as a stream of items, and decimal numbers in
  headers.  Header names are the lower-case names a \<^verbatim>\<open>HeaderName\<close> holds; a \<^verbatim>\<open>HeaderMap\<close> is the list of
  its pairs.
\<close>

section \<open>Methods and headers\<close>

datatype http_method = GET | HEAD | POST | PUT | PATCH | DELETE | OtherMethod string

type_synonym header_map = "(string \<times> string) list"

definition hdr_get :: "string \<Rightarrow> header_map \<Rightarrow> string option" where
  "hdr_get n hs = map_of hs n"

text \<open>\<^verbatim>\<open>insert\<close> replaces, \<^verbatim>\<open>append\<close> (and the builder's \<^verbatim>\<open>header\<close>) adds.\<close>

definition hdr_insert :: "string \<Rightarrow> string \<Rightarrow> header_map \<Rightarrow> header_map" where
  "hdr_insert n v hs = AList.update n v hs"

text \<open>\<^verbatim>\<open>HeaderValue::to_str\<close>: only visible ASCII (and tab) is a string.\<close>

definition visible_ascii :: "char \<Rightarrow> bool" where
  "visible_ascii c \<longleftrightarrow> (let n = of_char c :: nat in 32 \<le> n \<and> n < 127 \<or> n = 9)"

definition hdr_to_str :: "string \<Rightarrow> string option" where
  "hdr_to_str v = (if list_all visible_ascii v then Some v else None)"

text \<open>The chain \<^verbatim>\<open>headers().get(name).and_then(|v| v.to_str().ok())\<close>.\<close>

definition hdr_str :: "string \<Rightarrow> header_map \<Rightarrow> string option" where
  "hdr_str n hs = Option.bind (hdr_get n hs) hdr_to_str"

lemma hdr_get_insert [simp]: "hdr_get m (hdr_insert n v hs) = (if m = n then Some v else hdr_get m hs)"
  by (simp add: hdr_get_def hdr_insert_def update_conv)

lemma hdr_get_Nil [simp]: "hdr_get m [] = None"
  by (simp add: hdr_get_def)

lemma hdr_get_Cons [simp]: "hdr_get m ((n, v) # hs) = (if m = n then Some v else hdr_get m hs)"
  by (simp add: hdr_get_def)

definition is_success :: "nat \<Rightarrow> bool" where
  "is_success status \<longleftrightarrow> 200 \<le> status \<and> status < 300"

section \<open>Bodies\<close>

text \<open>A body is the list of items its stream yields; collecting it fails at the first error.\<close>

type_synonym stream = "(string + bytes) list"

fun collect_stream :: "stream \<Rightarrow> string + bytes" where
  "collect_stream [] = Inr []"
| "collect_stream (Inl e # xs) = Inl e"
| "collect_stream (Inr b # xs) = (case collect_stream xs of Inl e \<Rightarrow> Inl e | Inr c \<Rightarrow> Inr (b @ c))"

section \<open>Responses\<close>

text \<open>
  The body of a response: none, bytes known in full (a file that has been opened is its contents at that
  moment), a JSON value, or the stream of a pull-through entry, given by the entry's identity.
  \<open>NoAnswer\<close> is what a client sees of a handler that panics.
\<close>

datatype resp_body = NoBody | Full bytes | JsonBody json | FromEntry nat | NoAnswer

record response =
  rp_status :: nat
  rp_headers :: header_map
  rp_body :: resp_body

text \<open>
  \<^verbatim>\<open>HeaderValue\<close> admits every byte but the control characters, and the tab.  A response builder keeps an
  invalid value as its error, and \<^verbatim>\<open>.body(..).expect(..)\<close> panics on it: the connection ends without an
  answer.
\<close>

definition header_byte_ok :: "char \<Rightarrow> bool" where
  "header_byte_ok c \<longleftrightarrow> (let n = of_char c :: nat in 32 \<le> n \<and> n \<noteq> 127 \<or> n = 9)"

definition header_value_ok :: "string \<Rightarrow> bool" where
  "header_value_ok v \<longleftrightarrow> list_all header_byte_ok v"

definition panicked :: response where
  "panicked = \<lparr>rp_status = 0, rp_headers = [], rp_body = NoAnswer\<rparr>"

definition expect_built :: "response \<Rightarrow> response" where
  "expect_built r = (if list_all (\<lambda>(n, v). header_value_ok v) (rp_headers r) then r else panicked)"

lemma header_value_append [simp]: "header_value_ok (a @ b) \<longleftrightarrow> header_value_ok a \<and> header_value_ok b"
  by (simp add: header_value_ok_def)

lemma header_value_Nil [simp]: "header_value_ok []"
  by (simp add: header_value_ok_def)

lemma to_str_header_ok: "hdr_to_str v = Some w \<Longrightarrow> header_value_ok w"
  by (auto simp: hdr_to_str_def header_value_ok_def visible_ascii_def header_byte_ok_def Let_def list_all_iff split: if_splits)

section \<open>Decimal numbers\<close>

fun dec :: "nat \<Rightarrow> string" where
  "dec n = (if n < 10 then [hex_digit n] else dec (n div 10) @ [hex_digit (n mod 10)])"

declare dec.simps [simp del]

lemma hex_digit_header_ok [simp]: "header_byte_ok (hex_digit n)"
proof -
  have "''0123456789abcdef'' ! (n mod 16) \<in> set ''0123456789abcdef''" by (rule nth_mem) simp
  moreover have "\<forall>c \<in> set ''0123456789abcdef''. header_byte_ok c" by (simp add: header_byte_ok_def)
  ultimately show ?thesis unfolding hex_digit_def by blast
qed

lemma dec_header_ok [simp]: "header_value_ok (dec n)"
  by (induction n rule: dec.induct) (subst dec.simps, simp add: header_value_ok_def)

lemma dec_nonempty [simp]: "dec n \<noteq> []"
  by (subst dec.simps) simp

lemma hex_digit_inj: "a < 10 \<Longrightarrow> b < 10 \<Longrightarrow> hex_digit a = hex_digit b \<Longrightarrow> a = b"
proof -
  have "distinct ''0123456789abcdef''" by simp
  moreover assume "a < 10" "b < 10" "hex_digit a = hex_digit b"
  ultimately show "a = b" by (simp add: hex_digit_def nth_eq_iff_index_eq)
qed

text \<open>Different numbers are printed differently.\<close>

lemma dec_inj: "dec a = dec b \<Longrightarrow> a = b"
proof (induction a arbitrary: b rule: less_induct)
  case (less a)
  have step: "dec n = (if n < 10 then [] else dec (n div 10)) @ [hex_digit (n mod 10)]" for n
    by (subst dec.simps) simp
  from less.prems have e: "(if a < 10 then [] else dec (a div 10)) = (if b < 10 then [] else dec (b div 10))"
    and "hex_digit (a mod 10) = hex_digit (b mod 10)"
    using step [of a] step [of b] by simp_all
  then have m: "a mod 10 = b mod 10" by (intro hex_digit_inj) simp_all
  show ?case
  proof (cases "a < 10")
    case True
    with e have "b < 10" by (auto split: if_splits dest: sym)
    with True m show ?thesis by simp
  next
    case False
    with e have "dec (a div 10) = dec (b div 10)" by (auto split: if_splits)
    with less.IH [of "a div 10"] False have "a div 10 = b div 10" by simp
    with m show ?thesis by (metis div_mult_mod_eq)
  qed
qed

end
