(* ===== verification/Text_Codec.thy ===== *)
theory Text_Codec
  imports Filesystem
begin

text \<open>
  A small concrete text encoding, used only to show that the hypotheses on the JSON encodings can be
  met: a list of strings is written as the hexadecimal digits of each string followed by a
  semicolon, which is ASCII and therefore UTF-8, and read back by splitting at the semicolons.
\<close>

definition hex_pair :: "char \<Rightarrow> string" where
  "hex_pair c = [hex_digit (of_char c div 16), hex_digit (of_char c)]"

definition hex_val :: "char \<Rightarrow> nat" where
  "hex_val c = length (takeWhile (\<lambda>x. x \<noteq> c) ''0123456789abcdef'')"

fun unhex :: "string \<Rightarrow> string" where
  "unhex (a # b # s) = char_of (hex_val a * 16 + hex_val b) # unhex s"
| "unhex _ = []"

definition enc_strs :: "string list \<Rightarrow> string" where
  "enc_strs ss = concat (map (\<lambda>s. concat (map hex_pair s) @ '';'') ss)"

definition dec_strs :: "string \<Rightarrow> string list" where
  "dec_strs t = map unhex (butlast (split_on (CHR '';'') t))"

definition to_bytes :: "string \<Rightarrow> bytes" where
  "to_bytes s = map (\<lambda>c. of_nat (of_char c)) s"

lemma hex_val_digit: "hex_val (hex_digit n) = n mod 16"
proof -
  have "\<forall>k < 16. hex_val (''0123456789abcdef'' ! k) = k"
    by (simp add: hex_val_def less_Suc_eq numeral_eq_Suc All_less_Suc2)
  then show ?thesis by (simp add: hex_digit_def)
qed

lemma of_char_bound: "(of_char c :: nat) < 256"
  by (metis mod_less_divisor of_char_mod_256 zero_less_numeral)

lemma unhex_pairs: "unhex (concat (map hex_pair s)) = s"
proof (induction s)
  case (Cons c s)
  have "(of_char c :: nat) < 256" by (rule of_char_bound)
  then have "((of_char c :: nat) div 16) mod 16 * 16 + (of_char c :: nat) mod 16 = of_char c"
    by (simp add: mod_less_divisor div_mult_mod_eq less_mult_imp_div_less)
  with Cons show ?case by (simp add: hex_pair_def hex_val_digit)
qed simp

lemma hex_pair_chars: "x \<in> set (concat (map hex_pair s)) \<Longrightarrow> x \<in> set ''0123456789abcdef''"
  using hex_digit_in by (fastforce simp: hex_pair_def)

lemma split_enc: "split_on (CHR '';'') (enc_strs ss) = map (\<lambda>s. concat (map hex_pair s)) ss @ [[]]"
proof (induction ss)
  case Nil
  then show ?case by (simp add: enc_strs_def)
next
  case (Cons s ss)
  have "CHR '';'' \<notin> set (concat (map hex_pair s))"
    using hex_pair_chars [of "CHR '';''" s] by (auto simp del: set_concat)
  then have "split_on (CHR '';'') (concat (map hex_pair s) @ CHR '';'' # enc_strs ss) =
      concat (map hex_pair s) # split_on (CHR '';'') (enc_strs ss)"
    using split_on_single [of "CHR '';''" "concat (map hex_pair s)"] by (simp only: split_on_append) simp
  with Cons show ?case by (simp add: enc_strs_def)
qed

lemma dec_enc: "dec_strs (enc_strs ss) = ss"
  by (simp add: dec_strs_def split_enc butlast_append unhex_pairs comp_def)

lemma enc_ascii: "c \<in> set (enc_strs ss) \<Longrightarrow> (of_char c :: nat) < 128"
proof -
  assume "c \<in> set (enc_strs ss)"
  then obtain s where "c \<in> set (concat (map hex_pair s) @ '';'')"
    unfolding enc_strs_def by (auto simp del: set_append)
  then have "c = CHR '';'' \<or> (\<exists>s. c \<in> set (concat (map hex_pair s)))"
    by (auto simp del: set_concat)
  then have "c \<in> set '';0123456789abcdef''" using hex_pair_chars [of c] by fastforce
  then show ?thesis by auto
qed

lemma utf8_ascii: "\<forall>a \<in> set s. a < 128 \<Longrightarrow> utf8_valid s"
  by (induction s) auto

lemma from_utf8_to_bytes: "\<forall>c \<in> set s. (of_char c :: nat) < 128 \<Longrightarrow> from_utf8 (to_bytes s) = Some s"
proof -
  assume a: "\<forall>c \<in> set s. (of_char c :: nat) < 128"
  have u: "unat (of_nat (of_char c) :: byte) = of_char c" for c
    by (simp add: unsigned_of_nat take_bit_nat_eq_self of_char_bound)
  have "map unat (to_bytes s) = map of_char s" by (simp add: to_bytes_def u)
  moreover from a have "utf8_valid (map of_char s)" by (intro utf8_ascii) auto
  ultimately show ?thesis
    by (simp add: from_utf8_def to_bytes_def u comp_def)
qed

lemma from_utf8_enc: "from_utf8 (to_bytes (enc_strs ss)) = Some (enc_strs ss)"
  by (rule from_utf8_to_bytes) (auto dest: enc_ascii)

text \<open>Numbers in unary.\<close>

definition enc_num :: "nat \<Rightarrow> string" where
  "enc_num n = replicate n (CHR ''1'')"

lemma length_enc_num [simp]: "length (enc_num n) = n"
  by (simp add: enc_num_def)

end
