(* ===== verification/Uploads.thy ===== *)
theory Uploads
  imports Local_Storage Text_Codec "HOL-Library.Multiset"
begin

unbundle bit_operations_syntax

text \<open>
  \<^verbatim>\<open>crates/quill-storage/src/uploads.rs\<close>: resumable upload sessions.  A session has a data file, a
  metadata file and, in memory, the running hash; \<^verbatim>\<open>finalize\<close> checks the hash and renames the data
  file into the store.  The lemmas show that a completed upload is an instance of the commit contract
  as long as the hash and the data file have seen the same bytes, when they have, and when not.
\<close>

section \<open>Data\<close>

datatype upload_error =
    UIo io_error
  | UNotFound string
  | UDigestMismatch string string
  | UInvalidRange string
  | UAlreadyFinalized
  | UJson

record upload_meta =
  um_session :: string
  um_repo :: string
  um_bytes_received :: u64
  um_started_at :: nat
  um_last_seen :: nat

record upload_state =
  us_meta :: upload_meta
  us_hasher :: bytes
  us_data_path :: path
  us_finalized :: bool

record upload_store =
  up_layout :: cas_layout
  up_sessions :: "(string \<times> string, upload_state) dashmap"

text \<open>The JSON encoding of \<^verbatim>\<open>UploadMeta\<close> (\<^verbatim>\<open>serde_json\<close>).\<close>

record upload_codec =
  um_to_vec :: "upload_meta \<Rightarrow> bytes option"
  um_from_slice :: "bytes \<Rightarrow> upload_meta option"

section \<open>Operations\<close>

definition uploads_new :: "cas_layout \<Rightarrow> upload_store" where
  "uploads_new L = \<lparr>up_layout = L, up_sessions = []\<rparr>"

definition new_session_id :: "clock \<Rightarrow> string" where
  "new_session_id ck =
     (let nanos = of_nat (wall ck) :: u64;
          mix = word_rotl 13 nanos XOR (pid ck * 0x9E3779B97F4A7C15)
      in hex16 mix @ hex16 nanos)"

definition data_name :: "string \<Rightarrow> string" where
  "data_name session = session @ ''.data''"

definition meta_name :: "string \<Rightarrow> string" where
  "meta_name session = session @ ''.meta.json''"

definition meta_path :: "cas_layout \<Rightarrow> string \<Rightarrow> string \<Rightarrow> path" where
  "meta_path L repo session = path_join (uploads_dir L repo) (meta_name session)"

definition write_meta :: "upload_codec \<Rightarrow> nat \<Rightarrow> cas_layout \<Rightarrow> string \<Rightarrow> upload_meta \<Rightarrow> fs \<Rightarrow>
    (upload_error + unit) \<times> fs" where
  "write_meta C now L repo meta f =
     (let p = meta_path L repo (um_session meta) in
      case um_to_vec C meta of
        None \<Rightarrow> (Inl UJson, f)
      | Some body \<Rightarrow>
          (case fs_replace now (with_extension p ''json.tmp'') p body f of
             (Inl e, f1) \<Rightarrow> (Inl (UIo e), f1)
           | (Inr _, f1) \<Rightarrow> (Inr (), f1)))"

definition write_meta_for :: "upload_codec \<Rightarrow> nat \<Rightarrow> cas_layout \<Rightarrow> string \<Rightarrow> string \<Rightarrow> u64 \<Rightarrow> fs \<Rightarrow>
    (upload_error + unit) \<times> fs" where
  "write_meta_for C now L repo session n f =
     (case fs_read (meta_path L repo session) f of
        Inl ENotFound \<Rightarrow> (Inr (), f)
      | Inl e \<Rightarrow> (Inl (UIo e), f)
      | Inr b \<Rightarrow>
          (case um_from_slice C b of
             None \<Rightarrow> (Inl UJson, f)
           | Some meta \<Rightarrow>
               write_meta C now L repo (meta\<lparr>um_bytes_received := n, um_last_seen := now\<rparr>) f))"

definition create_session :: "upload_codec \<Rightarrow> clock \<Rightarrow> string \<Rightarrow> upload_store \<Rightarrow> fs \<Rightarrow>
    (upload_error + string) \<times> upload_store \<times> fs" where
  "create_session C ck repo T f =
     (let session = new_session_id ck;
          udir = uploads_dir (up_layout T) repo in
      case fs_create_dir_all udir f of
        (Inl e, f1) \<Rightarrow> (Inl (UIo e), T, f1)
      | (Inr _, f1) \<Rightarrow>
     (let data_path = path_join udir (data_name session) in
      case fs_create (wall ck) data_path f1 of
        (Inl e, f2) \<Rightarrow> (Inl (UIo e), T, f2)
      | (Inr _, f2) \<Rightarrow>
     (let meta = \<lparr>um_session = session, um_repo = repo, um_bytes_received = 0,
                  um_started_at = wall ck, um_last_seen = wall ck\<rparr> in
      case write_meta C (wall ck) (up_layout T) repo meta f2 of
        (Inl e, f3) \<Rightarrow> (Inl e, T, f3)
      | (Inr _, f3) \<Rightarrow>
          (let st = \<lparr>us_meta = meta, us_hasher = [], us_data_path = data_path, us_finalized = False\<rparr>
           in (Inr session,
               T\<lparr>up_sessions := dm_insert (repo, session) st (up_sessions T)\<rparr>, f3)))))"

text \<open>The update of the session under its lock, once the chunk is on disk.\<close>

definition account :: "nat \<Rightarrow> bytes \<Rightarrow> upload_state \<Rightarrow> upload_state" where
  "account now chunk st =
     st\<lparr>us_hasher := us_hasher st @ chunk,
        us_meta := (us_meta st)\<lparr>um_bytes_received := sat_add (um_bytes_received (us_meta st)) (len_u64 chunk),
                                um_last_seen := now\<rparr>\<rparr>"

definition upload_append :: "upload_codec \<Rightarrow> clock \<Rightarrow> string \<Rightarrow> string \<Rightarrow> bytes \<Rightarrow> upload_store \<Rightarrow> fs \<Rightarrow>
    (upload_error + u64) \<times> upload_store \<times> fs" where
  "upload_append C ck repo session chunk T f =
     (case dm_get (up_sessions T) (repo, session) of
        None \<Rightarrow> (Inl (UNotFound session), T, f)
      | Some st \<Rightarrow>
          if us_finalized st then (Inl UAlreadyFinalized, T, f)
          else case fs_append (wall ck) (us_data_path st) chunk f of
                 (Inl e, f1) \<Rightarrow> (Inl (UIo e), T, f1)
               | (Inr _, f1) \<Rightarrow>
                   (let st' = account (wall ck) chunk st;
                        T' = T\<lparr>up_sessions := dm_insert (repo, session) st' (up_sessions T)\<rparr>;
                        new_total = um_bytes_received (us_meta st')
                    in case write_meta_for C (wall ck) (up_layout T) repo session new_total f1 of
                         (_, f2) \<Rightarrow> (Inr new_total, T', f2)))"

text \<open>\<^verbatim>\<open>finalize\<close> after the last chunk has been appended.\<close>

definition finalize_rename :: "(bytes \<Rightarrow> string) \<Rightarrow> string \<Rightarrow> string \<Rightarrow> digest \<Rightarrow> upload_store \<Rightarrow> fs \<Rightarrow>
    (upload_error + path \<times> u64) \<times> upload_store \<times> fs" where
  "finalize_rename sha repo session expected T f =
     (case dm_get (up_sessions T) (repo, session) of
        None \<Rightarrow> (Inl (UNotFound session), T, f)
      | Some st \<Rightarrow>
          if us_finalized st then (Inl UAlreadyFinalized, T, f)
          else
            let hx = sha (us_hasher st); total = um_bytes_received (us_meta st) in
            if hx \<noteq> hex expected
            then (Inl (UDigestMismatch (digest_to_string expected) (''sha256:'' @ hx)), T, f)
            else
              let final_path = blob_path (up_layout T) repo expected in
              case fs_create_dir_all (butlast final_path) f of
                (Inl e, f1) \<Rightarrow> (Inl (UIo e), T, f1)
              | (Inr _, f1) \<Rightarrow>
              (case fs_rename (us_data_path st) final_path f1 of
                 (Inl e, f2) \<Rightarrow> (Inl (UIo e), T, f2)
               | (Inr _, f2) \<Rightarrow>
                   (case fs_remove_file (meta_path (up_layout T) repo session) f2 of
                      (_, f3) \<Rightarrow>
                        (Inr (final_path, total),
                         T\<lparr>up_sessions := dm_remove (repo, session) (up_sessions T)\<rparr>, f3))))"

definition upload_finalize :: "upload_codec \<Rightarrow> (bytes \<Rightarrow> string) \<Rightarrow> clock \<Rightarrow> string \<Rightarrow> string \<Rightarrow>
    bytes option \<Rightarrow> digest \<Rightarrow> upload_store \<Rightarrow> fs \<Rightarrow>
    (upload_error + path \<times> u64) \<times> upload_store \<times> fs" where
  "upload_finalize C sha ck repo session last_chunk expected T f =
     (case last_chunk of
        None \<Rightarrow> finalize_rename sha repo session expected T f
      | Some chunk \<Rightarrow>
          if chunk = [] then finalize_rename sha repo session expected T f
          else case upload_append C ck repo session chunk T f of
                 (Inl e, T1, f1) \<Rightarrow> (Inl e, T1, f1)
               | (Inr _, T1, f1) \<Rightarrow> finalize_rename sha repo session expected T1 f1)"

definition upload_abort :: "string \<Rightarrow> string \<Rightarrow> upload_store \<Rightarrow> fs \<Rightarrow>
    (upload_error + unit) \<times> upload_store \<times> fs" where
  "upload_abort repo session T f =
     (case dm_get (up_sessions T) (repo, session) of
        None \<Rightarrow>
          (case fs_remove_file (meta_path (up_layout T) repo session) f of (_, f1) \<Rightarrow> (Inr (), T, f1))
      | Some st \<Rightarrow>
          (case fs_remove_file (us_data_path st) f of (_, f1) \<Rightarrow>
          (case fs_remove_file (meta_path (up_layout T) repo session) f1 of (_, f2) \<Rightarrow>
             (Inr (), T\<lparr>up_sessions := dm_remove (repo, session) (up_sessions T)\<rparr>, f2))))"

text \<open>
  \<^verbatim>\<open>sweep_uploads_dir\<close>: the modification times of directories, which the file system model does
  not keep, are the argument \<open>dmt\<close>.
\<close>

fun node_mtime :: "(path \<Rightarrow> nat) \<Rightarrow> path \<Rightarrow> fnode \<Rightarrow> nat" where
  "node_mtime dmt p (FFile b t) = t"
| "node_mtime dmt p FDir = dmt p"

fun sweep_files :: "(path \<Rightarrow> nat) \<Rightarrow> nat \<Rightarrow> nat \<Rightarrow> path \<Rightarrow> (string \<times> fnode) list \<Rightarrow> bool \<Rightarrow> nat \<Rightarrow> fs \<Rightarrow>
    (upload_error + nat) \<times> fs" where
  "sweep_files dmt now max_age dir [] bad removed f =
     ((if bad then Inl (UIo EOther) else Inr removed), f)"
| "sweep_files dmt now max_age dir ((name, _) # es) bad removed f =
     (let p = dir @ [name] in
      case fs_metadata p f of
        Inl e \<Rightarrow> (Inl (UIo e), f)
      | Inr md \<Rightarrow>
          (if max_age < now - node_mtime dmt p md
           then case fs_remove_file p f of
                  (_, f1) \<Rightarrow> sweep_files dmt now max_age dir es bad (removed + 1) f1
           else sweep_files dmt now max_age dir es bad removed f))"

definition sweep_uploads_dir :: "(path \<Rightarrow> nat) \<Rightarrow> nat \<Rightarrow> nat \<Rightarrow> path \<Rightarrow> fs \<Rightarrow> (upload_error + nat) \<times> fs" where
  "sweep_uploads_dir dmt now max_age dir f =
     (case fs_read_dir dir f of
        Inl e \<Rightarrow> (Inl (UIo e), f)
      | Inr (es, bad) \<Rightarrow> sweep_files dmt now max_age dir es bad 0 f)"

text \<open>The inner loop of \<^verbatim>\<open>sweep\<close>: one directory's entries; the subdirectories to visit are pushed.\<close>

fun sweep_entries :: "(path \<Rightarrow> nat) \<Rightarrow> nat \<Rightarrow> nat \<Rightarrow> path \<Rightarrow> (string \<times> fnode) list \<Rightarrow> bool \<Rightarrow>
    path list \<Rightarrow> nat \<Rightarrow> fs \<Rightarrow> (upload_error + path list \<times> nat) \<times> fs" where
  "sweep_entries dmt now max_age dir [] bad stack removed f =
     ((if bad then Inl (UIo EOther) else Inr (stack, removed)), f)"
| "sweep_entries dmt now max_age dir ((fname, _) # es) bad stack removed f =
     (let p = dir @ [fname] in
      if \<not> fs_is_dir p f then sweep_entries dmt now max_age dir es bad stack removed f
      else if fname = ''blobs'' then sweep_entries dmt now max_age dir es bad stack removed f
      else if fname = ''_uploads'' then
        (case sweep_uploads_dir dmt now max_age p f of
           (Inr n, f1) \<Rightarrow> sweep_entries dmt now max_age dir es bad stack (removed + n) f1
         | (Inl _, f1) \<Rightarrow> sweep_entries dmt now max_age dir es bad stack removed f1)
      else if fname \<noteq> ''_quill'' then sweep_entries dmt now max_age dir es bad (p # stack) removed f
      else sweep_entries dmt now max_age dir es bad stack removed f)"

lemma nodes_remove: "set (nodes (snd (fs_remove_file p f))) \<subseteq> set (nodes f)"
  by (auto simp: fs_remove_file_def drop_node_def AList.delete_eq split: option.splits fnode.splits)

lemma nodes_sweep_files: "set (nodes (snd (sweep_files dmt now ma dir es bad n f))) \<subseteq> set (nodes f)"
proof (induction dmt now ma dir es bad n f rule: sweep_files.induct)
  case (2 dmt now ma dir name x es bad removed f)
  then show ?case
    using nodes_remove [of "dir @ [name]" f] by (auto simp: Let_def split: sum.splits prod.splits) blast+
qed simp

lemma nodes_sweep_dir: "set (nodes (snd (sweep_uploads_dir dmt now ma dir f))) \<subseteq> set (nodes f)"
  using nodes_sweep_files by (auto simp: sweep_uploads_dir_def split: sum.splits)

lemma fs_depth_mono: "set (nodes g) \<subseteq> set (nodes f) \<Longrightarrow> fs_depth g \<le> fs_depth f"
  unfolding fs_depth_def by (rule Max_mono) auto

lemma nodes_sweep_entries:
  "set (nodes (snd (sweep_entries dmt now ma dir es bad st n f))) \<subseteq> set (nodes f)"
proof (induction dmt now ma dir es bad st n f rule: sweep_entries.induct)
  case (2 dmt now ma dir fname x es bad stack removed f)
  show ?case
    using nodes_sweep_dir [of dmt now ma "dir @ [fname]" f] 2
    by (auto simp: Let_def split: sum.splits prod.splits) blast+
qed simp

lemma sweep_entries_pushed:
  "sweep_entries dmt now ma dir es bad st n f = (Inr (st', n'), f') \<Longrightarrow> \<forall>(c, x) \<in> set es. c \<noteq> ''..'' \<Longrightarrow>
   \<exists>ps. st' = ps @ st \<and> (\<forall>p \<in> set ps. length (resolve p) = Suc (length (resolve dir)) \<and> length (resolve p) \<le> fs_depth f)"
proof (induction dmt now ma dir es bad st n f arbitrary: st' n' f' rule: sweep_entries.induct)
  case (2 dmt now ma dir fname x es bad stack removed f)
  let ?p = "dir @ [fname]"
  have r: "resolve ?p = resolve dir @ [fname]" using 2(8) by (simp add: resolve_snoc walk_comp_def)
  have es: "\<forall>(c, x) \<in> set es. c \<noteq> ''..''" using 2(8) by simp
  consider (skip) "\<not> fs_is_dir ?p f \<or> fname = ''blobs'' \<or> fname = ''_quill''"
    | (up) "fs_is_dir ?p f" "fname = ''_uploads''"
    | (push) "fs_is_dir ?p f" "fname \<notin> {''blobs'', ''_uploads'', ''_quill''}" by blast
  then show ?case
  proof cases
    case skip
    with 2(7) have "sweep_entries dmt now ma dir es bad stack removed f = (Inr (st', n'), f')"
      by (auto simp: Let_def split: if_splits)
    then show ?thesis using 2(1,2,6) [of ?p st' n' f'] skip es by (auto simp del: sweep_entries.simps)
  next
    case up
    obtain u f1 where u: "sweep_uploads_dir dmt now ma ?p f = (u, f1)" by fastforce
    have d: "fs_depth f1 \<le> fs_depth f"
      using nodes_sweep_dir [of dmt now ma ?p f] u by (simp add: fs_depth_mono)
    have "\<exists>ps. st' = ps @ stack \<and> (\<forall>p \<in> set ps. length (resolve p) = Suc (length (resolve dir)) \<and> length (resolve p) \<le> fs_depth f1)"
    proof (cases u)
      case (Inl e)
      from 2(7) up u Inl have "sweep_entries dmt now ma dir es bad stack removed f1 = (Inr (st', n'), f')"
        by (simp add: Let_def)
      from 2(3) [OF refl _ _ _ u [symmetric] Inl this es] up show ?thesis by simp
    next
      case (Inr k)
      from 2(7) up u Inr have "sweep_entries dmt now ma dir es bad stack (removed + k) f1 = (Inr (st', n'), f')"
        by (simp add: Let_def)
      from 2(4) [OF refl _ _ _ u [symmetric] Inr this es] up show ?thesis by simp
    qed
    with d show ?thesis by fastforce
  next
    case push
    then have "lookup f (resolve ?p) = Some FDir" by (auto simp: fs_is_dir_def dest: metadata_Inr)
    then have "length (resolve ?p) \<le> fs_depth f" by (rule lookup_depth)
    moreover obtain ps where "st' = ps @ ?p # stack"
      "\<forall>p \<in> set ps. length (resolve p) = Suc (length (resolve dir)) \<and> length (resolve p) \<le> fs_depth f"
      using 2(5) [of ?p st' n' f'] 2(7) es push by auto
    ultimately show ?thesis using r by (intro exI [of _ "ps @ [?p]"]) auto
  qed
qed (simp split: if_splits)

function (sequential) sweep_loop :: "(path \<Rightarrow> nat) \<Rightarrow> nat \<Rightarrow> nat \<Rightarrow> path list \<Rightarrow> nat \<Rightarrow> fs \<Rightarrow>
    (upload_error + nat) \<times> fs" where
  "sweep_loop dmt now max_age [] removed f = (Inr removed, f)"
| "sweep_loop dmt now max_age (dir # stack) removed f =
     (case fs_read_dir dir f of
        Inl _ \<Rightarrow> sweep_loop dmt now max_age stack removed f
      | Inr (es, bad) \<Rightarrow>
          (case sweep_entries dmt now max_age dir es bad stack removed f of
             (Inl e, f1) \<Rightarrow> (Inl e, f1)
           | (Inr (stack', removed'), f1) \<Rightarrow> sweep_loop dmt now max_age stack' removed' f1))"
  by pat_completeness auto

text \<open>Each directory is replaced on the stack by deeper ones, and nothing is ever added to the tree.\<close>

lemma sweep_stack_decreases:
  assumes rd: "fs_read_dir dir f = Inr (es, bad)"
    and se: "sweep_entries dmt now ma dir es bad stack n f = (Inr (stack', n'), f1)"
  shows "fs_depth f1 < fs_depth f \<or> fs_depth f1 = fs_depth f \<and>
    (mset (map (\<lambda>d. Suc (fs_depth f1) - length (resolve d)) stack'),
     mset (map (\<lambda>d. Suc (fs_depth f) - length (resolve d)) (dir # stack))) \<in> mult less_than"
proof -
  have "fs_depth f1 \<le> fs_depth f"
    using nodes_sweep_entries [of dmt now ma dir es bad stack n f] se by (simp add: fs_depth_mono)
  moreover have "\<forall>(c, x) \<in> set es. c \<noteq> ''..''"
    using rd by (auto simp: fs_read_dir_def split: if_splits option.splits fnode.splits
        dest!: in_set_takeD child_name)
  with sweep_entries_pushed [OF se] obtain ps where ps: "stack' = ps @ stack"
    "\<forall>p \<in> set ps. length (resolve p) = Suc (length (resolve dir)) \<and> length (resolve p) \<le> fs_depth f" by blast
  let ?m = "\<lambda>d. Suc (fs_depth f) - length (resolve d)"
  have "(mset (map ?m stack) + mset (map ?m ps), mset (map ?m stack) + {#?m dir#}) \<in> mult less_than"
    using ps(2) by (intro one_step_implies_mult) fastforce+
  then have "(mset (map ?m stack'), mset (map ?m (dir # stack))) \<in> mult less_than"
    by (simp add: ps(1) union_commute)
  ultimately show ?thesis by (cases "fs_depth f1 = fs_depth f") auto
qed

termination sweep_loop
proof (relation "inv_image (less_than <*lex*> mult less_than)
    (\<lambda>(dmt, now, ma, stack, n, f). (fs_depth f, mset (map (\<lambda>d. Suc (fs_depth f) - length (resolve d)) stack)))")
  show "wf (inv_image (less_than <*lex*> mult less_than)
    (\<lambda>(dmt :: path \<Rightarrow> nat, now :: nat, ma :: nat, stack, n :: nat, f).
       (fs_depth f, mset (map (\<lambda>d. Suc (fs_depth f) - length (resolve d)) stack))))"
    by (intro wf_inv_image wf_lex_prod wf_mult wf_less_than)
next
  fix dmt :: "path \<Rightarrow> nat" and now ma n :: nat and dir stack f and e :: io_error
  have "(mset (map (\<lambda>d. Suc (fs_depth f) - length (resolve d)) stack) + {#},
     mset (map (\<lambda>d. Suc (fs_depth f) - length (resolve d)) stack) + {#Suc (fs_depth f) - length (resolve dir)#}) \<in> mult less_than"
    by (rule one_step_implies_mult) auto
  then show "((dmt, now, ma, stack, n, f), dmt, now, ma, dir # stack, n, f)
    \<in> inv_image (less_than <*lex*> mult less_than)
      (\<lambda>(dmt, now, ma, stack, n, f). (fs_depth f, mset (map (\<lambda>d. Suc (fs_depth f) - length (resolve d)) stack)))"
    by simp
next
  fix dmt :: "path \<Rightarrow> nat" and now ma n :: nat and dir stack f y es bad x f1 z stack' n'
  assume "fs_read_dir dir f = Inr y" "(es, bad) = y"
    "(x, f1) = sweep_entries dmt now ma dir es bad stack n f" "x = Inr z" "(stack', n') = z"
  then show "((dmt, now, ma, stack', n', f1), dmt, now, ma, dir # stack, n, f)
    \<in> inv_image (less_than <*lex*> mult less_than)
      (\<lambda>(dmt, now, ma, stack, n, f). (fs_depth f, mset (map (\<lambda>d. Suc (fs_depth f) - length (resolve d)) stack)))"
    using sweep_stack_decreases [of dir f es bad dmt now ma stack n stack' n' f1] by auto
qed

definition sweep :: "(path \<Rightarrow> nat) \<Rightarrow> nat \<Rightarrow> nat \<Rightarrow> upload_store \<Rightarrow> fs \<Rightarrow> (upload_error + nat) \<times> fs" where
  "sweep dmt now max_age T f =
     (let cache_root = root (up_layout T) in
      if \<not> fs_exists cache_root f then (Inr 0, f)
      else sweep_loop dmt now max_age [cache_root] 0 f)"

section \<open>The files of a session\<close>

lemma split_on_suffix: "c \<notin> set x \<Longrightarrow> \<exists>p w. split_on c (s @ x) = p @ [w @ x]"
proof (induction s)
  case Nil
  then show ?case by (auto simp: split_on_single)
next
  case (Cons a s)
  then obtain p w where pw: "split_on c (s @ x) = p @ [w @ x]" by blast
  show ?case
  proof (cases "a = c")
    case True
    with pw show ?thesis by (auto intro: exI [of _ "[] # p"])
  next
    case False
    with pw show ?thesis
    proof (cases p)
      case Nil
      with False pw show ?thesis by (auto intro: exI [of _ "[]"] exI [of _ "a # w"])
    next
      case (Cons y ys)
      with False pw show ?thesis by (auto intro: exI [of _ "(a # y) # ys"])
    qed
  qed
qed

lemma path_join_suffix:
  assumes "CHR ''/'' \<notin> set x" and "2 < length x"
  obtains p' w where "path_join p (s @ x) = p' @ [w @ x]"
proof -
  from split_on_suffix [OF assms(1)] obtain q w where "split_on (CHR ''/'') (s @ x) = q @ [w @ x]" by blast
  moreover have "w @ x \<noteq> []" "w @ x \<noteq> ''.''"
    using assms(2) by (auto simp: append_eq_Cons_conv)
  ultimately have "comps (s @ x) = filter (\<lambda>c. c \<noteq> [] \<and> c \<noteq> ''.'') q @ [w @ x]" by (simp add: comps_def)
  then show thesis by (intro that [of "(if starts_with ''/'' (s @ x) then [] else p) @ _" w]) (simp add: path_join_def)
qed

text \<open>Metadata files and their temporary files, by name.\<close>

definition is_meta_file :: "path \<Rightarrow> bool" where
  "is_meta_file q \<longleftrightarrow> (\<exists>p w. q = p @ [w @ ''.meta.json''] \<or> q = p @ [w @ ''.meta.json.tmp''])"

lemma meta_path_file:
  "is_meta_file (resolve (meta_path L repo s))"
  "is_meta_file (resolve (with_extension (meta_path L repo s) ''json.tmp''))"
proof -
  obtain p w where m: "meta_path L repo s = p @ [w @ ''.meta.json'']"
    unfolding meta_path_def meta_name_def by (rule path_join_suffix [of "''.meta.json''"]) auto
  have "w @ ''.meta.json'' \<noteq> ''..''" "w @ ''.meta.json.tmp'' \<noteq> ''..''" by (auto simp: append_eq_Cons_conv)
  moreover have "with_ext (w @ ''.meta.json'') ''json.tmp'' = w @ ''.meta.json.tmp''"
    using with_ext_simple [of "''json''" "w @ ''.meta''" "''json.tmp''"] by simp
  ultimately show "is_meta_file (resolve (meta_path L repo s))"
    "is_meta_file (resolve (with_extension (meta_path L repo s) ''json.tmp''))"
    by (auto simp: m with_extension_def resolve_snoc walk_comp_def is_meta_file_def)
qed

lemma meta_not_slot [simp]: "is_meta_file q \<Longrightarrow> \<not> is_slot q"
proof -
  have "\<not> hex64 (w @ ''.meta.json'')" "\<not> hex64 (w @ ''.meta.json.tmp'')" for w
    by (auto simp: hex64_def is_lower_hexdigit_def)
  then show "is_meta_file q \<Longrightarrow> \<not> is_slot q"
    by (auto simp: is_meta_file_def not_hex64_not_slot)
qed

lemma session_chars: "c \<in> set (new_session_id ck) \<Longrightarrow> c \<in> set ''0123456789abcdef''"
  by (auto simp: new_session_id_def Let_def simp del: set_simps dest!: hex16_chars)

lemma data_name_plain [simp]: "plain_name (data_name (new_session_id ck))"
  using session_chars [of "CHR ''/''" ck] by (auto simp: plain_name_def data_name_def append_eq_Cons_conv)

lemma data_not_meta [simp]: "\<not> is_meta_file (p @ [data_name s])"
proof -
  have "last (s @ ''.data'') \<noteq> last (w @ ''.meta.json'')" "last (s @ ''.data'') \<noteq> last (w @ ''.meta.json.tmp'')" for w
    by simp_all
  then have "s @ ''.data'' \<noteq> w @ ''.meta.json''" "s @ ''.data'' \<noteq> w @ ''.meta.json.tmp''" for w
    by metis+
  then show ?thesis by (auto simp: is_meta_file_def data_name_def)
qed

section \<open>What the operations touch\<close>

lemma write_meta_call: "fs_call (write_meta C now L repo m) (Collect is_meta_file)"
proof (cases "um_to_vec C m")
  case None
  then show ?thesis by (simp add: write_meta_def [abs_def] Let_def fs_call_return)
next
  case (Some body)
  have "fs_call (fs_replace now (with_extension (meta_path L repo (um_session m)) ''json.tmp'')
      (meta_path L repo (um_session m)) body) (Collect is_meta_file)"
    by (rule sys_replace.widen) (simp add: meta_path_file)
  then show ?thesis
    unfolding write_meta_def [abs_def] Let_def Some option.case by (intro fs_call_try fs_call_return)
qed

lemma write_meta_for_call: "fs_call (write_meta_for C now L repo s n) (Collect is_meta_file)"
proof (rule fs_call_pick)
  fix f
  have "write_meta_for C now L repo s n f \<in> range (\<lambda>r. (r, f)) \<or>
      (\<exists>m. write_meta_for C now L repo s n f = write_meta C now L repo m f)"
    by (auto simp: write_meta_for_def split: sum.splits io_error.splits option.splits)
  then show "\<exists>c. fs_call c (Collect is_meta_file) \<and> write_meta_for C now L repo s n f = c f"
    using write_meta_call fs_call_return by fast
qed

lemma append_cases:
  obtains (missing) "dm_get (up_sessions T) (repo, s) = None"
      "upload_append C ck repo s chunk T f = (Inl (UNotFound s), T, f)"
  | (finalized) st where "dm_get (up_sessions T) (repo, s) = Some st" "us_finalized st"
      "upload_append C ck repo s chunk T f = (Inl UAlreadyFinalized, T, f)"
  | (io) st e f1 where "dm_get (up_sessions T) (repo, s) = Some st" "\<not> us_finalized st"
      "fs_append (wall ck) (us_data_path st) chunk f = (Inl e, f1)"
      "upload_append C ck repo s chunk T f = (Inl (UIo e), T, f1)"
  | (stored) st f1 f2 x where "dm_get (up_sessions T) (repo, s) = Some st" "\<not> us_finalized st"
      "fs_append (wall ck) (us_data_path st) chunk f = (Inr (), f1)"
      "write_meta_for C (wall ck) (up_layout T) repo s
         (um_bytes_received (us_meta (account (wall ck) chunk st))) f1 = (x, f2)"
      "upload_append C ck repo s chunk T f =
         (Inr (um_bytes_received (us_meta (account (wall ck) chunk st))),
          T\<lparr>up_sessions := dm_insert (repo, s) (account (wall ck) chunk st) (up_sessions T)\<rparr>, f2)"
proof (cases "dm_get (up_sessions T) (repo, s)")
  case None
  with missing show thesis by (simp add: upload_append_def)
next
  case (Some st)
  show thesis
  proof (cases "us_finalized st")
    case True
    with Some finalized show thesis by (simp add: upload_append_def)
  next
    case False
    obtain a f1 where a: "fs_append (wall ck) (us_data_path st) chunk f = (a, f1)" by fastforce
    obtain x f2 where "write_meta_for C (wall ck) (up_layout T) repo s
         (um_bytes_received (us_meta (account (wall ck) chunk st))) f1 = (x, f2)" by fastforce
    with Some False a io stored show thesis by (cases a) (auto simp: upload_append_def Let_def)
  qed
qed

lemma account_simps [simp]:
  "us_hasher (account now c st) = us_hasher st @ c" "us_data_path (account now c st) = us_data_path st"
  "us_finalized (account now c st) = us_finalized st"
  "um_bytes_received (us_meta (account now c st)) = sat_add (um_bytes_received (us_meta st)) (len_u64 c)"
  by (simp_all add: account_def)

text \<open>The files a session may write before it commits.\<close>

definition session_files :: "upload_store \<Rightarrow> string \<Rightarrow> string \<Rightarrow> path set" where
  "session_files T repo s = Collect is_meta_file \<union>
     (case dm_get (up_sessions T) (repo, s) of None \<Rightarrow> {} | Some st \<Rightarrow> {resolve (us_data_path st)})"

lemma append_call: "fs_call (paired (upload_append C ck repo s chunk T)) (session_files T repo s)"
proof (cases "dm_get (up_sessions T) (repo, s)")
  case None
  then show ?thesis by (simp add: paired_def [abs_def] upload_append_def fs_call_return)
next
  case (Some st)
  let ?st = "account (wall ck) chunk st"
  let ?T = "T\<lparr>up_sessions := dm_insert (repo, s) ?st (up_sessions T)\<rparr>"
  have a: "fs_call (fs_append (wall ck) (us_data_path st) chunk) (session_files T repo s)"
    by (rule sys_append.widen) (simp add: session_files_def Some)
  have m: "fs_call (write_meta_for C (wall ck) (up_layout T) repo s n) (session_files T repo s)" for n
    by (rule fs_call.widen [OF write_meta_for_call]) (simp add: session_files_def)
  have "fs_call (\<lambda>f. case fs_append (wall ck) (us_data_path st) chunk f of (Inl e, f1) \<Rightarrow> ((Inl (UIo e), T), f1)
      | (Inr _, f1) \<Rightarrow> (case write_meta_for C (wall ck) (up_layout T) repo s (um_bytes_received (us_meta ?st)) f1 of
          (_, f2) \<Rightarrow> ((Inr (um_bytes_received (us_meta ?st)), ?T), f2))) (session_files T repo s)"
    by (intro fs_call_try a fs_call_seq m fs_call_return)
  moreover have "paired (upload_append C ck repo s chunk T) =
      (\<lambda>f. if us_finalized st then ((Inl UAlreadyFinalized, T), f) else
       case fs_append (wall ck) (us_data_path st) chunk f of (Inl e, f1) \<Rightarrow> ((Inl (UIo e), T), f1)
      | (Inr _, f1) \<Rightarrow> (case write_meta_for C (wall ck) (up_layout T) repo s (um_bytes_received (us_meta ?st)) f1 of
          (_, f2) \<Rightarrow> ((Inr (um_bytes_received (us_meta ?st)), ?T), f2)))"
    by (rule ext) (simp add: paired_def upload_append_def Some Let_def split: prod.splits sum.splits)
  ultimately show ?thesis
    by (cases "us_finalized st") (simp_all only: if_True if_False fs_call_return)
qed

lemma finalize_cases:
  obtains (missing) "dm_get (up_sessions T) (repo, s) = None"
      "finalize_rename sha repo s d T f = (Inl (UNotFound s), T, f)"
  | (finalized) st where "dm_get (up_sessions T) (repo, s) = Some st" "us_finalized st"
      "finalize_rename sha repo s d T f = (Inl UAlreadyFinalized, T, f)"
  | (mismatch) st where "dm_get (up_sessions T) (repo, s) = Some st" "\<not> us_finalized st"
      "sha (us_hasher st) \<noteq> hex d"
      "finalize_rename sha repo s d T f =
         (Inl (UDigestMismatch (digest_to_string d) (''sha256:'' @ sha (us_hasher st))), T, f)"
  | (mkdir) st e f1 where "dm_get (up_sessions T) (repo, s) = Some st" "\<not> us_finalized st"
      "fs_create_dir_all (butlast (blob_path (up_layout T) repo d)) f = (Inl e, f1)"
      "finalize_rename sha repo s d T f = (Inl (UIo e), T, f1)"
  | (rename) st e f1 f2 where "dm_get (up_sessions T) (repo, s) = Some st" "\<not> us_finalized st"
      "fs_create_dir_all (butlast (blob_path (up_layout T) repo d)) f = (Inr (), f1)"
      "fs_rename (us_data_path st) (blob_path (up_layout T) repo d) f1 = (Inl e, f2)"
      "finalize_rename sha repo s d T f = (Inl (UIo e), T, f2)"
  | (committed) st f1 f2 where "dm_get (up_sessions T) (repo, s) = Some st" "\<not> us_finalized st"
      "sha (us_hasher st) = hex d"
      "fs_create_dir_all (butlast (blob_path (up_layout T) repo d)) f = (Inr (), f1)"
      "fs_rename (us_data_path st) (blob_path (up_layout T) repo d) f1 = (Inr (), f2)"
      "finalize_rename sha repo s d T f =
         (Inr (blob_path (up_layout T) repo d, um_bytes_received (us_meta st)),
          T\<lparr>up_sessions := dm_remove (repo, s) (up_sessions T)\<rparr>,
          snd (fs_remove_file (meta_path (up_layout T) repo s) f2))"
proof (cases "dm_get (up_sessions T) (repo, s)")
  case None
  with missing show thesis by (simp add: finalize_rename_def)
next
  case (Some st)
  let ?b = "blob_path (up_layout T) repo d"
  obtain m f1 where m: "fs_create_dir_all (butlast ?b) f = (m, f1)" by fastforce
  obtain r f2 where r: "fs_rename (us_data_path st) ?b f1 = (r, f2)" by fastforce
  show thesis
  proof (cases "us_finalized st \<or> sha (us_hasher st) \<noteq> hex d")
    case True
    with Some finalized mismatch show thesis by (cases "us_finalized st") (auto simp: finalize_rename_def Let_def)
  next
    case False
    then have nf: "\<not> us_finalized st" and h: "sha (us_hasher st) = hex d" by auto
    show thesis
    proof (cases m)
      case (Inl e)
      with Some nf h m show thesis by (intro mkdir) (auto simp: finalize_rename_def Let_def)
    next
      case mr: (Inr u)
      show thesis
      proof (cases r)
        case (Inl e)
        with Some nf h m mr r show thesis by (intro rename) (auto simp: finalize_rename_def Let_def)
      next
        case (Inr v)
        with Some nf h m mr r show thesis
          by (intro committed) (auto simp: finalize_rename_def Let_def split: prod.splits)
      qed
    qed
  qed
qed

lemma finalize_rename_frame:
  assumes "q \<notin> session_files T repo s" and "q \<noteq> resolve (blob_path (up_layout T) repo d)"
  shows "file_at (snd (paired (finalize_rename sha repo s d T) f)) q = file_at f q"
proof (cases rule: finalize_cases [of T repo s sha d f])
  case (mkdir st e f1)
  then show ?thesis using sys_mkdir.frame [of q _ f] by (simp add: paired_def) (metis snd_conv)
next
  case (rename st e f1 f2)
  then show ?thesis
    using sys_mkdir.frame [of q _ f] by (auto simp: paired_def dest!: rename_Inl) (metis snd_conv)
next
  case (committed st f1 f2)
  have "q \<notin> {resolve (us_data_path st), resolve (blob_path (up_layout T) repo d)}"
    using assms committed(1) by (auto simp: session_files_def)
  then have "file_at f2 q = file_at f1 q" "file_at f1 q = file_at f q"
    using sys_rename.frame [of q _ _ f1] sys_mkdir.frame [of q _ f] committed(4,5) by (metis empty_iff snd_conv)+
  moreover have "q \<noteq> resolve (meta_path (up_layout T) repo s)"
    using assms(1) meta_path_file(1) by (auto simp: session_files_def)
  ultimately show ?thesis using committed(6) sys_remove.frame [of q] by (simp add: paired_def)
qed (simp_all add: paired_def)

text \<open>
  The session's running hash has seen exactly the bytes of its data file (which the sweep of another
  process may have removed); its data file is neither a blob nor a metadata file.
\<close>

definition session_synced :: "upload_store \<Rightarrow> string \<Rightarrow> string \<Rightarrow> fs \<Rightarrow> bool" where
  "session_synced T repo s f \<longleftrightarrow> (\<forall>st. dm_get (up_sessions T) (repo, s) = Some st \<longrightarrow>
     \<not> is_slot (resolve (us_data_path st)) \<and> \<not> is_meta_file (resolve (us_data_path st)) \<and>
     (file_at f (resolve (us_data_path st)) = None \<or> file_at f (resolve (us_data_path st)) = Some (us_hasher st)))"

lemma append_stored_file:
  assumes sy: "session_synced T repo s f" and "upload_append C ck repo s chunk T f = (Inr n, T', f')"
  obtains st where "dm_get (up_sessions T) (repo, s) = Some st"
    "dm_get (up_sessions T') (repo, s) = Some (account (wall ck) chunk st)"
    "file_at f (resolve (us_data_path st)) = Some (us_hasher st)"
    "file_at f' (resolve (us_data_path st)) = Some (us_hasher st @ chunk)"
    "up_layout T' = up_layout T"
proof (cases rule: append_cases [of T repo s C ck chunk f])
  case (stored st f1 f2 x)
  let ?p = "us_data_path st"
  from stored(3) obtain b t where b: "lookup f (resolve ?p) = Some (FFile b t)"
    "lookup f1 (resolve ?p) = Some (FFile (b @ chunk) (wall ck))" by (elim append_Inr)
  have "f2 = f'" using stored(5) assms(2) by simp
  moreover have "\<not> is_meta_file (resolve ?p)" "b = us_hasher st"
    using sy stored(1) b(1) by (auto simp: session_synced_def file_at_def)
  ultimately show thesis
    using that [of st] b stored assms(2) fs_call.frame [OF write_meta_for_call, of "resolve ?p" C "wall ck" "up_layout T" repo s _ f1]
    by (auto simp: file_at_def) (metis option.simps(5) fnode.simps(6) file_at_def snd_conv)
qed (use assms in auto)

lemma append_synced:
  assumes "session_synced T repo s f" and "upload_append C ck repo s chunk T f = (Inr n, T', f')"
  shows "session_synced T' repo s f'"
  by (rule append_stored_file [OF assms]) (use assms(1) in \<open>auto simp: session_synced_def\<close>)

lemma append_keeps_session:
  assumes "upload_append C ck repo s chunk T f = (r, T', f')"
  shows "up_layout T' = up_layout T \<and> session_files T' repo s = session_files T repo s"
  using assms
  by (cases rule: append_cases [of T repo s C ck chunk f]) (auto simp: session_files_def)

lemma finalize_split:
  obtains (direct) "upload_finalize C sha ck repo s last_chunk d T f = finalize_rename sha repo s d T f"
      "last_chunk = None \<or> last_chunk = Some []"
  | (failed) c e T1 f1 where "last_chunk = Some c" "upload_append C ck repo s c T f = (Inl e, T1, f1)"
      "upload_finalize C sha ck repo s last_chunk d T f = (Inl e, T1, f1)"
  | (appended) c n T1 f1 where "last_chunk = Some c" "c \<noteq> []" "upload_append C ck repo s c T f = (Inr n, T1, f1)"
      "upload_finalize C sha ck repo s last_chunk d T f = finalize_rename sha repo s d T1 f1"
proof (cases "last_chunk = None \<or> last_chunk = Some []")
  case True
  with direct show thesis by (auto simp: upload_finalize_def)
next
  case False
  then obtain c where c: "last_chunk = Some c" "c \<noteq> []" by auto
  obtain r T1 f1 where "upload_append C ck repo s c T f = (r, T1, f1)" by (metis prod_cases3)
  with c failed appended show thesis by (cases r) (auto simp: upload_finalize_def)
qed

lemma finalize_frame:
  assumes "q \<notin> session_files T repo s" and "q \<noteq> resolve (blob_path (up_layout T) repo d)"
  shows "file_at (snd (paired (upload_finalize C sha ck repo s lc d T) f)) q = file_at f q"
proof (cases rule: finalize_split [of C sha ck repo s lc d T f])
  case direct
  with finalize_rename_frame [OF assms, of sha f] show ?thesis by (simp add: paired_def)
next
  case (failed c e T1 f1)
  with fs_call.frame [OF append_call assms(1), of C ck c f] show ?thesis by (simp add: paired_def)
next
  case (appended c n T1 f1)
  note k = append_keeps_session [OF appended(3)]
  have "file_at f1 q = file_at f q"
    using fs_call.frame [OF append_call assms(1), of C ck c f] appended(3) by (simp add: paired_def)
  with finalize_rename_frame [of q T1 repo s d sha f1] assms k appended(4) show ?thesis
    by (simp add: paired_def)
qed

lemma finalize_rename_failed:
  assumes "finalize_rename sha repo s d T f = (Inl e, T', f')"
  shows "T' = T \<and> file_at f' = file_at f"
proof -
  have "file_at (snd (fs_create_dir_all p f)) = file_at f" for p
    using sys_mkdir.frame [of _ p f] by auto
  with assms show ?thesis
    by (cases rule: finalize_cases [of T repo s sha d f]) (auto dest!: rename_Inl; metis snd_conv)+
qed

lemma finalize_rename_done:
  assumes "finalize_rename sha repo s d T f = (Inr x, T', f')" and wf: "wf_digest d"
  obtains st where "dm_get (up_sessions T) (repo, s) = Some st" "sha (us_hasher st) = hex d"
    "x = (blob_path (up_layout T) repo d, um_bytes_received (us_meta st))"
    "T' = T\<lparr>up_sessions := dm_remove (repo, s) (up_sessions T)\<rparr>"
    "file_at f' (resolve (blob_path (up_layout T) repo d)) = file_at f (resolve (us_data_path st))"
    "file_at f (resolve (us_data_path st)) \<noteq> None"
proof (cases rule: finalize_cases [of T repo s sha d f])
  case (committed st f1 f2)
  let ?b = "resolve (blob_path (up_layout T) repo d)"
  obtain c t where c: "lookup f1 (resolve (us_data_path st)) = Some (FFile c t)" "lookup f2 ?b = Some (FFile c t)"
    using committed(5) by (elim rename_Inr)
  have "file_at f1 (resolve (us_data_path st)) = file_at f (resolve (us_data_path st))"
    using sys_mkdir.frame [of "resolve (us_data_path st)" _ f] committed(4) by (metis empty_iff snd_conv)
  moreover have "is_slot ?b" using wf by (simp add: path_simps wf_digest_def)
  then have "?b \<noteq> resolve (meta_path (up_layout T) repo s)" using meta_path_file(1) meta_not_slot by metis
  then have "file_at (snd (fs_remove_file (meta_path (up_layout T) repo s) f2)) ?b = file_at f2 ?b"
    by (intro sys_remove.frame) simp
  moreover have "file_at f1 (resolve (us_data_path st)) = Some c" "file_at f2 ?b = Some c"
    using c by (simp_all add: file_at_def)
  ultimately have "file_at f (resolve (us_data_path st)) = Some c"
    "file_at (snd (fs_remove_file (meta_path (up_layout T) repo s) f2)) ?b = Some c" by simp_all
  then show thesis
    using that [of st] committed assms(1) by simp
qed (use assms in auto)

section \<open>Completing an upload commits\<close>

lemma target_not_session:
  "wf_digest d \<Longrightarrow> session_synced T repo s f \<Longrightarrow>
   resolve (blob_path (up_layout T) repo d) \<notin> session_files T repo s"
  by (auto simp: session_files_def session_synced_def path_simps wf_digest_def split: option.splits dest: meta_not_slot)
    (metis is_slot_slot meta_not_slot)+

lemma finalize_rename_commits:
  assumes "session_synced T repo s f" "wf_digest d" "finalize_rename sha repo s d T f = (Inr x, T', f')"
  shows "\<exists>b. file_at f' (resolve (blob_path (up_layout T) repo d)) = Some b \<and> sha b = hex d"
  by (rule finalize_rename_done [OF assms(3,2)]) (use assms(1) in \<open>auto simp: session_synced_def\<close>)

lemma finalize_failed_target:
  assumes t: "resolve (blob_path (up_layout T) repo d) \<notin> session_files T repo s"
    and fin: "upload_finalize C sha ck repo s lc d T f = (Inl e, T', f')"
  shows "file_at f' (resolve (blob_path (up_layout T) repo d)) = file_at f (resolve (blob_path (up_layout T) repo d))"
proof (cases rule: finalize_split [of C sha ck repo s lc d T f])
  case direct
  with fin finalize_rename_failed [of sha repo s d T f e T' f'] show ?thesis by simp
next
  case (failed c e T1 f1)
  with fs_call.frame [OF append_call t, of C ck c f] fin show ?thesis by (simp add: paired_def)
next
  case (appended c n T1 f1)
  with fs_call.frame [OF append_call t, of C ck c f] fin finalize_rename_failed [of sha repo s d T1 f1 e T' f']
  show ?thesis by (auto simp: paired_def)
qed

lemma finalize_commits:
  assumes ready: "wf_digest d" "session_synced T repo s f" and fin: "upload_finalize C sha ck repo s lc d T f = (Inr x, T', f')"
  shows "\<exists>b. file_at f' (resolve (blob_path (up_layout T) repo d)) = Some b \<and> sha b = hex d"
proof (cases rule: finalize_split [of C sha ck repo s lc d T f])
  case direct
  with fin ready finalize_rename_commits [of T repo s f d sha x T' f'] show ?thesis by simp
next
  case (appended c n T1 f1)
  with fin ready finalize_rename_commits [of T1 repo s f1 d sha x T' f'] append_synced [of T repo s f C ck c n T1 f1]
    append_keeps_session [of C ck repo s c T f _ T1 f1]
  show ?thesis by auto
qed (use fin in auto)

interpretation session: cas_commit sha "paired (upload_finalize C sha ck repo s lc d T)" "\<lambda>(r, T'). \<exists>x. r = Inr x"
  "\<lambda>f. wf_digest d \<and> session_synced T repo s f" "resolve (blob_path (up_layout T) repo d)" "rdir (up_layout T) repo" "hex d"
  "session_files T repo s" for sha C ck repo s lc d T
proof
  fix f assume "wf_digest d \<and> session_synced T repo s f"
  then show "hex64 (hex d) \<and> resolve (blob_path (up_layout T) repo d) = slot (rdir (up_layout T) repo) (hex d)"
    by (simp add: path_simps wf_digest_def)
next
  fix q f assume "wf_digest d \<and> session_synced T repo s f" "q \<in> session_files T repo s"
  then show "\<not> is_slot q" by (auto simp: session_synced_def session_files_def split: option.splits)
next
  fix q f assume "q \<notin> session_files T repo s" "q \<noteq> resolve (blob_path (up_layout T) repo d)"
  then show "file_at (snd (paired (upload_finalize C sha ck repo s lc d T) f)) q = file_at f q"
    by (rule finalize_frame)
next
  fix f
  assume "wf_digest d \<and> session_synced T repo s f"
    and n: "\<not> (case fst (paired (upload_finalize C sha ck repo s lc d T) f) of (r, T') \<Rightarrow> \<exists>x. r = Inr x)"
  then have t: "resolve (blob_path (up_layout T) repo d) \<notin> session_files T repo s"
    by (blast dest: target_not_session)
  obtain r T' f' where fin: "upload_finalize C sha ck repo s lc d T f = (r, T', f')" by (metis prod_cases3)
  with n obtain e where r: "r = Inl e" by (cases r) (auto simp: paired_def)
  with finalize_failed_target [OF t fin [unfolded r]] fin
  show "file_at (snd (paired (upload_finalize C sha ck repo s lc d T) f)) (resolve (blob_path (up_layout T) repo d)) =
      file_at f (resolve (blob_path (up_layout T) repo d))" by (simp add: paired_def)
next
  fix f
  assume ready: "wf_digest d \<and> session_synced T repo s f"
    and "case fst (paired (upload_finalize C sha ck repo s lc d T) f) of (r, T') \<Rightarrow> \<exists>x. r = Inr x"
  then obtain x T' f' where fin: "upload_finalize C sha ck repo s lc d T f = (Inr x, T', f')"
    by (auto simp: paired_def split: prod.splits)
  with finalize_commits [OF _ _ fin] ready
  show "\<exists>b. file_at (snd (paired (upload_finalize C sha ck repo s lc d T) f)) (resolve (blob_path (up_layout T) repo d)) =
      Some b \<and> sha b = hex d" by (simp add: paired_def)
qed

section \<open>The sweep\<close>

text \<open>Only files in an uploads directory that are older than the threshold disappear.\<close>

definition swept :: "nat \<Rightarrow> nat \<Rightarrow> fs \<Rightarrow> fs \<Rightarrow> bool" where
  "swept now ma f g \<longleftrightarrow> (\<forall>q. lookup g q = lookup f q \<or>
     lookup g q = None \<and> (\<exists>p c b t. q = p @ [''_uploads'', c] \<and> lookup f q = Some (FFile b t) \<and> ma < now - t))"

lemma swept_refl [simp]: "swept now ma f f"
  by (simp add: swept_def)

lemma swept_trans: "swept now ma f g \<Longrightarrow> swept now ma g h \<Longrightarrow> swept now ma f h"
  unfolding swept_def by (metis option.distinct(1))

lemma swept_remove:
  assumes "fs_metadata (dir @ [name]) f = Inr md" and "ma < now - node_mtime dmt (dir @ [name]) md"
    and r: "resolve dir = p @ [''_uploads'']" and "name \<noteq> ''..''"
  shows "swept now ma f (snd (fs_remove_file (dir @ [name]) f))"
proof (cases "fs_remove_file (dir @ [name]) f")
  case (Pair x g)
  have rp: "resolve (dir @ [name]) = p @ [''_uploads'', name]"
    using r assms(4) by (simp add: resolve_snoc walk_comp_def)
  show ?thesis
  proof (cases x)
    case (Inl e)
    with Pair show ?thesis by (auto dest: remove_Inl)
  next
    case (Inr u)
    note g = remove_Inr [OF Pair [unfolded Inr]]
    from assms(1) have "lookup f (resolve (dir @ [name])) = Some md" by (rule metadata_Inr)
    with g(1) obtain b t where "lookup f (resolve (dir @ [name])) = Some (FFile b t)" "md = FFile b t"
      by (cases md) auto
    with g assms(2) Pair rp show ?thesis unfolding swept_def by (metis node_mtime.simps(1) snd_conv)
  qed
qed

lemma swept_files:
  "resolve dir = p @ [''_uploads''] \<Longrightarrow> \<forall>(c, x) \<in> set es. c \<noteq> ''..'' \<Longrightarrow>
   swept now ma f (snd (sweep_files dmt now ma dir es bad n f))"
proof (induction dmt now ma dir es bad n f rule: sweep_files.induct)
  case (2 dmt now ma dir name x es bad removed f)
  show ?case
  proof (cases "fs_metadata (dir @ [name]) f")
    case (Inr md)
    obtain y g where g: "fs_remove_file (dir @ [name]) f = (y, g)" by fastforce
    show ?thesis
    proof (cases "ma < now - node_mtime dmt (dir @ [name]) md")
      case True
      with 2 Inr g swept_remove [OF Inr True 2(3)] show ?thesis by (auto intro: swept_trans [of now ma f g])
    next
      case False
      with 2 Inr show ?thesis by simp
    qed
  qed simp
qed simp

lemma read_dir_names: "fs_read_dir dir f = Inr (es, bad) \<Longrightarrow> \<forall>(c, x) \<in> set es. c \<noteq> ''..''"
  by (auto simp: fs_read_dir_def split: if_splits option.splits fnode.splits dest!: in_set_takeD child_name)

lemma swept_entries:
  "\<forall>(c, x) \<in> set es. c \<noteq> ''..'' \<Longrightarrow> swept now ma f (snd (sweep_entries dmt now ma dir es bad st n f))"
proof (induction dmt now ma dir es bad st n f rule: sweep_entries.induct)
  case (2 dmt now ma dir fname x es bad stack removed f)
  let ?p = "dir @ [fname]"
  have u: "swept now ma f (snd (sweep_uploads_dir dmt now ma ?p f))" if "fname = ''_uploads''"
  proof (cases "fs_read_dir ?p f")
    case (Inr eb)
    have "resolve ?p = resolve dir @ [''_uploads'']" using that by (simp add: resolve_snoc walk_comp_def)
    from swept_files [OF this read_dir_names] Inr show ?thesis
      by (cases eb) (simp add: sweep_uploads_dir_def)
  qed (simp add: sweep_uploads_dir_def)
  have es: "\<forall>(c, x) \<in> set es. c \<noteq> ''..''" using 2(7) by simp
  show ?case
  proof (cases "fs_is_dir ?p f \<and> fname = ''_uploads''")
    case True
    obtain y g where g: "sweep_uploads_dir dmt now ma ?p f = (y, g)" by fastforce
    have "swept now ma f g" using u True g by simp
    moreover have "swept now ma g (snd (sweep_entries dmt now ma dir ((fname, x) # es) bad stack removed f))"
      using 2(3) [of ?p y g "projl y"] 2(4) [of ?p y g "projr y"] True g es
      by (cases y) (auto simp: Let_def)
    ultimately show ?thesis by (rule swept_trans)
  next
    case False
    then show ?thesis using 2(1,2,5,6) [of ?p] es by (simp add: Let_def)
  qed
qed simp

lemma swept_loop: "swept now ma f (snd (sweep_loop dmt now ma stack n f))"
proof (induction dmt now ma stack n f rule: sweep_loop.induct)
  case (2 dmt now ma dir stack removed f)
  show ?case
  proof (cases "fs_read_dir dir f")
    case (Inl e)
    with 2(1) show ?thesis by simp
  next
    case (Inr eb)
    obtain es bad where eb: "eb = (es, bad)" by fastforce
    obtain y g where y: "sweep_entries dmt now ma dir es bad stack removed f = (y, g)" by fastforce
    have "swept now ma f g"
      using swept_entries [OF read_dir_names, of dir f es bad now ma f dmt dir bad stack removed] Inr eb y by simp
    with 2(2) [OF Inr eb [symmetric] y [symmetric]] Inr eb y show ?thesis
      by (cases y) (auto intro: swept_trans [of now ma f g] split: prod.splits)
  qed
qed simp

text \<open>The sweep only calls \<^verbatim>\<open>remove_file\<close>: the faults stay and the tree stays a tree.\<close>

definition keeps :: "fs \<Rightarrow> fs \<Rightarrow> bool" where
  "keeps f g \<longleftrightarrow> faults g = faults f \<and> (fs_ok f \<longrightarrow> fs_ok g)"

lemma keeps_refl [simp]: "keeps f f"
  by (simp add: keeps_def)

lemma keeps_trans: "keeps f g \<Longrightarrow> keeps g h \<Longrightarrow> keeps f h"
  by (simp add: keeps_def)

lemma keeps_call: "fs_call call T \<Longrightarrow> keeps f (snd (call f))"
  by (simp add: keeps_def fs_call.keeps_faults fs_call.keeps_ok)

lemma keeps_remove: "keeps f (snd (fs_remove_file p f))"
  by (rule keeps_call) (rule sys_remove.fs_call_axioms)

lemma keeps_sweep_files: "keeps f (snd (sweep_files dmt now ma dir es bad n f))"
proof (induction dmt now ma dir es bad n f rule: sweep_files.induct)
  case (2 dmt now ma dir name x es bad removed f)
  then show ?case
    using keeps_remove [of f "dir @ [name]"] by (auto simp: Let_def split: sum.splits prod.splits intro: keeps_trans)
qed simp

lemma keeps_sweep_entries: "keeps f (snd (sweep_entries dmt now ma dir es bad st n f))"
proof (induction dmt now ma dir es bad st n f rule: sweep_entries.induct)
  case (2 dmt now ma dir fname x es bad stack removed f)
  have "keeps f (snd (sweep_uploads_dir dmt now ma (dir @ [fname]) f))"
    using keeps_sweep_files by (auto simp: sweep_uploads_dir_def split: sum.splits)
  with 2 show ?case by (auto simp: Let_def split: sum.splits prod.splits intro: keeps_trans)
qed simp

lemma keeps_sweep_loop: "keeps f (snd (sweep_loop dmt now ma stack n f))"
proof (induction dmt now ma stack n f rule: sweep_loop.induct)
  case (2 dmt now ma dir stack n f)
  have k: "keeps f (snd (sweep_entries dmt now ma dir es bad stack n f))" for es bad by (rule keeps_sweep_entries)
  show ?case
  proof (cases "fs_read_dir dir f")
    case (Inr y)
    obtain es bad where y: "y = (es, bad)" by fastforce
    obtain x g where s: "sweep_entries dmt now ma dir es bad stack n f = (x, g)" by fastforce
    with k [of es bad] have g: "keeps f g" by simp
    show ?thesis using 2(2) Inr y s g by (cases x) (auto intro: keeps_trans split: prod.splits)
  qed (use 2 in simp)
qed simp

lemma keeps_sweep: "sweep dmt now ma T f = (r, f') \<Longrightarrow> keeps f f'"
  using keeps_sweep_loop [of f dmt now ma "[root (up_layout T)]" 0] by (auto simp: sweep_def Let_def split: if_splits)

lemma sweep_swept: "sweep dmt now ma T f = (r, f') \<Longrightarrow> swept now ma f f'"
  using swept_loop [of now ma f dmt "[root (up_layout T)]" 0] by (auto simp: sweep_def Let_def split: if_splits)

lemma swept_file:
  "swept now ma f g \<Longrightarrow> file_at g q \<noteq> file_at f q \<Longrightarrow> file_at g q = None \<and>
     (\<exists>p c b t. q = p @ [''_uploads'', c] \<and> lookup f q = Some (FFile b t) \<and> ma < now - t)"
proof -
  assume s: "swept now ma f g" and ne: "file_at g q \<noteq> file_at f q"
  from ne have "lookup g q \<noteq> lookup f q" by (auto simp: file_at_def)
  with s show ?thesis by (auto simp: swept_def file_at_def)
qed

lemma swept_cas_ok: "swept now ma f g \<Longrightarrow> cas_ok sha f \<Longrightarrow> cas_ok sha g"
proof (erule cas_ok_subset)
  fix p h b assume "swept now ma f g" "file_at g (slot p h) = Some b"
  with swept_file [of now ma f g "slot p h"] show "file_at f (slot p h) = Some b" by fastforce
qed

text \<open>
  The sweep at startup only removes files that lie directly in an \<^verbatim>\<open>_uploads\<close> directory and are
  older than the threshold; every other file, in particular every blob and tag file, keeps its
  contents, and the store stays consistent.
\<close>

lemma sweep_safe:
  assumes "sweep dmt now max_age T f = (r, f')"
  shows "(\<forall>q. file_at f' q \<noteq> file_at f q \<longrightarrow> file_at f' q = None \<and>
      (\<exists>p c b t. q = p @ [''_uploads'', c] \<and> lookup f q = Some (FFile b t) \<and> max_age < now - t)) \<and>
    (cas_ok sha f \<longrightarrow> cas_ok sha f')"
  using swept_file [OF sweep_swept [OF assms]] swept_cas_ok [OF sweep_swept [OF assms]] by blast

section \<open>Uploads end to end\<close>

lemma create_call:
  "fs_call (paired (create_session C ck repo T))
     (insert (rdir (up_layout T) repo @ [''_uploads'', data_name (new_session_id ck)]) (Collect is_meta_file))"
  (is "fs_call _ ?Q")
proof -
  let ?u = "uploads_dir (up_layout T) repo" and ?s = "new_session_id ck"
  let ?dp = "path_join ?u (data_name ?s)"
  let ?m = "\<lparr>um_session = ?s, um_repo = repo, um_bytes_received = 0, um_started_at = wall ck, um_last_seen = wall ck\<rparr>"
  let ?T = "T\<lparr>up_sessions := dm_insert (repo, ?s) \<lparr>us_meta = ?m, us_hasher = [], us_data_path = ?dp,
    us_finalized = False\<rparr> (up_sessions T)\<rparr>"
  have a: "fs_call (fs_create_dir_all ?u) ?Q" by (rule sys_mkdir.widen) simp
  have b: "fs_call (fs_create (wall ck) ?dp) ?Q" by (rule sys_create.widen) (simp add: path_simps)
  have c: "fs_call (write_meta C (wall ck) (up_layout T) repo ?m) ?Q"
    by (rule fs_call.widen [OF write_meta_call]) blast
  have "paired (create_session C ck repo T) = (\<lambda>f. case fs_create_dir_all ?u f of (Inl e, f1) \<Rightarrow> ((Inl (UIo e), T), f1)
    | (Inr _, f1) \<Rightarrow> (case fs_create (wall ck) ?dp f1 of (Inl e, f2) \<Rightarrow> ((Inl (UIo e), T), f2)
    | (Inr _, f2) \<Rightarrow> (case write_meta C (wall ck) (up_layout T) repo ?m f2 of (Inl e, f3) \<Rightarrow> ((Inl e, T), f3)
    | (Inr _, f3) \<Rightarrow> ((Inr ?s, ?T), f3))))"
    by (rule ext) (simp add: paired_def create_session_def Let_def split: prod.splits sum.splits)
  then show ?thesis by (simp only:) (intro fs_call_try a b c fs_call_return)
qed

lemma create_session_keeps_cas [cas_intros]:
  assumes "create_session C ck repo T f = (r, T', f')" and "cas_ok sha f"
  shows "cas_ok sha f'"
  using fs_call.keeps_cas [OF create_call _ assms(2), of T repo ck C] assms(1)
  by (auto simp: paired_def split: prod.splits)

text \<open>The bytes a session has received once the last chunk of the closing request is counted in.\<close>

definition received :: "upload_store \<Rightarrow> string \<Rightarrow> string \<Rightarrow> bytes option \<Rightarrow> bytes" where
  "received T repo s last_chunk =
     (case dm_get (up_sessions T) (repo, s) of None \<Rightarrow> [] | Some st \<Rightarrow> us_hasher st) @
     (case last_chunk of None \<Rightarrow> [] | Some c \<Rightarrow> c)"

lemma append_received:
  "upload_append C ck repo s c T f = (Inr n, T', f') \<Longrightarrow> received T' repo s None = received T repo s (Some c)"
  by (cases rule: append_cases [of T repo s C ck c f]) (auto simp: received_def)

lemma finalize_rename_result:
  assumes "session_synced T repo s f" "wf_digest d" "finalize_rename sha repo s d T f = (r, T', f')"
  shows "case r of
      Inr (p, n) \<Rightarrow> p = blob_path (up_layout T) repo d \<and> sha (received T repo s None) = hex d \<and>
        file_at f' (resolve p) = Some (received T repo s None) \<and> dm_get (up_sessions T') (repo, s) = None
    | Inl (UDigestMismatch x y) \<Rightarrow> sha (received T repo s None) \<noteq> hex d \<and> x = digest_to_string d \<and>
        y = ''sha256:'' @ sha (received T repo s None) \<and> received T' repo s None = received T repo s None \<and>
        session_synced T' repo s f'
    | Inl e \<Rightarrow> True"
proof (cases r)
  case (Inl e)
  then show ?thesis
    using assms finalize_rename_failed [OF assms(3) [unfolded Inl]]
    by (cases rule: finalize_cases [of T repo s sha d f]) (auto simp: received_def session_synced_def)
next
  case (Inr x)
  show ?thesis
    by (rule finalize_rename_done [OF assms(3) [unfolded Inr] assms(2)])
      (use assms(1) Inr in \<open>auto simp: received_def session_synced_def\<close>)
qed

text \<open>
  C13. Completing an upload: when the running hash has seen the data file's bytes, a successful
  completion has put exactly the received bytes into the slot of a digest they hash to, and the
  session is gone; a digest mismatch reports both digests and keeps the session, with the last chunk
  counted in; every failure leaves the slot as it was; and the store stays consistent.
\<close>

theorem upload_finalize_spec:
  assumes wf: "wf_digest d" and sy: "session_synced T repo s f"
    and fin: "upload_finalize C sha ck repo s last_chunk d T f = (r, T', f')"
  shows "(case r of
      Inr (p, n) \<Rightarrow> p = blob_path (up_layout T) repo d \<and> sha (received T repo s last_chunk) = hex d \<and>
        file_at f' (resolve p) = Some (received T repo s last_chunk) \<and> dm_get (up_sessions T') (repo, s) = None
    | Inl (UDigestMismatch x y) \<Rightarrow> sha (received T repo s last_chunk) \<noteq> hex d \<and> x = digest_to_string d \<and>
        y = ''sha256:'' @ sha (received T repo s last_chunk) \<and>
        received T' repo s None = received T repo s last_chunk \<and> session_synced T' repo s f'
    | Inl e \<Rightarrow> True) \<and>
    ((\<exists>e. r = Inl e) \<longrightarrow> file_at f' (resolve (blob_path (up_layout T) repo d)) =
                       file_at f (resolve (blob_path (up_layout T) repo d))) \<and>
    (cas_ok sha f \<longrightarrow> cas_ok sha f')"
proof (intro conjI)
  show "case r of
      Inr (p, n) \<Rightarrow> p = blob_path (up_layout T) repo d \<and> sha (received T repo s last_chunk) = hex d \<and>
        file_at f' (resolve p) = Some (received T repo s last_chunk) \<and> dm_get (up_sessions T') (repo, s) = None
    | Inl (UDigestMismatch x y) \<Rightarrow> sha (received T repo s last_chunk) \<noteq> hex d \<and> x = digest_to_string d \<and>
        y = ''sha256:'' @ sha (received T repo s last_chunk) \<and>
        received T' repo s None = received T repo s last_chunk \<and> session_synced T' repo s f'
    | Inl e \<Rightarrow> True"
  proof (cases rule: finalize_split [of C sha ck repo s last_chunk d T f])
    case direct
    then have rc: "received T repo s last_chunk = received T repo s None" by (auto simp: received_def)
    show ?thesis
      unfolding rc using finalize_rename_result [OF sy wf, of sha r T' f'] direct(1) fin by simp
  next
    case (failed c e T1 f1)
    have "\<nexists>x y. e = UDigestMismatch x y"
      using failed(2) by (cases rule: append_cases [of T repo s C ck c f]) auto
    with failed fin show ?thesis by (auto split: upload_error.splits)
  next
    case (appended c n T1 f1)
    then have eqs: "received T repo s last_chunk = received T1 repo s None" "up_layout T = up_layout T1"
      using append_keeps_session [OF appended(3)] append_received [OF appended(3)] by simp_all
    show ?thesis
      unfolding eqs using finalize_rename_result [OF append_synced [OF sy appended(3)] wf, of sha r T' f'] fin appended(4)
      by simp
  qed
  show "(\<exists>e. r = Inl e) \<longrightarrow> file_at f' (resolve (blob_path (up_layout T) repo d)) =
      file_at f (resolve (blob_path (up_layout T) repo d))"
    using session.commit_failed [of d T repo s f C sha ck last_chunk] wf sy fin by (auto simp: paired_def)
  show "cas_ok sha f \<longrightarrow> cas_ok sha f'"
    using session.commit_keeps_cas [of sha f d T repo s C ck last_chunk] wf sy fin by (auto simp: paired_def)
qed

lemma write_meta_lookup: "\<not> is_meta_file q \<Longrightarrow> lookup (snd (write_meta C now L repo m f)) q = lookup f q"
  using replace_lookup_other [of q _ "meta_path L repo (um_session m)"] meta_path_file
  by (auto simp: write_meta_def Let_def split: option.splits prod.splits sum.splits) (metis snd_conv)+

lemma write_meta_for_lookup: "\<not> is_meta_file q \<Longrightarrow> lookup (snd (write_meta_for C now L repo s n f)) q = lookup f q"
  by (auto simp: write_meta_for_def write_meta_lookup split: sum.splits io_error.splits option.splits)

text \<open>
  An open session that has hashed and counted the bytes \<open>b\<close> and whose data file has the bytes \<open>fb\<close>,
  with nothing in the way of its completion.
\<close>

definition live :: "upload_store \<Rightarrow> string \<Rightarrow> string \<Rightarrow> string \<Rightarrow> bytes \<Rightarrow> bytes \<Rightarrow> fs \<Rightarrow> bool" where
  "live T repo s h b fb f \<longleftrightarrow> no_faults f \<and> fs_ok f \<and>
     lookup f (slot (rdir (up_layout T) repo) h) \<noteq> Some FDir \<and>
     file_at f (rdir (up_layout T) repo @ [''blobs'']) = None \<and>
     file_at f (rdir (up_layout T) repo @ [''blobs'', ''sha256'']) = None \<and>
     (\<exists>st. dm_get (up_sessions T) (repo, s) = Some st \<and> \<not> us_finalized st \<and> us_hasher st = b \<and>
        resolve (us_data_path st) = rdir (up_layout T) repo @ [''_uploads'', data_name s] \<and>
        file_at f (rdir (up_layout T) repo @ [''_uploads'', data_name s]) = Some fb \<and>
        um_bytes_received (us_meta st) = len_u64 b)"

lemma plain_names_not_meta:
  "\<not> is_meta_file (p @ [''blobs''])" "\<not> is_meta_file (p @ [''blobs'', ''sha256''])"
proof -
  have "length (w @ ''.meta.json'') > 6" "length (w @ ''.meta.json.tmp'') > 6" for w by simp_all
  then have "''blobs'' \<noteq> w @ ''.meta.json'' \<and> ''blobs'' \<noteq> w @ ''.meta.json.tmp'' \<and>
     ''sha256'' \<noteq> w @ ''.meta.json'' \<and> ''sha256'' \<noteq> w @ ''.meta.json.tmp''" for w
    by (auto simp: append_eq_Cons_conv Cons_eq_append_conv)
  then show "\<not> is_meta_file (p @ [''blobs''])" "\<not> is_meta_file (p @ [''blobs'', ''sha256''])"
    by (auto simp: is_meta_file_def append_eq_append_conv2 Cons_eq_append_conv append_eq_Cons_conv)
qed

lemma append_live:
  assumes l: "live T repo s h b fb f" and h: "hex64 h" and len: "length (b @ c) < 2 ^ 64"
  obtains n T' f' where "upload_append C ck repo s c T f = (Inr n, T', f')" "live T' repo s h (b @ c) (fb @ c) f'"
    "up_layout T' = up_layout T"
proof -
  let ?q = "rdir (up_layout T) repo @ [''_uploads'', data_name s]"
  from l obtain st where st: "dm_get (up_sessions T) (repo, s) = Some st" "\<not> us_finalized st" "us_hasher st = b"
    "resolve (us_data_path st) = ?q" "file_at f ?q = Some fb" "um_bytes_received (us_meta st) = len_u64 b"
    by (auto simp: live_def)
  from st(5) obtain t where lk: "lookup f (resolve (us_data_path st)) = Some (FFile fb t)" by (auto simp: file_at_Some st(4))
  from l have nf: "no_faults f" and ok: "fs_ok f" by (simp_all add: live_def)
  obtain f1 where a: "fs_append (wall ck) (us_data_path st) c f = (Inr (), f1)"
    "lookup f1 ?q = Some (FFile (fb @ c) (wall ck))" "no_faults f1" and o: "\<And>q. q \<noteq> ?q \<Longrightarrow> lookup f1 q = lookup f q"
    by (rule append_ok [OF nf lk, of "wall ck" c]) (rule that, assumption, simp_all add: st(4))
  let ?st = "account (wall ck) c st"
  obtain x f2 where w: "write_meta_for C (wall ck) (up_layout T) repo s (um_bytes_received (us_meta ?st)) f1 = (x, f2)"
    by fastforce
  have o2: "lookup f2 q = lookup f1 q" if "\<not> is_meta_file q" for q
    using write_meta_for_lookup [OF that, of C "wall ck" "up_layout T" repo s _ f1] w by (metis snd_conv)
  have "\<not> is_meta_file ?q" using data_not_meta [of "rdir (up_layout T) repo @ [''_uploads'']" s] by simp
  then have "file_at f2 ?q = Some (fb @ c)" using o2 a(2) by (simp add: file_at_def)
  moreover have "fs_ok f2" "no_faults f2"
    using sys_append.keeps_ok [OF ok, of "wall ck" "us_data_path st" c] a
      fs_call.keeps_ok [OF write_meta_for_call, of f1 C "wall ck" "up_layout T" repo s]
      fs_call.keeps_faults [OF write_meta_for_call, of C "wall ck" "up_layout T" repo s _ f1] w
    by (metis snd_conv no_faults_cong)+
  moreover have "?q \<noteq> slot (rdir (up_layout T) repo) h" by (metis h is_slot_slot upload_not_slot)
  moreover have "\<not> is_meta_file (slot (rdir (up_layout T) repo) h)" using h meta_not_slot by fastforce
  ultimately have "live (T\<lparr>up_sessions := dm_insert (repo, s) ?st (up_sessions T)\<rparr>) repo s h (b @ c) (fb @ c) f2"
    using l st o o2 plain_names_not_meta len by (auto simp: live_def sat_add_len file_at_def)
  then show thesis
    by (rule that [rotated]) (use a st w in \<open>simp_all add: upload_append_def Let_def\<close>)
qed

definition upload_codec_ok :: "upload_codec \<Rightarrow> bool" where
  "upload_codec_ok C \<longleftrightarrow> (\<forall>m. um_to_vec C m \<noteq> None)"

lemma session_plain: "plain_name (new_session_id ck @ ''.meta.json'')" "plain_name (new_session_id ck @ ''.meta.json.tmp'')"
  using session_chars [of "CHR ''/''" ck] by (auto simp: plain_name_def append_eq_Cons_conv)

lemma session_meta_paths:
  "resolve (meta_path L repo (new_session_id ck)) = rdir L repo @ [''_uploads'', new_session_id ck @ ''.meta.json'']"
  "resolve (with_extension (meta_path L repo (new_session_id ck)) ''json.tmp'') =
   rdir L repo @ [''_uploads'', new_session_id ck @ ''.meta.json.tmp'']"
proof -
  have m: "meta_path L repo (new_session_id ck) = uploads_dir L repo @ [new_session_id ck @ ''.meta.json'']"
    by (simp only: meta_path_def meta_name_def path_join_plain [OF session_plain(1)])
  have e: "with_ext (new_session_id ck @ ''.meta.json'') ''json.tmp'' = new_session_id ck @ ''.meta.json.tmp''"
    using with_ext_simple [of "''json''" "new_session_id ck @ ''.meta''" "''json.tmp''"] by simp
  show "resolve (meta_path L repo (new_session_id ck)) = rdir L repo @ [''_uploads'', new_session_id ck @ ''.meta.json'']"
    "resolve (with_extension (meta_path L repo (new_session_id ck)) ''json.tmp'') =
     rdir L repo @ [''_uploads'', new_session_id ck @ ''.meta.json.tmp'']"
    unfolding m with_extension_def butlast_snoc last_snoc e
    by (simp_all only: resolve_plain_snoc [OF session_plain(1)] resolve_plain_snoc [OF session_plain(2)]
        resolve_uploads append_assoc append_Cons append_Nil)
qed

lemma write_meta_ok:
  assumes C: "upload_codec_ok C" and nf: "no_faults f" and up: "lookup f (rdir L repo @ [''_uploads'']) = Some FDir"
    and free: "\<And>x. lookup f (rdir L repo @ [''_uploads'', x]) \<noteq> Some FDir"
    and m: "um_session m = new_session_id ck"
  obtains f' where "write_meta C now L repo m f = (Inr (), f')"
proof -
  from C obtain body where body: "um_to_vec C m = Some body" by (auto simp: upload_codec_ok_def)
  let ?p = "meta_path L repo (new_session_id ck)"
  obtain f' where "fs_replace now (with_extension ?p ''json.tmp'') ?p body f = (Inr (), f')"
    by (rule replace_ok [OF nf, of "with_extension ?p ''json.tmp''" ?p now body])
      (use up free that in \<open>simp_all add: session_meta_paths butlast_append\<close>)
  with body show thesis by (intro that [of f']) (simp add: write_meta_def m)
qed

lemma create_live:
  assumes C: "upload_codec_ok C" and ok: "fs_ok f" and clear: "repo_clear (up_layout T) repo f"
    and dirs: "\<And>c. lookup f (rdir (up_layout T) repo @ [''_uploads'', c]) \<noteq> Some FDir"
    and h: "hex64 h" and hslot: "lookup f (slot (rdir (up_layout T) repo) h) \<noteq> Some FDir"
  obtains T' f' where "create_session C ck repo T f = (Inr (new_session_id ck), T', f')"
    "live T' repo (new_session_id ck) h [] [] f'" "up_layout T' = up_layout T"
proof -
  let ?L = "up_layout T" and ?s = "new_session_id ck"
  let ?D = "rdir ?L repo" let ?dp = "path_join (uploads_dir ?L repo) (data_name ?s)" let ?q = "?D @ [''_uploads'', data_name ?s]"
  have rdp: "resolve ?dp = ?q" by (simp add: path_simps)
  have nf: "no_faults f" and dc: "dir_clear f (?D @ [''_uploads''])"
    and nob: "file_at f (?D @ [''blobs'']) = None" "file_at f (?D @ [''blobs'', ''sha256'']) = None"
    using clear dir_clear_file_at [of f "?D @ [''blobs'', ''sha256'']"]
    by (auto simp: repo_clear_def dest: spec [of _ "Suc (length ?D)"] spec [of _ "Suc (Suc (length ?D))"])
  obtain f1 where m: "fs_create_dir_all (uploads_dir ?L repo) f = (Inr (), f1)" "file_at f1 = file_at f"
    "lookup f1 (?D @ [''_uploads'']) = Some FDir" "no_faults f1"
    and o1: "\<And>q. \<not> prefix q (?D @ [''_uploads'']) \<Longrightarrow> lookup f1 q = lookup f q"
    by (rule create_dir_all_ok [OF nf, of "uploads_dir ?L repo"]) (use dc that in \<open>simp_all add: resolve_uploads\<close>)
  have np: "\<not> prefix (?D @ [x, y]) (?D @ [''_uploads''])" "\<not> prefix (?D @ [x, y, z]) (?D @ [''_uploads''])" for x y z
    by (auto dest: prefix_length_le)
  obtain f2 where c: "fs_create (wall ck) ?dp f1 = (Inr (), f2)" "lookup f2 ?q = Some (FFile [] (wall ck))"
    "no_faults f2" and o2: "\<And>q. q \<noteq> ?q \<Longrightarrow> lookup f2 q = lookup f1 q"
    by (rule create_ok [OF m(4), of ?dp "wall ck"])
      (use m(3) dirs o1 [OF np(1)] that in \<open>simp_all add: rdp butlast_append\<close>)
  let ?meta = "\<lparr>um_session = ?s, um_repo = repo, um_bytes_received = 0, um_started_at = wall ck, um_last_seen = wall ck\<rparr>"
  have free: "lookup f2 (?D @ [''_uploads'', x]) \<noteq> Some FDir" for x
    using c(2) dirs [of x] o2 [of "?D @ [''_uploads'', x]"] o1 [OF np(1)] by (cases "x = data_name ?s") auto
  have up2: "lookup f2 (?D @ [''_uploads'']) = Some FDir" using m(3) o2 by simp
  obtain f3 where w: "write_meta C (wall ck) ?L repo ?meta f2 = (Inr (), f3)"
    by (rule write_meta_ok [OF C c(3) up2 free, of ?meta ck]) simp
  have o3: "lookup f3 q = lookup f2 q" if "\<not> is_meta_file q" for q
    using write_meta_lookup [OF that, of C "wall ck" ?L repo ?meta f2] w by simp
  have "fs_ok f1" using sys_mkdir.keeps_ok [OF ok, of "uploads_dir ?L repo"] m(1) by simp
  then have "fs_ok f2" using sys_create.keeps_ok [of f1 "wall ck" ?dp] c(1) by simp
  then have ok3: "fs_ok f3" and nf3: "no_faults f3"
    using fs_call.keeps_ok [OF write_meta_call, of f2 C "wall ck" ?L repo ?meta] w
      fs_call.keeps_faults [OF write_meta_call, of C "wall ck" ?L repo ?meta f2] c(3) by (auto intro: no_faults_cong)
  have qm: "\<not> is_meta_file ?q" using data_not_meta [of "?D @ [''_uploads'']" ?s] by simp
  have sl: "\<not> is_meta_file (slot ?D h)" "?q \<noteq> slot ?D h"
    using h meta_not_slot [of "slot ?D h"] upload_not_slot [of ?D "data_name ?s"] by (auto simp: is_slot_def)
  have "lookup f3 (slot ?D h) \<noteq> Some FDir"
    using hslot o3 [OF sl(1)] o2 sl(2) o1 [of "slot ?D h"] np(2) by (simp add: slot_def)
  moreover have "file_at f3 (?D @ [''blobs'']) = None" "file_at f3 (?D @ [''blobs'', ''sha256'']) = None"
    using nob o3 o2 plain_names_not_meta m(2) by (simp_all add: file_at_def fun_eq_iff)
  moreover have "file_at f3 ?q = Some []" using o3 [OF qm] c(2) by (simp add: file_at_def)
  ultimately show thesis
    by (intro that [of "T\<lparr>up_sessions := dm_insert (repo, ?s) \<lparr>us_meta = ?meta, us_hasher = [], us_data_path = ?dp,
      us_finalized = False\<rparr> (up_sessions T)\<rparr>" f3])
      (use m(1) c(1) w ok3 nf3 rdp in \<open>simp_all add: create_session_def Let_def live_def len_u64_def\<close>)
qed

lemma finalize_live:
  assumes l: "live T repo s (hex d) b fb f" and wf: "wf_digest d" and hs: "sha b = hex d"
  obtains T' f' where "finalize_rename sha repo s d T f = (Inr (blob_path (up_layout T) repo d, len_u64 b), T', f')"
    "file_at f' (resolve (blob_path (up_layout T) repo d)) = Some fb" "dm_get (up_sessions T') (repo, s) = None"
proof -
  let ?D = "rdir (up_layout T) repo" let ?q = "?D @ [''_uploads'', data_name s]" let ?b = "blob_path (up_layout T) repo d"
  from l obtain st where st: "dm_get (up_sessions T) (repo, s) = Some st" "\<not> us_finalized st" "us_hasher st = b"
    "resolve (us_data_path st) = ?q" "file_at f ?q = Some fb" "um_bytes_received (us_meta st) = len_u64 b"
    by (auto simp: live_def)
  from l have nf: "no_faults f" and ok: "fs_ok f" by (simp_all add: live_def)
  from st(5) obtain t where lk: "lookup f ?q = Some (FFile fb t)" by (auto simp: file_at_Some)
  have "file_at f (take k (?D @ [''blobs'', ''sha256''])) = None" if "k \<le> length (?D @ [''blobs'', ''sha256''])" for k
  proof (cases "k \<le> length ?D")
    case True
    then have "lookup f (take k ?q) = Some FDir" by (intro fs_ok_prefix_dir [OF ok lk]) simp
    with True show ?thesis by (simp add: file_at_def)
  next
    case False
    with that have "k = Suc (length ?D) \<or> k = Suc (Suc (length ?D))" by auto
    with l show ?thesis by (auto simp: live_def)
  qed
  then have dc: "dir_clear f (resolve (butlast ?b))" using wf by (simp add: dir_clear_file_at path_simps)
  obtain f1 where m: "fs_create_dir_all (butlast ?b) f = (Inr (), f1)" "no_faults f1"
    "lookup f1 (resolve (butlast ?b)) = Some FDir" "\<And>q n. lookup f q = Some n \<Longrightarrow> lookup f1 q = Some n"
    "\<And>q. \<not> prefix q (resolve (butlast ?b)) \<Longrightarrow> lookup f1 q = lookup f q"
    by (rule create_dir_all_ok [OF nf dc]) (rule that, assumption+)
  have np: "\<not> prefix (slot ?D (hex d)) (?D @ [''blobs'', ''sha256''])" by (auto simp: slot_def dest: prefix_length_le)
  obtain f2 where "fs_rename (us_data_path st) ?b f1 = (Inr (), f2)"
    by (rule rename_ok [OF m(2), of "us_data_path st" fb t ?b])
      (use lk m(3-) l wf np that in \<open>simp_all add: st(4) path_simps live_def\<close>)
  then obtain T' f' where fin: "finalize_rename sha repo s d T f = (Inr (?b, len_u64 b), T', f')"
    using st m(1) hs
    by (cases "fs_remove_file (meta_path (up_layout T) repo s) f2") (auto simp: finalize_rename_def Let_def)
  have "file_at f' (resolve ?b) = Some fb \<and> dm_get (up_sessions T') (repo, s) = None"
    by (rule finalize_rename_done [OF fin wf]) (use st in auto)
  with fin show thesis by (intro that) auto
qed

text \<open>A client's sequence of \<^verbatim>\<open>PATCH\<close> requests, each at its own time.\<close>

fun append_all :: "upload_codec \<Rightarrow> string \<Rightarrow> string \<Rightarrow> (clock \<times> bytes) list \<Rightarrow> upload_store \<Rightarrow> fs \<Rightarrow>
    upload_error + upload_store \<times> fs" where
  "append_all C repo s [] T f = Inr (T, f)"
| "append_all C repo s ((ck, c) # cs) T f =
     (case upload_append C ck repo s c T f of
        (Inl e, _, _) \<Rightarrow> Inl e
      | (Inr _, T', f') \<Rightarrow> append_all C repo s cs T' f')"

lemma append_all_live:
  assumes "live T repo s h b fb f" and "hex64 h" and "length (b @ concat (map snd cs)) < 2 ^ 64"
  shows "\<exists>T' f'. append_all C repo s cs T f = Inr (T', f') \<and> live T' repo s h (b @ concat (map snd cs)) (fb @ concat (map snd cs)) f' \<and>
    up_layout T' = up_layout T"
  using assms
proof (induction C repo s cs T f arbitrary: b fb rule: append_all.induct)
  case (2 C repo s ck c cs T f)
  from 2(4) have len: "length (b @ c) < 2 ^ 64" by simp
  from append_live [OF 2(2,3) len] obtain n T' f'
    where "upload_append C ck repo s c T f = (Inr n, T', f')" "live T' repo s h (b @ c) (fb @ c) f'" "up_layout T' = up_layout T" .
  with 2(1) [of "Inr n" "(T', f')" n T' f' "b @ c" "fb @ c"] 2(3,4) show ?case by simp
qed simp

text \<open>
  C16. A chunked upload works end to end: opening a session, sending any number of chunks and
  completing it, with or without a last chunk, under the digest of all the bytes, succeeds, puts
  exactly the bytes in order into the repository's store, reports their number and closes the
  session.
\<close>

theorem chunked_upload:
  assumes sha: "sha_ok sha" and C: "upload_codec_ok C" and ok: "fs_ok f" and clear: "repo_clear (up_layout T) repo f"
    and dirs: "\<And>c. lookup f (rdir (up_layout T) repo @ [''_uploads'', c]) \<noteq> Some FDir"
    and b: "b = concat (map snd chunks) @ (case last_chunk of None \<Rightarrow> [] | Some c \<Rightarrow> c)" and len: "length b < 2 ^ 64"
    and d: "d = sha256_digest (sha b)" and free: "lookup f (slot (rdir (up_layout T) repo) (sha b)) \<noteq> Some FDir"
  shows "\<exists>s T1 f1 T2 f2 T3 f3. create_session C ck repo T f = (Inr s, T1, f1) \<and>
    append_all C repo s chunks T1 f1 = Inr (T2, f2) \<and>
    upload_finalize C sha ck' repo s last_chunk d T2 f2 = (Inr (blob_path (up_layout T) repo d, len_u64 b), T3, f3) \<and>
    file_at f3 (resolve (blob_path (up_layout T) repo d)) = Some b \<and> dm_get (up_sessions T3) (repo, s) = None"
proof -
  let ?s = "new_session_id ck" and ?h = "sha b" and ?m = "concat (map snd chunks)"
  have h: "hex64 ?h" and wf: "wf_digest d" and hd: "hex d = ?h" using sha d by simp_all
  obtain T1 f1 where c: "create_session C ck repo T f = (Inr ?s, T1, f1)" "live T1 repo ?s ?h [] [] f1" "up_layout T1 = up_layout T"
    by (rule create_live [OF C ok clear dirs h free])
  have "length ([] @ ?m) < 2 ^ 64" using len b by simp
  from append_all_live [OF c(2) h this, of C] obtain T2 f2 where a: "append_all C repo ?s chunks T1 f1 = Inr (T2, f2)"
    "live T2 repo ?s ?h ?m ?m f2" "up_layout T2 = up_layout T" using c(3) by auto
  obtain T2' f2' where l: "live T2' repo ?s (hex d) b b f2'" "up_layout T2' = up_layout T"
    and eq: "upload_finalize C sha ck' repo ?s last_chunk d T2 f2 = finalize_rename sha repo ?s d T2' f2'"
  proof (cases "last_chunk = None \<or> last_chunk = Some []")
    case True
    with a b show thesis by (intro that [of T2 f2]) (auto simp: upload_finalize_def hd)
  next
    case False
    then obtain x where x: "last_chunk = Some x" "x \<noteq> []" by auto
    with len b have "length (?m @ x) < 2 ^ 64" by simp
    from append_live [OF a(2) h this] obtain n T' f' where "upload_append C ck' repo ?s x T2 f2 = (Inr n, T', f')"
      "live T' repo ?s ?h (?m @ x) (?m @ x) f'" "up_layout T' = up_layout T2" .
    with x a(3) b show thesis by (intro that [of T' f']) (auto simp: upload_finalize_def hd)
  qed
  obtain T3 f3 where "finalize_rename sha repo ?s d T2' f2' = (Inr (blob_path (up_layout T) repo d, len_u64 b), T3, f3)"
    "file_at f3 (resolve (blob_path (up_layout T) repo d)) = Some b" "dm_get (up_sessions T3) (repo, ?s) = None"
    by (rule finalize_live [where sha = sha, OF l(1) wf]) (use hd l(2) that in simp_all)
  with c a eq show ?thesis by auto
qed

definition demo_ucodec :: upload_codec where
  "demo_ucodec = \<lparr>um_to_vec = (\<lambda>m. Some (to_bytes (enc_strs [um_session m, um_repo m]))), um_from_slice = (\<lambda>b. None)\<rparr>"

lemma demo_ucodec_ok: "upload_codec_ok demo_ucodec"
  by (simp add: upload_codec_ok_def demo_ucodec_def)

theorem chunked_upload_witness:
  "\<exists>s T1 f1 T2 f2 T3 f3 d. create_session demo_ucodec demo_clock ''a/b'' (uploads_new \<lparr>root = [''q'']\<rparr>) demo_fs = (Inr s, T1, f1) \<and>
    append_all demo_ucodec ''a/b'' s [(demo_clock, [1]), (demo_clock, [2, 3])] T1 f1 = Inr (T2, f2) \<and>
    upload_finalize demo_ucodec demo_sha demo_clock ''a/b'' s (Some [4]) d T2 f2 =
      (Inr (blob_path \<lparr>root = [''q'']\<rparr> ''a/b'' d, 4), T3, f3) \<and>
    file_at f3 (resolve (blob_path \<lparr>root = [''q'']\<rparr> ''a/b'' d)) = Some [1, 2, 3, 4]"
proof -
  let ?T = "uploads_new \<lparr>root = [''q'']\<rparr>"
  have L: "up_layout ?T = \<lparr>root = [''q'']\<rparr>" by (simp add: uploads_new_def)
  have n: "lookup demo_fs (p @ [x, y]) \<noteq> Some FDir" "lookup demo_fs (slot p h) \<noteq> Some FDir" for p x y h by simp_all
  from chunked_upload [OF demo_sha_ok demo_ucodec_ok demo_fs_ok(1) demo_repo_clear n(1) _ _ refl n(2), where T = ?T and
      chunks = "[(demo_clock, [1]), (demo_clock, [2, 3])]" and last_chunk = "Some [4]" and b = "[1, 2, 3, 4]" and
      ck = demo_clock and ck' = demo_clock and repo = "''a/b''"]
  show ?thesis unfolding L by (simp add: len_u64_def) blast
qed

definition set_faults :: "(io_op \<Rightarrow> path \<Rightarrow> nat option) \<Rightarrow> fs \<Rightarrow> fs" where
  "set_faults x f = f\<lparr>faults := x\<rparr>"

lemma set_faults_simps [simp]:
  "lookup (set_faults x f) = lookup f" "file_at (set_faults x f) = file_at f" "fs_ok (set_faults x f) = fs_ok f"
  "faults (set_faults x f) = x"
  by (auto simp: set_faults_def lookup_def file_at_def fs_ok_def fun_eq_iff)

text \<open>
  C20. The completion checks the running hash, not the file: when writing a chunk fails after part
  of it has reached the disk (a full disk, say) and the client sends the chunk again, the part
  stays in the data file but not in the hash; the completion under the digest of the intended bytes
  then succeeds and stores the file with the stray part in the middle.
\<close>

theorem partial_write_corrupts:
  assumes l: "live T repo s (hex d) b b f" and wf: "wf_digest d" and h: "sha (b @ c) = hex d" and len: "length (b @ c) < 2 ^ 64"
  shows "\<exists>T2 f1 f2 f3 T3 n.
    upload_append C ck repo s c T (set_faults (\<lambda>op p. if op = OpWrite then Some k else None) f) = (Inl (UIo EOther), T, f1) \<and>
    upload_append C ck' repo s c T (set_faults (\<lambda>_ _. None) f1) = (Inr n, T2, f2) \<and>
    upload_finalize C sha ck' repo s None d T2 f2 = (Inr (blob_path (up_layout T) repo d, n), T3, f3) \<and>
    file_at f3 (resolve (blob_path (up_layout T) repo d)) = Some (b @ take k c @ c)"
proof -
  let ?q = "rdir (up_layout T) repo @ [''_uploads'', data_name s]"
  let ?g = "set_faults (\<lambda>op p. if op = OpWrite then Some k else None) f"
  from l obtain st where st: "dm_get (up_sessions T) (repo, s) = Some st" "\<not> us_finalized st"
    "resolve (us_data_path st) = ?q" "file_at f ?q = Some b"
    by (auto simp: live_def)
  from st(4) obtain t where lk: "lookup f ?q = Some (FFile b t)" by (auto simp: file_at_Some)
  define f1 where "f1 = put_node ?q (FFile (b @ take k c) (wall ck)) ?g"
  have a: "fs_append (wall ck) (us_data_path st) c ?g = (Inl EOther, f1)"
    by (simp add: fs_append_def st(3) lk f1_def)
  then have u: "upload_append C ck repo s c T ?g = (Inl (UIo EOther), T, f1)"
    by (simp add: upload_append_def st)
  have look: "lookup f1 q = (if q = ?q then Some (FFile (b @ take k c) (wall ck)) else lookup f q)" for q
    by (simp add: f1_def lookup_put)
  have "fs_ok f1" using sys_append.keeps_ok [of ?g "wall ck" "us_data_path st" c] a l by (simp add: live_def)
  moreover have "slot (rdir (up_layout T) repo) (hex d) \<noteq> ?q"
    using wf upload_not_slot [of "rdir (up_layout T) repo" "data_name s"] by (metis is_slot_slot wf_digest_def)
  ultimately have l1: "live T repo s (hex d) b (b @ take k c) (set_faults (\<lambda>_ _. None) f1)"
    using l look unfolding live_def by (auto simp: no_faults_def file_at_def)
  have hd: "hex64 (hex d)" using wf by (simp add: wf_digest_def)
  obtain n T2 f2 where a2: "upload_append C ck' repo s c T (set_faults (\<lambda>_ _. None) f1) = (Inr n, T2, f2)"
    "live T2 repo s (hex d) (b @ c) ((b @ take k c) @ c) f2" "up_layout T2 = up_layout T"
    by (rule append_live [OF l1 hd len])
  obtain T3 f3 where fin: "finalize_rename sha repo s d T2 f2 = (Inr (blob_path (up_layout T) repo d, len_u64 (b @ c)), T3, f3)"
    "file_at f3 (resolve (blob_path (up_layout T) repo d)) = Some ((b @ take k c) @ c)"
    by (rule finalize_live [where sha = sha, OF a2(2) wf h]) (use a2(3) that in simp_all)
  have "n = len_u64 (b @ c)"
    using a2(1,2) by (cases rule: append_cases [of T repo s C ck' c "set_faults (\<lambda>_ _. None) f1"]) (auto simp: live_def)
  with u a2 fin show ?thesis by (auto simp: upload_finalize_def)
qed

text \<open>An open session without bytes, for the instances.\<close>

lemma demo_session:
  obtains T f where "live T ''a/b'' (new_session_id demo_clock) (demo_sha b) [] [] f" "cas_ok demo_sha f"
proof -
  let ?T = "uploads_new \<lparr>root = [''q'']\<rparr>"
  have n: "lookup demo_fs (p @ [x, y]) \<noteq> Some FDir" "lookup demo_fs (slot p h) \<noteq> Some FDir" for p x y h by simp_all
  have h: "hex64 (demo_sha b)" using demo_sha_ok by simp
  obtain T f where c: "create_session demo_ucodec demo_clock ''a/b'' ?T demo_fs = (Inr (new_session_id demo_clock), T, f)"
    "live T ''a/b'' (new_session_id demo_clock) (demo_sha b) [] [] f"
    by (rule create_live [OF demo_ucodec_ok demo_fs_ok(1) demo_repo_clear n(1) h n(2), of demo_clock "''a/b''" ?T])
  have "cas_ok demo_sha f"
  proof (rule create_session_keeps_cas)
    show "create_session demo_ucodec demo_clock ''a/b'' ?T demo_fs = (Inr (new_session_id demo_clock), T, f)" by (rule c(1))
  qed simp
  with c(2) show thesis by (rule that)
qed

theorem partial_write_corrupts_witness:
  "\<exists>s T f T2 f1 f2 T3 f3 n d.
    upload_append demo_ucodec demo_clock ''a/b'' s [1, 2] T
      (set_faults (\<lambda>op p. if op = OpWrite then Some 1 else None) f) = (Inl (UIo EOther), T, f1) \<and>
    upload_append demo_ucodec demo_clock ''a/b'' s [1, 2] T (set_faults (\<lambda>_ _. None) f1) = (Inr n, T2, f2) \<and>
    upload_finalize demo_ucodec demo_sha demo_clock ''a/b'' s None d T2 f2 = (Inr (blob_path (up_layout T) ''a/b'' d, n), T3, f3) \<and>
    file_at f3 (resolve (blob_path (up_layout T) ''a/b'' d)) = Some [1, 1, 2] \<and> \<not> cas_ok demo_sha f3"
proof -
  let ?d = "sha256_digest (demo_sha [1, 2])"
  obtain T f where l: "live T ''a/b'' (new_session_id demo_clock) (hex ?d) [] [] f"
    by (rule demo_session [of "[1, 2]"]) simp
  have h: "demo_sha ([] @ [1, 2]) = hex ?d" and len: "length ([] @ [1, 2]) < 2 ^ 64" by simp_all
  from partial_write_corrupts [where sha = demo_sha, OF l wf_demo_digest h len, of demo_ucodec demo_clock 1 demo_clock]
  obtain T2 f1 f2 f3 T3 n where r: "upload_append demo_ucodec demo_clock ''a/b'' (new_session_id demo_clock) [1, 2] T
      (set_faults (\<lambda>op p. if op = OpWrite then Some 1 else None) f) = (Inl (UIo EOther), T, f1)"
    "upload_append demo_ucodec demo_clock ''a/b'' (new_session_id demo_clock) [1, 2] T (set_faults (\<lambda>_ _. None) f1) = (Inr n, T2, f2)"
    "upload_finalize demo_ucodec demo_sha demo_clock ''a/b'' (new_session_id demo_clock) None ?d T2 f2 = (Inr (blob_path (up_layout T) ''a/b'' ?d, n), T3, f3)"
    "file_at f3 (resolve (blob_path (up_layout T) ''a/b'' ?d)) = Some [1, 1, 2]" by auto
  have "demo_sha [1, 1, 2] \<noteq> hex ?d" by (simp add: demo_sha_def hex_digit_def)
  with r(4) cas_ok_blob [of demo_sha f3 ?d "up_layout T" "''a/b''"] have "\<not> cas_ok demo_sha f3" by auto
  with r show ?thesis by blast
qed

lemma live_synced: "live T repo s h b b f \<Longrightarrow> session_synced T repo s f"
  using data_not_meta [of "rdir (up_layout T) repo @ [''_uploads'']" s] by (auto simp: live_def session_synced_def)

theorem upload_finalize_spec_witness:
  "\<exists>T s f r T' f'. upload_finalize demo_ucodec demo_sha demo_clock ''a/b'' s (Some [7]) (sha256_digest (demo_sha [])) T f = (r, T', f') \<and>
     received T ''a/b'' s (Some [7]) = [7] \<and> cas_ok demo_sha f'"
proof -
  let ?s = "new_session_id demo_clock" and ?d = "sha256_digest (demo_sha [])"
  obtain T f where l: "live T ''a/b'' ?s (demo_sha []) [] [] f" and c: "cas_ok demo_sha f" by (rule demo_session)
  obtain r T' f' where fin: "upload_finalize demo_ucodec demo_sha demo_clock ''a/b'' ?s (Some [7]) ?d T f = (r, T', f')"
    by (metis prod_cases3)
  have "received T ''a/b'' ?s (Some [7]) = [7]" using l by (auto simp: live_def received_def)
  with upload_finalize_spec [OF wf_demo_digest live_synced [OF l] fin] c fin show ?thesis by blast
qed

section \<open>Concurrent appends to one session\<close>

text \<open>
  Between the write of a chunk and the update under the session's lock another request to the same
  session can run.  A request has been admitted, has its chunk on disk, or has been accounted for.
\<close>

datatype patch_phase = Admitted bytes | OnDisk bytes | Accounted bytes

inductive patch_step :: "upload_codec \<Rightarrow> clock \<Rightarrow> string \<Rightarrow> string \<Rightarrow>
    upload_store \<times> fs \<times> patch_phase list \<Rightarrow> upload_store \<times> fs \<times> patch_phase list \<Rightarrow> bool"
  for C ck repo s where
  disk: "i < length ps \<Longrightarrow> ps ! i = Admitted c \<Longrightarrow> dm_get (up_sessions T) (repo, s) = Some st \<Longrightarrow>
    fs_append (wall ck) (us_data_path st) c f = (Inr (), f') \<Longrightarrow>
    patch_step C ck repo s (T, f, ps) (T, f', ps[i := OnDisk c])"
| acct: "i < length ps \<Longrightarrow> ps ! i = OnDisk c \<Longrightarrow> dm_get (up_sessions T) (repo, s) = Some st \<Longrightarrow>
    st' = account (wall ck) c st \<Longrightarrow>
    write_meta_for C (wall ck) (up_layout T) repo s (um_bytes_received (us_meta st')) f = (x, f') \<Longrightarrow>
    patch_step C ck repo s (T, f, ps)
      (T\<lparr>up_sessions := dm_insert (repo, s) st' (up_sessions T)\<rparr>, f', ps[i := Accounted c])"

inductive_cases patch_stepE: "patch_step C ck repo s (T, f, ps) y"

fun chunk_of :: "patch_phase \<Rightarrow> bytes" where
  "chunk_of (Admitted c) = c" | "chunk_of (OnDisk c) = c" | "chunk_of (Accounted c) = c"

fun is_written :: "patch_phase \<Rightarrow> bool" where
  "is_written (Admitted c) = False" | "is_written (OnDisk c) = True" | "is_written (Accounted c) = True"

fun is_accounted :: "patch_phase \<Rightarrow> bool" where
  "is_accounted (Accounted c) = True" | "is_accounted _ = False"

definition chunks_where :: "(patch_phase \<Rightarrow> bool) \<Rightarrow> patch_phase list \<Rightarrow> bytes multiset" where
  "chunks_where P ps = image_mset chunk_of (filter_mset P (mset ps))"

lemma chunks_update:
  assumes "i < length ps"
  shows "chunks_where P (ps[i := v]) + (if P (ps ! i) then {#chunk_of (ps ! i)#} else {#}) =
    chunks_where P ps + (if P v then {#chunk_of v#} else {#})"
proof -
  have "ps ! i \<in># mset ps" using assms by simp
  then obtain M where M: "mset ps = add_mset (ps ! i) M" by (metis insert_DiffM)
  then have "mset (ps[i := v]) = add_mset v M" using assms by (simp add: mset_update)
  with M show ?thesis by (simp add: chunks_where_def)
qed

text \<open>
  What holds at every moment of a run: the file and the hash have the chunks in some order each, the
  file those on disk, the hash those accounted for.
\<close>

fun patch_inv :: "string \<Rightarrow> string \<Rightarrow> path \<Rightarrow> bytes \<Rightarrow> upload_store \<times> fs \<times> patch_phase list \<Rightarrow> bool" where
  "patch_inv repo s dp b (T, f, ps) \<longleftrightarrow>
     (\<exists>st ws hs. dm_get (up_sessions T) (repo, s) = Some st \<and> us_data_path st = dp \<and>
        file_at f (resolve dp) = Some (b @ concat ws) \<and> us_hasher st = b @ concat hs \<and>
        mset ws = chunks_where is_written ps \<and> mset hs = chunks_where is_accounted ps)"

lemma patch_invI:
  "dm_get (up_sessions T) (repo, s) = Some st \<Longrightarrow> us_data_path st = dp \<Longrightarrow>
   file_at f (resolve dp) = Some (b @ concat ws) \<Longrightarrow> us_hasher st = b @ concat hs \<Longrightarrow>
   mset ws = chunks_where is_written ps \<Longrightarrow> mset hs = chunks_where is_accounted ps \<Longrightarrow>
   patch_inv repo s dp b (T, f, ps)"
  unfolding patch_inv.simps by blast

lemma patch_inv_step:
  assumes "patch_step C ck repo s x y" and "patch_inv repo s dp b x" and dp: "\<not> is_meta_file (resolve dp)"
  shows "patch_inv repo s dp b y"
  using assms(1,2)
proof cases
  case (disk i ps c T st f f')
  from assms(2) disk obtain ws hs where inv: "us_data_path st = dp"
    "file_at f (resolve dp) = Some (b @ concat ws)" "us_hasher st = b @ concat hs"
    "mset ws = chunks_where is_written ps" "mset hs = chunks_where is_accounted ps" by auto
  from append_Inr [OF disk(6)] inv(1,2) have "file_at f' (resolve dp) = Some (b @ concat (ws @ [c]))"
    by (metis append.assoc concat.simps concat_append append_Nil2 file_at_Some fnode.inject option.inject)
  moreover have "mset (ws @ [c]) = chunks_where is_written (ps[i := OnDisk c])"
    "mset hs = chunks_where is_accounted (ps[i := OnDisk c])"
    using chunks_update [OF disk(3), of is_written "OnDisk c"] chunks_update [OF disk(3), of is_accounted "OnDisk c"]
      disk(4) inv(4,5) by auto
  ultimately show ?thesis
    unfolding disk(2) using disk inv by (intro patch_invI [where ws = "ws @ [c]" and hs = hs]) auto
next
  case (acct i ps c T st st' f x f')
  from assms(2) acct obtain ws hs where inv: "us_data_path st = dp"
    "file_at f (resolve dp) = Some (b @ concat ws)" "us_hasher st = b @ concat hs"
    "mset ws = chunks_where is_written ps" "mset hs = chunks_where is_accounted ps" by auto
  have "file_at f' (resolve dp) = file_at f (resolve dp)"
    using fs_call.frame [OF write_meta_for_call, of "resolve dp" C "wall ck" "up_layout T" repo s _ f] dp acct(7)
    by (metis mem_Collect_eq snd_conv)
  moreover have "mset ws = chunks_where is_written (ps[i := Accounted c])"
    "mset (hs @ [c]) = chunks_where is_accounted (ps[i := Accounted c])"
    using chunks_update [OF acct(3), of is_written "Accounted c"] chunks_update [OF acct(3), of is_accounted "Accounted c"]
      acct(4) inv(4,5) by auto
  ultimately show ?thesis
    unfolding acct(2) using acct inv by (intro patch_invI [where st = st' and ws = ws and hs = "hs @ [c]"]) auto
qed

lemma patch_inv_run:
  assumes "(patch_step C ck repo s)\<^sup>*\<^sup>* x y" and "patch_inv repo s dp b x" and "\<not> is_meta_file (resolve dp)"
  shows "patch_inv repo s dp b y"
  using assms by (induction rule: rtranclp_induct) (auto intro: patch_inv_step)

lemma reordering_run:
  assumes l: "live T repo s h b b f"
  shows "\<exists>T' f' st. (patch_step C ck repo s)\<^sup>*\<^sup>* (T, f, [Admitted c1, Admitted c2]) (T', f', [Accounted c1, Accounted c2]) \<and>
    dm_get (up_sessions T') (repo, s) = Some st \<and> us_hasher st = b @ c2 @ c1 \<and>
    file_at f' (resolve (us_data_path st)) = Some (b @ c1 @ c2)"
proof -
  from l obtain st where st: "dm_get (up_sessions T) (repo, s) = Some st" "us_hasher st = b"
    "resolve (us_data_path st) = rdir (up_layout T) repo @ [''_uploads'', data_name s]"
    "file_at f (resolve (us_data_path st)) = Some b" by (auto simp: live_def)
  let ?p = "us_data_path st"
  from st(4) obtain t where t: "lookup f (resolve ?p) = Some (FFile b t)" by (auto simp: file_at_Some)
  have nm: "\<not> is_meta_file (resolve ?p)"
    using data_not_meta [of "rdir (up_layout T) repo @ [''_uploads'']" s] by (simp add: st(3))
  have nf: "no_faults f" using l by (simp add: live_def)
  obtain f1 where f1: "fs_append (wall ck) ?p c1 f = (Inr (), f1)" "lookup f1 (resolve ?p) = Some (FFile (b @ c1) (wall ck))" "no_faults f1"
    by (rule append_ok [OF nf t]) (rule that, assumption+)
  obtain f2 where f2: "fs_append (wall ck) ?p c2 f1 = (Inr (), f2)" "lookup f2 (resolve ?p) = Some (FFile ((b @ c1) @ c2) (wall ck))"
    by (rule append_ok [OF f1(3,2)]) (rule that, assumption+)
  let ?a = "account (wall ck) c2 st" let ?z = "account (wall ck) c1 ?a"
  let ?T3 = "T\<lparr>up_sessions := dm_insert (repo, s) ?a (up_sessions T)\<rparr>"
  let ?T4 = "?T3\<lparr>up_sessions := dm_insert (repo, s) ?z (up_sessions ?T3)\<rparr>"
  obtain x3 f3 where f3: "write_meta_for C (wall ck) (up_layout T) repo s (um_bytes_received (us_meta ?a)) f2 = (x3, f3)" by fastforce
  obtain x4 f4 where f4: "write_meta_for C (wall ck) (up_layout ?T3) repo s (um_bytes_received (us_meta ?z)) f3 = (x4, f4)" by fastforce
  have s1: "patch_step C ck repo s (T, f, [Admitted c1, Admitted c2]) (T, f1, [OnDisk c1, Admitted c2])"
    using patch_step.disk [of 0 "[Admitted c1, Admitted c2]" c1 T repo s st ck f f1 C] st(1) f1(1) by simp
  have s2: "patch_step C ck repo s (T, f1, [OnDisk c1, Admitted c2]) (T, f2, [OnDisk c1, OnDisk c2])"
    using patch_step.disk [of 1 "[OnDisk c1, Admitted c2]" c2 T repo s st ck f1 f2 C] st(1) f2(1) by simp
  have s3: "patch_step C ck repo s (T, f2, [OnDisk c1, OnDisk c2]) (?T3, f3, [OnDisk c1, Accounted c2])"
    using patch_step.acct [of 1 "[OnDisk c1, OnDisk c2]" c2 T repo s st ?a ck C f2 x3 f3] st(1) f3 by simp
  have s4: "patch_step C ck repo s (?T3, f3, [OnDisk c1, Accounted c2]) (?T4, f4, [Accounted c1, Accounted c2])"
    using patch_step.acct [of 0 "[OnDisk c1, Accounted c2]" c1 ?T3 repo s ?a ?z ck C f3 x4 f4] f4 by simp
  have "(patch_step C ck repo s)\<^sup>*\<^sup>* (T, f, [Admitted c1, Admitted c2]) (?T4, f4, [Accounted c1, Accounted c2])"
    by (rule converse_rtranclp_into_rtranclp, rule s1, rule converse_rtranclp_into_rtranclp, rule s2,
        rule converse_rtranclp_into_rtranclp, rule s3, rule converse_rtranclp_into_rtranclp, rule s4, rule rtranclp.rtrancl_refl)
  moreover have "lookup f4 (resolve ?p) = lookup f3 (resolve ?p)" "lookup f3 (resolve ?p) = lookup f2 (resolve ?p)"
    using write_meta_for_lookup [OF nm, of C "wall ck" "up_layout T" repo s "um_bytes_received (us_meta ?a)" f2] f3
      write_meta_for_lookup [OF nm, of C "wall ck" "up_layout T" repo s "um_bytes_received (us_meta ?z)" f3] f4
    by simp_all
  ultimately show ?thesis using f2(2) st(2) by (intro exI [of _ ?T4] exI [of _ f4] exI [of _ ?z]) (auto simp: file_at_def)
qed



end
