(* ===== verification/Local_Tags.thy ===== *)
theory Local_Tags
  imports Cas_Store Text_Codec
begin

text \<open>
  \<^verbatim>\<open>crates/quill-storage/src/local_tags.rs\<close>: the locally pushed tags, in memory and in the sidecar
  file \<^verbatim>\<open>_local_tags.json\<close> of each repository.  The JSON encoding of \<^verbatim>\<open>serde_json\<close> is a parameter
  (\<open>tags_codec\<close>) with its round trip as the named hypothesis \<open>tags_codec_ok\<close>.  The per-repository
  mutexes only serialise the writers; here every call runs to its end.
\<close>

section \<open>Data\<close>

record local_tag_meta =
  tag_digest :: string
  pushed_at :: nat

datatype local_tags_error = LtIo io_error | LtJson

type_synonym on_disk_tags = "(string \<times> local_tag_meta) list"

record tags_codec =
  to_vec_pretty :: "on_disk_tags \<Rightarrow> bytes option"
  from_str :: "string \<Rightarrow> on_disk_tags option"

record local_tags_store =
  lt_layout :: cas_layout
  lt_map :: "(string \<times> string, local_tag_meta) dashmap"

section \<open>Operations\<close>

definition tags_new :: "cas_layout \<Rightarrow> local_tags_store" where
  "tags_new L = \<lparr>lt_layout = L, lt_map = []\<rparr>"

definition tags_get :: "local_tags_store \<Rightarrow> string \<Rightarrow> string \<Rightarrow> local_tag_meta option" where
  "tags_get T repo tag = dm_get (lt_map T) (repo, tag)"

definition tags_list_for_repo :: "local_tags_store \<Rightarrow> string \<Rightarrow> on_disk_tags" where
  "tags_list_for_repo T repo =
     map (\<lambda>((r, t), m). (t, m)) (filter (\<lambda>((r, t), m). r = repo) (lt_map T))"

fun insert_all :: "string \<Rightarrow> on_disk_tags \<Rightarrow> (string \<times> string, local_tag_meta) dashmap \<Rightarrow>
    (string \<times> string, local_tag_meta) dashmap" where
  "insert_all repo [] m = m"
| "insert_all repo ((t, x) # ts) m = insert_all repo ts (dm_insert (repo, t) x m)"

definition tags_load_repo :: "tags_codec \<Rightarrow> string \<Rightarrow> fs \<Rightarrow> local_tags_store \<Rightarrow>
    (local_tags_error + unit) \<times> local_tags_store" where
  "tags_load_repo C repo f T =
     (let p = local_tags_path (lt_layout T) repo in
      if \<not> fs_exists p f then (Inr (), T)
      else case fs_read_to_string p f of
             Inl e \<Rightarrow> (Inl (LtIo e), T)
           | Inr body \<Rightarrow>
               (case from_str C body of
                  None \<Rightarrow> (Inl LtJson, T)
                | Some on_disk \<Rightarrow> (Inr (), T\<lparr>lt_map := insert_all repo on_disk (lt_map T)\<rparr>)))"

definition write_atomic :: "tags_codec \<Rightarrow> nat \<Rightarrow> path \<Rightarrow> on_disk_tags \<Rightarrow> fs \<Rightarrow>
    (local_tags_error + unit) \<times> fs" where
  "write_atomic C now p value f =
     (case fs_create_dir_all (butlast p) f of
        (Inl e, f1) \<Rightarrow> (Inl (LtIo e), f1)
      | (Inr _, f1) \<Rightarrow>
     (case to_vec_pretty C value of
        None \<Rightarrow> (Inl LtJson, f1)
      | Some body \<Rightarrow>
     (case fs_replace now (with_extension p ''json.tmp'') p body f1 of
        (Inl e, f2) \<Rightarrow> (Inl (LtIo e), f2)
      | (Inr _, f2) \<Rightarrow> (Inr (), f2))))"

definition tags_set :: "tags_codec \<Rightarrow> clock \<Rightarrow> string \<Rightarrow> string \<Rightarrow> digest \<Rightarrow> local_tags_store \<Rightarrow> fs \<Rightarrow>
    (local_tags_error + unit) \<times> local_tags_store \<times> fs" where
  "tags_set C ck repo tag d T f =
     (let m = \<lparr>tag_digest = digest_to_string d, pushed_at = wall ck\<rparr>;
          T' = T\<lparr>lt_map := dm_insert (repo, tag) m (lt_map T)\<rparr>
      in case write_atomic C (wall ck) (local_tags_path (lt_layout T) repo) (tags_list_for_repo T' repo) f of
           (r, f') \<Rightarrow> (r, T', f'))"

definition tags_remove :: "tags_codec \<Rightarrow> clock \<Rightarrow> string \<Rightarrow> string \<Rightarrow> local_tags_store \<Rightarrow> fs \<Rightarrow>
    (local_tags_error + bool) \<times> local_tags_store \<times> fs" where
  "tags_remove C ck repo tag T f =
     (if dm_get (lt_map T) (repo, tag) = None then (Inr False, T, f)
      else
        let T' = T\<lparr>lt_map := dm_remove (repo, tag) (lt_map T)\<rparr>
        in case write_atomic C (wall ck) (local_tags_path (lt_layout T) repo) (tags_list_for_repo T' repo) f of
             (Inl e, f') \<Rightarrow> (Inl e, T', f')
           | (Inr _, f') \<Rightarrow> (Inr True, T', f'))"

section \<open>The codec hypothesis\<close>

text \<open>
  \<^verbatim>\<open>serde_json\<close> writes a map of tags as UTF-8 text and reads the same map back.
\<close>

definition tags_codec_ok :: "tags_codec \<Rightarrow> bool" where
  "tags_codec_ok C \<longleftrightarrow> (\<forall>ts. distinct (map fst ts) \<longrightarrow>
     (\<exists>b s ts'. to_vec_pretty C ts = Some b \<and> from_utf8 b = Some s \<and>
        from_str C s = Some ts' \<and> distinct (map fst ts') \<and> map_of ts' = map_of ts))"

section \<open>The map in memory\<close>

definition tags_ok :: "local_tags_store \<Rightarrow> bool" where
  "tags_ok T \<longleftrightarrow> dm_ok (lt_map T)"

lemma list_for_repo_map: "tags_ok T \<Longrightarrow> map_of (tags_list_for_repo T repo) t = tags_get T repo t"
proof -
  have "map_of (map (\<lambda>((r, t), m). (t, m)) (filter (\<lambda>((r, t), m). r = repo) xs)) t = map_of xs (repo, t)"
    for xs :: "((string \<times> string) \<times> local_tag_meta) list"
    by (induction xs) auto
  then show ?thesis by (simp add: tags_list_for_repo_def tags_get_def dm_get_def)
qed

lemma list_for_repo_distinct: "tags_ok T \<Longrightarrow> distinct (map fst (tags_list_for_repo T repo))"
proof -
  have "distinct (map fst xs) \<Longrightarrow>
    distinct (map fst (map (\<lambda>((r, t), m). (t, m)) (filter (\<lambda>((r, t), m). r = repo) xs)))"
    for xs :: "((string \<times> string) \<times> local_tag_meta) list"
    by (induction xs) (auto simp: image_iff split: prod.splits)
  then show "tags_ok T \<Longrightarrow> ?thesis" by (simp add: tags_ok_def dm_ok_def tags_list_for_repo_def)
qed

lemma insert_all_get:
  "dm_get (insert_all repo ts m) (r, t) =
     (if r = repo then (case map_of (rev ts) t of Some x \<Rightarrow> Some x | None \<Rightarrow> dm_get m (r, t))
      else dm_get m (r, t))"
  by (induction repo ts m rule: insert_all.induct) (auto simp: map_of_append map_add_def split: option.splits)

section \<open>The sidecar file\<close>

lemma local_tags_tmp: "with_extension (local_tags_path L repo) ''json.tmp'' = repo_dir L repo @ [''_local_tags.json.tmp'']"
  using with_ext_simple [of "''json''" "''_local_tags''" "''json.tmp''"]
  by (simp add: with_extension_def local_tags_path_def path_join_plain)

lemma resolve_local_tags_tmp [path_simps]:
  "resolve (with_extension (local_tags_path L repo) ''json.tmp'') = rdir L repo @ [''_local_tags.json.tmp'']"
  by (simp add: local_tags_tmp rdir_def resolve_plain_snoc plain_name_def)

lemma local_tags_tmp_not_slot [simp]: "\<not> is_slot (p @ [''_local_tags.json.tmp''])"
  by (simp add: not_hex64_not_slot hex64_def)

lemma write_atomic_call:
  "fs_call (write_atomic C now p v) {resolve (with_extension p ''json.tmp''), resolve p}"
proof -
  let ?T = "{resolve (with_extension p ''json.tmp''), resolve p}"
  have m: "fs_call (fs_create_dir_all q) ?T" for q by (rule sys_mkdir.widen) simp
  have r: "fs_call (\<lambda>f1. case to_vec_pretty C v of None \<Rightarrow> (Inl LtJson, f1) | Some body \<Rightarrow>
      (case fs_replace now (with_extension p ''json.tmp'') p body f1 of
        (Inl e, f2) \<Rightarrow> (Inl (LtIo e), f2) | (Inr _, f2) \<Rightarrow> (Inr (), f2))) ?T"
    by (cases "to_vec_pretty C v")
      (auto intro!: fs_call_return fs_call_try sys_replace.fs_call_axioms)
  show ?thesis unfolding write_atomic_def [abs_def] by (intro fs_call_try m r)
qed

interpretation local_sidecar: atomic_save "write_atomic C now (local_tags_path L repo) v" "\<lambda>r. r = Inr ()"
  "rdir L repo @ [''_local_tags.json'']" "rdir L repo @ [''_local_tags.json.tmp'']" "to_vec_pretty C v"
  for C now L repo v
proof
  fix q f assume "q \<noteq> rdir L repo @ [''_local_tags.json'']" "q \<noteq> rdir L repo @ [''_local_tags.json.tmp'']"
  then show "file_at (snd (write_atomic C now (local_tags_path L repo) v f)) q = file_at f q"
    using fs_call.frame [OF write_atomic_call, of q "local_tags_path L repo" C now v f]
    by (simp add: path_simps)
next
  fix f assume "fst (write_atomic C now (local_tags_path L repo) v f) = Inr ()"
  then show "to_vec_pretty C v \<noteq> None \<and>
      file_at (snd (write_atomic C now (local_tags_path L repo) v f)) (rdir L repo @ [''_local_tags.json'']) =
      to_vec_pretty C v"
    by (auto simp: write_atomic_def path_simps dest: replace_Inr split: prod.splits sum.splits option.splits)
next
  fix f assume n: "fst (write_atomic C now (local_tags_path L repo) v f) \<noteq> Inr ()"
  let ?p = "local_tags_path L repo"
  have m: "file_at (snd (fs_create_dir_all (butlast ?p) f)) (resolve ?p) = file_at f (resolve ?p)"
    by (rule sys_mkdir.frame) simp
  have "resolve (with_extension ?p ''json.tmp'') \<noteq> resolve ?p" by (simp add: path_simps)
  with n m show "file_at (snd (write_atomic C now ?p v f)) (rdir L repo @ [''_local_tags.json'']) =
      file_at f (rdir L repo @ [''_local_tags.json''])"
    unfolding resolve_local_tags [symmetric]
    by (auto simp: write_atomic_def dest: replace_Inl split: prod.splits sum.splits option.splits)
qed

lemma write_atomic_keeps_cas [cas_intros]:
  "cas_ok sha f \<Longrightarrow> cas_ok sha (snd (write_atomic C now (local_tags_path L repo) v f))"
  by (rule fs_call.keeps_cas [OF write_atomic_call]) (auto simp: path_simps)

section \<open>Memory and disk agree\<close>

text \<open>The sidecar of a repository holds exactly its tags in memory.\<close>

definition sidecar_synced :: "tags_codec \<Rightarrow> local_tags_store \<Rightarrow> string \<Rightarrow> fs \<Rightarrow> bool" where
  "sidecar_synced C T repo f \<longleftrightarrow>
     (case file_at f (rdir (lt_layout T) repo @ [''_local_tags.json'']) of
        None \<Rightarrow> \<forall>t. tags_get T repo t = None
      | Some b \<Rightarrow> \<exists>s ts. from_utf8 b = Some s \<and> from_str C s = Some ts \<and> distinct (map fst ts) \<and>
          (\<forall>t. map_of ts t = tags_get T repo t))"

lemma synced_after_save:
  assumes C: "tags_codec_ok C" and T: "tags_ok T"
    and w: "write_atomic C now (local_tags_path (lt_layout T) repo) (tags_list_for_repo T repo) f = (Inr (), f')"
  shows "sidecar_synced C T repo f'"
proof -
  from C list_for_repo_distinct [OF T, of repo] obtain b s ts'
    where b: "to_vec_pretty C (tags_list_for_repo T repo) = Some b" "from_utf8 b = Some s"
      "from_str C s = Some ts'" "distinct (map fst ts')" "map_of ts' = map_of (tags_list_for_repo T repo)"
    unfolding tags_codec_ok_def by blast
  have "file_at f' (rdir (lt_layout T) repo @ [''_local_tags.json'']) = Some b"
    using local_sidecar.save_done [of C now "lt_layout T" repo "tags_list_for_repo T repo" f] w b(1) by simp
  with b list_for_repo_map [OF T] show ?thesis by (auto simp: sidecar_synced_def)
qed

lemma synced_other_repo:
  assumes "sidecar_synced C T r f" and "rdir (lt_layout T) r \<noteq> rdir (lt_layout T) repo"
    and "\<And>t. tags_get T' r t = tags_get T r t" and "lt_layout T' = lt_layout T"
  shows "sidecar_synced C T' r (snd (write_atomic C' now (local_tags_path (lt_layout T) repo) v f))"
proof -
  from assms(3) have "tags_get T' r = tags_get T r" by (rule ext)
  then show ?thesis
    using assms local_sidecar.save_frame [of "rdir (lt_layout T) r @ [''_local_tags.json'']" "lt_layout T" repo C' now v f]
    by (auto simp: sidecar_synced_def split: option.splits)
qed

lemma write_atomic_ok:
  assumes nf: "no_faults f" and clear: "dir_clear f (rdir L repo)"
    and t: "lookup f (rdir L repo @ [''_local_tags.json'']) \<noteq> Some FDir"
    and u: "lookup f (rdir L repo @ [''_local_tags.json.tmp'']) \<noteq> Some FDir"
    and b: "to_vec_pretty C v \<noteq> None"
  obtains f' where "write_atomic C now (local_tags_path L repo) v f = (Inr (), f')"
proof -
  let ?p = "local_tags_path L repo" and ?D = "rdir L repo"
  let ?tmp = "with_extension ?p ''json.tmp''"
  have dir: "resolve (butlast ?p) = ?D" by (simp add: local_tags_path_def path_simps rdir_def)
  from nf clear obtain f1 where m: "fs_create_dir_all (butlast ?p) f = (Inr (), f1)"
    and d1: "lookup f1 ?D = Some FDir" and nf1: "no_faults f1"
    and o1: "\<And>q. \<not> prefix q ?D \<Longrightarrow> lookup f1 q = lookup f q"
    using create_dir_all_ok [of f "butlast ?p"] unfolding dir by metis
  from b obtain body where b: "to_vec_pretty C v = Some body" by auto
  have len: "\<not> prefix (?D @ [c]) ?D" for c by (auto dest: prefix_length_le)
  obtain f2 where w: "fs_write now ?tmp body f1 = (Inr (), f2)"
    and l2: "lookup f2 (?D @ [''_local_tags.json.tmp'']) = Some (FFile body now)" and nf2: "no_faults f2"
    and o2: "\<And>q. q \<noteq> ?D @ [''_local_tags.json.tmp''] \<Longrightarrow> lookup f2 q = lookup f1 q"
  proof (rule write_ok [OF nf1, of ?tmp now body])
    show "lookup f1 (butlast (resolve ?tmp)) = Some FDir" using d1 by (simp add: path_simps)
    show "lookup f1 (resolve ?tmp) \<noteq> Some FDir" using u o1 [OF len] by (simp add: path_simps)
  qed (use that in \<open>simp add: path_simps\<close>)
  obtain f3 where r: "fs_rename ?tmp ?p f2 = (Inr (), f3)"
  proof (rule rename_ok [OF nf2])
    show "lookup f2 (resolve ?tmp) = Some (FFile body now)" using l2 by (simp add: path_simps)
    show "lookup f2 (butlast (resolve ?p)) = Some FDir" using d1 o2 [of ?D] by (simp add: path_simps)
    show "lookup f2 (resolve ?p) \<noteq> Some FDir"
      using t o1 [OF len] o2 [of "?D @ [''_local_tags.json'']"] by (simp add: path_simps)
  qed
  show thesis by (rule that [of f3]) (simp add: write_atomic_def m b fs_replace_def w r)
qed

lemma tags_ok_upd [simp]:
  "tags_ok T \<Longrightarrow> tags_ok (T\<lparr>lt_map := dm_insert k m (lt_map T)\<rparr>)"
  "tags_ok T \<Longrightarrow> tags_ok (T\<lparr>lt_map := dm_remove k (lt_map T)\<rparr>)"
  by (simp_all add: tags_ok_def)

text \<open>
  Setting a tag: in memory exactly that tag changes, to the printed digest and the time of the
  push; the only files touched are the repository's sidecar and its temporary file; if the call
  reports an error, the sidecar still has its old contents.
\<close>

lemma tags_set_spec:
  assumes "tags_set C ck repo tag d T f = (r, T', f')"
  shows "(\<forall>r' t'. tags_get T' r' t' =
      (if (r', t') = (repo, tag) then Some \<lparr>tag_digest = digest_to_string d, pushed_at = wall ck\<rparr>
       else tags_get T r' t')) \<and>
    (\<forall>q. q \<noteq> rdir (lt_layout T) repo @ [''_local_tags.json''] \<longrightarrow>
         q \<noteq> rdir (lt_layout T) repo @ [''_local_tags.json.tmp''] \<longrightarrow> file_at f' q = file_at f q) \<and>
    (r \<noteq> Inr () \<longrightarrow> file_at f' (rdir (lt_layout T) repo @ [''_local_tags.json'']) =
                   file_at f (rdir (lt_layout T) repo @ [''_local_tags.json'']))"
proof -
  define m where "m = \<lparr>tag_digest = digest_to_string d, pushed_at = wall ck\<rparr>"
  have T': "T' = T\<lparr>lt_map := dm_insert (repo, tag) m (lt_map T)\<rparr>"
    and w: "write_atomic C (wall ck) (local_tags_path (lt_layout T) repo) (tags_list_for_repo T' repo) f = (r, f')"
    using assms by (auto simp: tags_set_def Let_def m_def split: prod.splits)
  show ?thesis
    using local_sidecar.save_frame [of _ "lt_layout T" repo C "wall ck" "tags_list_for_repo T' repo" f]
      local_sidecar.save_failed [of C "wall ck" "lt_layout T" repo "tags_list_for_repo T' repo" f] w
    by (simp add: T' tags_get_def m_def)
qed

text \<open>A codec of the required kind.\<close>

fun triples :: "string list \<Rightarrow> on_disk_tags" where
  "triples (t # d # n # ss) = (t, \<lparr>tag_digest = d, pushed_at = length n\<rparr>) # triples ss"
| "triples _ = []"

definition demo_codec :: tags_codec where
  "demo_codec = \<lparr>
     to_vec_pretty = (\<lambda>ts. Some (to_bytes (enc_strs
       (concat (map (\<lambda>(t, m). [t, tag_digest m, enc_num (pushed_at m)]) ts))))),
     from_str = (\<lambda>s. Some (triples (dec_strs s)))\<rparr>"

lemma triples_concat: "triples (concat (map (\<lambda>(t, m). [t, tag_digest m, enc_num (pushed_at m)]) ts)) = ts"
  by (induction ts) auto

lemma demo_codec_ok: "tags_codec_ok demo_codec"
  by (simp add: tags_codec_ok_def demo_codec_def from_utf8_enc dec_enc triples_concat)

text \<open>
  C17. Tags survive a restart: after a successful push or removal of a tag, a fresh store that loads
  the repository's sidecar answers every lookup in that repository as the running store does.
\<close>

theorem tags_persist:
  assumes C: "tags_codec_ok C" and T: "tags_ok T" and nf: "no_faults f"
    and op: "tags_set C ck repo tag d T f = (Inr (), T', f') \<or> tags_remove C ck repo tag T f = (Inr True, T', f')"
  shows "\<exists>T2. tags_load_repo C repo f' (tags_new (lt_layout T)) = (Inr (), T2) \<and>
    (\<forall>t. tags_get T2 repo t = tags_get T' repo t)"
proof -
  let ?p = "local_tags_path (lt_layout T) repo"
  obtain k where T': "T' = T\<lparr>lt_map := k (lt_map T)\<rparr>" and ok: "tags_ok T'"
    and w: "write_atomic C (wall ck) ?p (tags_list_for_repo T' repo) f = (Inr (), f')"
    using op T
    by (auto simp: tags_set_def tags_remove_def Let_def split: prod.splits sum.splits if_splits)
  have L: "lt_layout T' = lt_layout T" by (simp add: T')
  have "sidecar_synced C T' repo f'"
    using synced_after_save [OF C ok] w by (simp add: L)
  moreover have "file_at f' (rdir (lt_layout T) repo @ [''_local_tags.json'']) \<noteq> None"
    using local_sidecar.save_done [of C "wall ck" "lt_layout T" repo "tags_list_for_repo T' repo" f] w by auto
  ultimately obtain b s ts where b: "file_at f' (resolve ?p) = Some b" "from_utf8 b = Some s"
    "from_str C s = Some ts" "distinct (map fst ts)" "\<forall>t. map_of ts t = tags_get T' repo t"
    by (auto simp: sidecar_synced_def L resolve_local_tags)
  have nf': "no_faults f'"
    using fs_call.keeps_faults [OF write_atomic_call, of C "wall ck" ?p _ f] w nf
    by (metis no_faults_cong snd_conv)
  from b(1) obtain t where lk: "lookup f' (resolve ?p) = Some (FFile b t)" by (auto simp: file_at_Some)
  have "fs_exists ?p f'" using lk nf' by (simp add: fs_exists_def fs_metadata_def node_at_def)
  moreover have "fs_read_to_string ?p f' = Inr s"
    using read_ok [OF nf' b(1)] b(2) by (simp add: fs_read_to_string_def)
  ultimately show ?thesis
    using b(3-5)
    by (auto simp: tags_load_repo_def tags_new_def Let_def tags_get_def insert_all_get
        map_of_rev_distinct split: option.splits)
qed

theorem tags_persist_witness:
  "\<exists>T' f' T2. tags_set demo_codec \<lparr>inst = 0, wall = 9, pid = 1\<rparr> ''a/b'' ''v1'' (sha256_digest (replicate 64 (CHR ''0'')))
      (tags_new \<lparr>root = [''q'']\<rparr>) \<lparr>nodes = [], faults = (\<lambda>_ _. None)\<rparr> = (Inr (), T', f') \<and>
     tags_load_repo demo_codec ''a/b'' f' (tags_new \<lparr>root = [''q'']\<rparr>) = (Inr (), T2) \<and>
     map_option pushed_at (tags_get T2 ''a/b'' ''v1'') = Some 9"
proof -
  let ?f = "\<lparr>nodes = [], faults = (\<lambda>_ _. None)\<rparr> :: fs" and ?L = "\<lparr>root = [''q'']\<rparr> :: cas_layout"
  let ?ck = "\<lparr>inst = 0, wall = 9, pid = 1\<rparr> :: clock" and ?d = "sha256_digest (replicate 64 (CHR ''0''))"
  have f: "no_faults ?f" "dir_clear ?f q" "lookup ?f (q @ [c]) = None" for q c
    by (simp_all add: no_faults_def dir_clear_def lookup_def)
  have b: "to_vec_pretty demo_codec v \<noteq> None" for v by (simp add: demo_codec_def)
  obtain T' f' where s: "tags_set demo_codec ?ck ''a/b'' ''v1'' ?d (tags_new ?L) ?f = (Inr (), T', f')"
    and g: "map_option pushed_at (tags_get T' ''a/b'' ''v1'') = Some 9"
  proof -
    let ?T = "(tags_new ?L)\<lparr>lt_map := dm_insert (''a/b'', ''v1'') \<lparr>tag_digest = digest_to_string ?d, pushed_at = 9\<rparr>
      (lt_map (tags_new ?L))\<rparr>"
    obtain f' where "write_atomic demo_codec 9 (local_tags_path ?L ''a/b'') (tags_list_for_repo ?T ''a/b'') ?f = (Inr (), f')"
      by (rule write_atomic_ok [OF f(1,2) _ _ b, of ?L "''a/b''"]) (simp_all add: f(3))
    then show thesis
      by (intro that [of ?T f']) (simp_all add: tags_set_def tags_new_def tags_get_def)
  qed
  have T: "tags_ok (tags_new ?L)" by (simp add: tags_ok_def tags_new_def)
  have L: "lt_layout (tags_new ?L) = ?L" by (simp add: tags_new_def)
  from tags_persist [OF demo_codec_ok T f(1) disjI1 [OF s]] s g show ?thesis unfolding L by metis
qed

end
