(* ===== verification/Display.thy ===== *)
theory Display
  imports Http Uploads Local_Tags Pullthrough
begin

text \<open>
  The \<^verbatim>\<open>Display\<close> texts of the error types (\<^verbatim>\<open>thiserror\<close> attributes), which the registry puts into its
  error responses.  The texts of \<^verbatim>\<open>std::io::Error\<close> and of \<^verbatim>\<open>serde_json::Error\<close> depend on the platform and
  the library and are parameters.
\<close>

record err_texts =
  et_io :: "io_error \<Rightarrow> string"
  et_json :: string

definition digest_error_str :: "digest_error \<Rightarrow> string" where
  "digest_error_str e =
     (case e of
        MissingSeparator \<Rightarrow> ''missing algorithm separator (expected algo:hex)''
      | UnsupportedAlgorithm a \<Rightarrow> ''unsupported algorithm: '' @ a
      | InvalidHexLength expected got \<Rightarrow> ''invalid hex length: expected '' @ dec expected @ '', got '' @ dec got
      | InvalidHex \<Rightarrow> ''invalid hex character'')"

definition storage_error_str :: "err_texts \<Rightarrow> storage_error \<Rightarrow> string" where
  "storage_error_str E e =
     (case e of
        SIo x \<Rightarrow> ''io: '' @ et_io E x
      | SNotFound s \<Rightarrow> ''blob not found: '' @ s
      | SDigestMismatch expected got \<Rightarrow> ''digest mismatch: expected '' @ expected @ '', got '' @ got)"

definition local_tags_error_str :: "err_texts \<Rightarrow> local_tags_error \<Rightarrow> string" where
  "local_tags_error_str E e = (case e of LtIo x \<Rightarrow> ''io: '' @ et_io E x | LtJson \<Rightarrow> ''json: '' @ et_json E)"

definition upload_error_str :: "err_texts \<Rightarrow> upload_error \<Rightarrow> string" where
  "upload_error_str E e =
     (case e of
        UIo x \<Rightarrow> ''io: '' @ et_io E x
      | UNotFound s \<Rightarrow> ''session not found: '' @ s
      | UDigestMismatch expected got \<Rightarrow> ''digest mismatch: expected '' @ expected @ '', got '' @ got
      | UInvalidRange r \<Rightarrow> ''invalid range: '' @ r
      | UAlreadyFinalized \<Rightarrow> ''session already finalized''
      | UJson \<Rightarrow> ''json: '' @ et_json E)"

definition pullthrough_error_str :: "err_texts \<Rightarrow> pullthrough_error \<Rightarrow> string" where
  "pullthrough_error_str E e =
     (case e of
        PUpstream s \<Rightarrow> ''upstream: '' @ s
      | PDigestMismatch expected got \<Rightarrow> ''digest mismatch: expected '' @ expected @ '', got '' @ got
      | PIo x \<Rightarrow> ''io: '' @ et_io E x
      | PProducerGone \<Rightarrow> ''producer dropped without completion'')"

end
