(* ===== verification/Upstream.thy ===== *)
theory Upstream
  imports Config Display
begin

text \<open>
  \<^verbatim>\<open>crates/quill-upstream/src/\<close>: the client of the upstream registries.  \<^verbatim>\<open>auth.rs\<close> is the challenge parser,
  the bearer token cache and the token exchange, \<^verbatim>\<open>client.rs\<close> the HTTP operations with their retry,
  \<^verbatim>\<open>router.rs\<close> the choice of the upstream of a repository.  The network, the URL type and the JSON parser
  are not part of the repository: they are the parameters of the record \<open>http_lib\<close>.  The network answers
  a request as a function of all requests sent so far, so that the order and number of requests is part
  of every statement.  The locale \<open>upstream_contract\<close> is what the registry relies on of an upstream
  client; the HTTP client is an instance.
\<close>

section \<open>The libraries\<close>

datatype req_auth = NoAuth | BasicAuth string string | BearerAuth string

record http_request =
  rq_method :: http_method
  rq_url :: string
  rq_accept :: "string option"
  rq_auth :: req_auth

record http_response =
  rs_status :: nat
  rs_headers :: header_map
  rs_body :: stream

record token_response =
  tr_token :: "string option"
  tr_access_token :: "string option"
  tr_expires_in :: "u64 option"

text \<open>
  \<open>hl_send\<close> is the network, \<open>hl_url_parse\<close> and the two that follow the \<^verbatim>\<open>url\<close> crate on serialised URLs,
  \<open>hl_token_json\<close> and \<open>hl_json\<close> the \<^verbatim>\<open>serde_json\<close> decoding, \<open>hl_build_error\<close> the outcome of building the
  client.
\<close>

record http_lib =
  hl_send :: "http_request list \<Rightarrow> string + http_response"
  hl_url_parse :: "string \<Rightarrow> string + string"
  hl_url_set_path :: "string \<Rightarrow> string \<Rightarrow> string"
  hl_url_append_pair :: "string \<Rightarrow> string \<Rightarrow> string \<Rightarrow> string"
  hl_token_json :: "bytes \<Rightarrow> token_response option"
  hl_json :: "bytes \<Rightarrow> json option"
  hl_json_error :: string
  hl_build_error :: "string option"

section \<open>Challenges\<close>

datatype auth_mode = Anonymous | Basic string string

datatype auth_error = ATransport string | AMalformedChallenge | ATokenStatus nat

record token_request =
  tk_realm :: string
  tk_service :: "string option"
  tk_scope :: "string option"

definition challenge_param :: "string \<Rightarrow> (string, string) dashmap \<Rightarrow> (string, string) dashmap" where
  "challenge_param kv params =
     (case split_once (CHR ''='') (trim kv) of
        None \<Rightarrow> params
      | Some (k, v) \<Rightarrow> dm_insert (trim k) (trim_matches (CHR 0x22) (trim v)) params)"

definition parse_challenge :: "string \<Rightarrow> token_request option" where
  "parse_challenge header =
     (case strip_prefix_str ''Bearer '' (trim header) of
        None \<Rightarrow> None
      | Some rest \<Rightarrow>
          (let params = foldl (\<lambda>m kv. challenge_param kv m) [] (split_on (CHR '','') rest) in
           case dm_get params ''realm'' of
             None \<Rightarrow> None
           | Some realm \<Rightarrow> Some \<lparr>tk_realm = realm, tk_service = dm_get params ''service'', tk_scope = dm_get params ''scope''\<rparr>))"

definition cache_key :: "token_request \<Rightarrow> string \<times> string" where
  "cache_key r = (tk_realm r, case tk_scope r of None \<Rightarrow> [] | Some s \<Rightarrow> s)"

section \<open>The bearer token cache\<close>

record cached_token =
  ct_bearer :: string
  ct_valid_until :: nat

type_synonym bearer_cache = "(string \<times> string, cached_token) dashmap"

definition bearer_new :: bearer_cache where
  "bearer_new = []"

definition bearer_get :: "nat \<Rightarrow> bearer_cache \<Rightarrow> string \<times> string \<Rightarrow> string option" where
  "bearer_get now B k =
     (case dm_get B k of
        None \<Rightarrow> None
      | Some e \<Rightarrow> if now < ct_valid_until e then Some (ct_bearer e) else None)"

definition bearer_insert :: "nat \<Rightarrow> string \<times> string \<Rightarrow> string \<Rightarrow> nat \<Rightarrow> bearer_cache \<Rightarrow> bearer_cache" where
  "bearer_insert now k bearer ttl B = dm_insert k \<lparr>ct_bearer = bearer, ct_valid_until = now + ttl\<rparr> B"

text \<open>\<^verbatim>\<open>expires_in.unwrap_or(60).max(30).saturating_sub(15)\<close>, in seconds; instants are in nanoseconds.\<close>

definition token_ttl :: "u64 option \<Rightarrow> u64" where
  "token_ttl expires_in = sat_sub (max (case expires_in of None \<Rightarrow> 60 | Some n \<Rightarrow> n) 30) 15"

definition from_secs :: "u64 \<Rightarrow> nat" where
  "from_secs s = unat s * 10 ^ 9"

definition token_url :: "http_lib \<Rightarrow> token_request \<Rightarrow> auth_error + string" where
  "token_url H r =
     (case hl_url_parse H (tk_realm r) of
        Inl _ \<Rightarrow> Inl AMalformedChallenge
      | Inr u \<Rightarrow>
          (let u1 = (case tk_service r of None \<Rightarrow> u | Some s \<Rightarrow> hl_url_append_pair H ''service'' s u)
           in Inr (case tk_scope r of None \<Rightarrow> u1 | Some s \<Rightarrow> hl_url_append_pair H ''scope'' s u1)))"

definition bearer_fetch :: "http_lib \<Rightarrow> nat \<Rightarrow> token_request \<Rightarrow> auth_mode \<Rightarrow> bearer_cache \<Rightarrow> http_request list \<Rightarrow>
    (auth_error + string) \<times> bearer_cache \<times> http_request list" where
  "bearer_fetch H now r mode B log =
     (case bearer_get now B (cache_key r) of
        Some t \<Rightarrow> (Inr t, B, log)
      | None \<Rightarrow>
     (case token_url H r of
        Inl e \<Rightarrow> (Inl e, B, log)
      | Inr url \<Rightarrow>
     (let rq = \<lparr>rq_method = GET, rq_url = url, rq_accept = None,
                rq_auth = (case mode of Basic u p \<Rightarrow> BasicAuth u p | Anonymous \<Rightarrow> NoAuth)\<rparr>;
          log1 = log @ [rq] in
      case hl_send H log1 of
        Inl e \<Rightarrow> (Inl (ATransport e), B, log1)
      | Inr resp \<Rightarrow>
          if \<not> is_success (rs_status resp) then (Inl (ATokenStatus (rs_status resp)), B, log1)
          else case collect_stream (rs_body resp) of
                 Inl e \<Rightarrow> (Inl (ATransport e), B, log1)
               | Inr body \<Rightarrow>
                   (case hl_token_json H body of
                      None \<Rightarrow> (Inl (ATransport (hl_json_error H)), B, log1)
                    | Some parsed \<Rightarrow>
                        (case (case tr_token parsed of Some t \<Rightarrow> Some t | None \<Rightarrow> tr_access_token parsed) of
                           None \<Rightarrow> (Inl AMalformedChallenge, B, log1)
                         | Some bearer \<Rightarrow>
                             (Inr bearer,
                              bearer_insert now (cache_key r) bearer (from_secs (token_ttl (tr_expires_in parsed))) B,
                              log1))))))"

section \<open>The HTTP client\<close>

datatype upstream_error =
    UpTransport string
  | UpAuth auth_error
  | UpStatus nat string
  | UpMissingDigest
  | UpInvalidDigest string
  | UpInvalidUrl string

definition auth_error_str :: "auth_error \<Rightarrow> string" where
  "auth_error_str e =
     (case e of
        ATransport s \<Rightarrow> ''transport: '' @ s
      | AMalformedChallenge \<Rightarrow> ''missing or malformed WWW-Authenticate header''
      | ATokenStatus n \<Rightarrow> ''token endpoint returned status '' @ dec n)"

definition upstream_error_str :: "upstream_error \<Rightarrow> string" where
  "upstream_error_str e =
     (case e of
        UpTransport s \<Rightarrow> ''transport: '' @ s
      | UpAuth a \<Rightarrow> ''auth: '' @ auth_error_str a
      | UpStatus n url \<Rightarrow> ''upstream returned '' @ dec n @ '' for '' @ url
      | UpMissingDigest \<Rightarrow> ''missing Docker-Content-Digest on HEAD response''
      | UpInvalidDigest s \<Rightarrow> ''invalid digest from upstream: '' @ s
      | UpInvalidUrl s \<Rightarrow> ''invalid url: '' @ s)"

record manifest_response =
  mr_bytes :: bytes
  mr_content_type :: string
  mr_digest :: digest

record http_upstream =
  hu_name :: string
  hu_base_url :: string
  hu_auth_mode :: auth_mode

text \<open>What the operations of a client change: its token cache and the requests it has sent.\<close>

type_synonym http_world = "bearer_cache \<times> http_request list"

definition http_new :: "http_lib \<Rightarrow> string \<Rightarrow> string \<Rightarrow> auth_mode \<Rightarrow> upstream_error + http_upstream" where
  "http_new H name base_url mode =
     (case hl_url_parse H base_url of
        Inl e \<Rightarrow> Inl (UpInvalidUrl (base_url @ '': '' @ e))
      | Inr u \<Rightarrow>
          (case hl_build_error H of
             Some e \<Rightarrow> Inl (UpTransport e)
           | None \<Rightarrow> Inr \<lparr>hu_name = name, hu_base_url = u, hu_auth_mode = mode\<rparr>))"

definition url_for :: "http_lib \<Rightarrow> http_upstream \<Rightarrow> string \<Rightarrow> string" where
  "url_for H U p =
     hl_url_set_path H (case strip_prefix_str ''/'' p of Some t \<Rightarrow> t | None \<Rightarrow> p) (hu_base_url U)"

definition manifest_accept :: string where
  "manifest_accept =
     ''application/vnd.oci.image.manifest.v1+json,'' @
     ''application/vnd.oci.image.index.v1+json,'' @
     ''application/vnd.docker.distribution.manifest.v2+json,'' @
     ''application/vnd.docker.distribution.manifest.list.v2+json,'' @
     ''application/vnd.docker.distribution.manifest.v1+json''"

definition make_request :: "http_upstream \<Rightarrow> http_method \<Rightarrow> string \<Rightarrow> string option \<Rightarrow> string option \<Rightarrow> http_request" where
  "make_request U meth url accept bearer =
     \<lparr>rq_method = meth, rq_url = url, rq_accept = accept,
      rq_auth = (case bearer of
                   Some t \<Rightarrow> BearerAuth t
                 | None \<Rightarrow> (case hu_auth_mode U of Basic u p \<Rightarrow> BasicAuth u p | Anonymous \<Rightarrow> NoAuth))\<rparr>"

definition send_with_auth :: "http_lib \<Rightarrow> nat \<Rightarrow> http_upstream \<Rightarrow> http_method \<Rightarrow> string \<Rightarrow> string option \<Rightarrow>
    http_world \<Rightarrow> (upstream_error + http_response) \<times> http_world" where
  "send_with_auth H now U meth url accept w =
     (case w of (B, log) \<Rightarrow>
      let log1 = log @ [make_request U meth url accept None] in
      case hl_send H log1 of
        Inl e \<Rightarrow> (Inl (UpTransport e), B, log1)
      | Inr resp \<Rightarrow>
          if rs_status resp \<noteq> 401 then (Inr resp, B, log1)
          else case Option.bind (hdr_str ''www-authenticate'' (rs_headers resp)) parse_challenge of
                 None \<Rightarrow> (Inl (UpStatus 401 url), B, log1)
               | Some challenge \<Rightarrow>
                   (case bearer_fetch H now challenge (hu_auth_mode U) B log1 of
                      (Inl e, B2, log2) \<Rightarrow> (Inl (UpAuth e), B2, log2)
                    | (Inr bearer, B2, log2) \<Rightarrow>
                        (let log3 = log2 @ [make_request U meth url accept (Some bearer)] in
                         case hl_send H log3 of
                           Inl e \<Rightarrow> (Inl (UpTransport e), B2, log3)
                         | Inr resp2 \<Rightarrow> (Inr resp2, B2, log3))))"

definition manifest_url :: "http_lib \<Rightarrow> http_upstream \<Rightarrow> string \<Rightarrow> string \<Rightarrow> string" where
  "manifest_url H U repo reference = url_for H U (''/v2/'' @ repo @ ''/manifests/'' @ reference)"

definition http_resolve_tag :: "http_lib \<Rightarrow> nat \<Rightarrow> http_upstream \<Rightarrow> string \<Rightarrow> string \<Rightarrow> http_world \<Rightarrow>
    (upstream_error + digest) \<times> http_world" where
  "http_resolve_tag H now U repo reference w =
     (let url = manifest_url H U repo reference in
      case send_with_auth H now U HEAD url (Some manifest_accept) w of
        (Inl e, w1) \<Rightarrow> (Inl e, w1)
      | (Inr resp, w1) \<Rightarrow>
          if \<not> is_success (rs_status resp) then (Inl (UpStatus (rs_status resp) url), w1)
          else case hdr_str ''docker-content-digest'' (rs_headers resp) of
                 None \<Rightarrow> (Inl UpMissingDigest, w1)
               | Some h \<Rightarrow>
                   (case digest_parse h of
                      Inl e \<Rightarrow> (Inl (UpInvalidDigest (h @ '': '' @ digest_error_str e)), w1)
                    | Inr d \<Rightarrow> (Inr d, w1)))"

definition digest_from_bytes :: "(bytes \<Rightarrow> string) \<Rightarrow> bytes \<Rightarrow> digest" where
  "digest_from_bytes sha b = sha256_digest (sha b)"

definition http_get_manifest :: "http_lib \<Rightarrow> (bytes \<Rightarrow> string) \<Rightarrow> nat \<Rightarrow> http_upstream \<Rightarrow> string \<Rightarrow> string \<Rightarrow> http_world \<Rightarrow>
    (upstream_error + manifest_response) \<times> http_world" where
  "http_get_manifest H sha now U repo reference w =
     (let url = manifest_url H U repo reference in
      case send_with_auth H now U GET url (Some manifest_accept) w of
        (Inl e, w1) \<Rightarrow> (Inl e, w1)
      | (Inr resp, w1) \<Rightarrow>
          if \<not> is_success (rs_status resp) then (Inl (UpStatus (rs_status resp) url), w1)
          else
            let content_type = (case hdr_str ''content-type'' (rs_headers resp) of
                                  None \<Rightarrow> ''application/vnd.oci.image.manifest.v1+json'' | Some t \<Rightarrow> t) in
            case collect_stream (rs_body resp) of
              Inl e \<Rightarrow> (Inl (UpTransport e), w1)
            | Inr b \<Rightarrow>
                (case hdr_str ''docker-content-digest'' (rs_headers resp) of
                   None \<Rightarrow> (Inr \<lparr>mr_bytes = b, mr_content_type = content_type, mr_digest = digest_from_bytes sha b\<rparr>, w1)
                 | Some h \<Rightarrow>
                     (case digest_parse h of
                        Inl e \<Rightarrow> (Inl (UpInvalidDigest (digest_error_str e)), w1)
                      | Inr d \<Rightarrow> (Inr \<lparr>mr_bytes = b, mr_content_type = content_type, mr_digest = d\<rparr>, w1))))"

definition http_stream_blob :: "http_lib \<Rightarrow> nat \<Rightarrow> http_upstream \<Rightarrow> string \<Rightarrow> digest \<Rightarrow> http_world \<Rightarrow>
    (upstream_error + stream) \<times> http_world" where
  "http_stream_blob H now U repo d w =
     (let url = url_for H U (''/v2/'' @ repo @ ''/blobs/'' @ digest_to_string d) in
      case send_with_auth H now U GET url None w of
        (Inl e, w1) \<Rightarrow> (Inl e, w1)
      | (Inr resp, w1) \<Rightarrow>
          if \<not> is_success (rs_status resp) then (Inl (UpStatus (rs_status resp) url), w1)
          else (Inr (rs_body resp), w1))"

definition json_strings :: "json option \<Rightarrow> string list" where
  "json_strings v =
     (case Option.bind v as_array of None \<Rightarrow> [] | Some xs \<Rightarrow> List.map_filter as_str xs)"

definition http_list_tags :: "http_lib \<Rightarrow> nat \<Rightarrow> http_upstream \<Rightarrow> string \<Rightarrow> http_world \<Rightarrow>
    (upstream_error + string list) \<times> http_world" where
  "http_list_tags H now U repo w =
     (let url = url_for H U (''/v2/'' @ repo @ ''/tags/list'') in
      case send_with_auth H now U GET url None w of
        (Inl e, w1) \<Rightarrow> (Inl e, w1)
      | (Inr resp, w1) \<Rightarrow>
          if \<not> is_success (rs_status resp) then (Inl (UpStatus (rs_status resp) url), w1)
          else case collect_stream (rs_body resp) of
                 Inl e \<Rightarrow> (Inl (UpTransport e), w1)
               | Inr b \<Rightarrow>
                   (case hl_json H b of
                      None \<Rightarrow> (Inl (UpTransport (hl_json_error H)), w1)
                    | Some body \<Rightarrow> (Inr (json_strings (json_get ''tags'' body)), w1)))"

section \<open>The client interface and the router\<close>

text \<open>The trait \<^verbatim>\<open>UpstreamClient\<close>, over whatever state a client keeps.\<close>

record 'w upstream_client =
  cl_resolve_tag :: "nat \<Rightarrow> string \<Rightarrow> string \<Rightarrow> 'w \<Rightarrow> (upstream_error + digest) \<times> 'w"
  cl_get_manifest :: "nat \<Rightarrow> string \<Rightarrow> string \<Rightarrow> 'w \<Rightarrow> (upstream_error + manifest_response) \<times> 'w"
  cl_stream_blob :: "nat \<Rightarrow> string \<Rightarrow> digest \<Rightarrow> 'w \<Rightarrow> (upstream_error + stream) \<times> 'w"
  cl_list_tags :: "nat \<Rightarrow> string \<Rightarrow> 'w \<Rightarrow> (upstream_error + string list) \<times> 'w"

definition http_client :: "http_lib \<Rightarrow> (bytes \<Rightarrow> string) \<Rightarrow> http_upstream \<Rightarrow> http_world upstream_client" where
  "http_client H sha U =
     \<lparr>cl_resolve_tag = (\<lambda>now. http_resolve_tag H now U),
      cl_get_manifest = (\<lambda>now. http_get_manifest H sha now U),
      cl_stream_blob = (\<lambda>now. http_stream_blob H now U),
      cl_list_tags = (\<lambda>now. http_list_tags H now U)\<rparr>"

text \<open>The router holds many clients: each keeps its own token cache, all share the network.\<close>

type_synonym router_world = "(nat \<Rightarrow> bearer_cache) \<times> http_request list"

definition on_client :: "nat \<Rightarrow> (http_world \<Rightarrow> 'r \<times> http_world) \<Rightarrow> router_world \<Rightarrow> 'r \<times> router_world" where
  "on_client i g w = (case g (fst w i, snd w) of (r, (B, log)) \<Rightarrow> (r, ((fst w)(i := B), log)))"

definition lift_client :: "nat \<Rightarrow> http_world upstream_client \<Rightarrow> router_world upstream_client" where
  "lift_client i c =
     \<lparr>cl_resolve_tag = (\<lambda>now repo r. on_client i (cl_resolve_tag c now repo r)),
      cl_get_manifest = (\<lambda>now repo r. on_client i (cl_get_manifest c now repo r)),
      cl_stream_blob = (\<lambda>now repo d. on_client i (cl_stream_blob c now repo d)),
      cl_list_tags = (\<lambda>now repo. on_client i (cl_list_tags c now repo))\<rparr>"

record 'w upstream_entry =
  ue_config :: upstream_cfg
  ue_client :: "'w upstream_client"

definition upstream_auth_mode :: "upstream_cfg \<Rightarrow> auth_mode" where
  "upstream_auth_mode u = (case uc_auth u of None \<Rightarrow> Anonymous | Some (UBasic n p) \<Rightarrow> Basic n p)"

fun router_build :: "http_lib \<Rightarrow> (bytes \<Rightarrow> string) \<Rightarrow> nat \<Rightarrow> upstream_cfg list \<Rightarrow>
    upstream_error + router_world upstream_entry list" where
  "router_build H sha i [] = Inr []"
| "router_build H sha i (u # us) =
     (case http_new H (uc_name u) (uc_url u) (upstream_auth_mode u) of
        Inl e \<Rightarrow> Inl e
      | Inr c \<Rightarrow>
          (case router_build H sha (Suc i) us of
             Inl e \<Rightarrow> Inl e
           | Inr es \<Rightarrow> Inr (\<lparr>ue_config = u, ue_client = lift_client i (http_client H sha c)\<rparr> # es)))"

definition route :: "'w upstream_entry list \<Rightarrow> string \<Rightarrow> 'w upstream_entry option" where
  "route es repo = find (\<lambda>u. starts_with (uc_repo_prefix (ue_config u)) repo) es"

definition router_is_empty :: "'w upstream_entry list \<Rightarrow> bool" where
  "router_is_empty es \<longleftrightarrow> es = []"

section \<open>Tokens are reused\<close>

interpretation bearer_ttl: ttl_cache
  "\<lambda>B now k. bearer_get now B k" "\<lambda>now k v B. bearer_insert now k v ttl B" "\<lambda>s now. now < s + ttl" for ttl
  by unfold_locales (auto simp: bearer_get_def bearer_insert_def)

lemma unat_token_ttl: "unat (token_ttl e) = max (unat (case e of None \<Rightarrow> 60 | Some n \<Rightarrow> n)) 30 - 15"
proof -
  have "unat (max a (30 :: u64)) = max (unat a) 30" for a
    by (simp add: max_def word_le_nat_alt)
  then show ?thesis by (simp add: token_ttl_def unat_sat_sub)
qed


text \<open>
  A token is fetched once and then reused: after a successful fetch, the same challenge asked again
  before the token's time is up answers with the same token and sends no request; in particular for the
  next 15 seconds, whatever lifetime the server stated.
\<close>

lemma token_reuse:
  assumes "bearer_fetch H now r mode B log = (Inr t, B', log')" and "bearer_get now B (cache_key r) = None"
    and "now' < now + 15 * 10 ^ 9"
  shows "bearer_fetch H now' r mode' B' log'' = (Inr t, B', log'') \<and> log' \<noteq> log"
proof -
  from assms(1,2) obtain e where B': "B' = bearer_insert now (cache_key r) t (from_secs (token_ttl e)) B"
    and l: "log' \<noteq> log"
    by (auto simp: bearer_fetch_def Let_def split: sum.splits option.splits if_splits)
  have "15 \<le> unat (token_ttl e)" by (simp add: unat_token_ttl)
  with assms(3) have "now' < now + from_secs (token_ttl e)" by (simp add: from_secs_def)
  then have "bearer_get now' B' (cache_key r) = Some t"
    unfolding B' by (simp add: bearer_ttl.get_put_same)
  with l show ?thesis by (simp add: bearer_fetch_def)
qed

section \<open>At most one retry\<close>

lemma bearer_fetch_requests:
  assumes "bearer_fetch H now r mode B log = (x, B', log')"
  obtains (cached) t where "x = Inr t" "B' = B" "log' = log"
  | (bad_url) "x = Inl AMalformedChallenge" "B' = B" "log' = log"
  | (asked) tok where "log' = log @ [tok]" "rq_method tok = GET" "token_url H r = Inr (rq_url tok)"
      "rq_auth tok = (case mode of Basic u p \<Rightarrow> BasicAuth u p | Anonymous \<Rightarrow> NoAuth)"
      "(\<exists>e. x = Inl e) \<longrightarrow> B' = B"
proof (cases "bearer_get now B (cache_key r)")
  case (Some t)
  with assms show thesis by (intro cached [of t]) (auto simp: bearer_fetch_def)
next
  case none: None
  show thesis
  proof (cases "token_url H r")
    case (Inl e)
    then have "e = AMalformedChallenge" by (auto simp: token_url_def Let_def split: sum.splits)
    with assms none Inl show thesis by (intro bad_url) (auto simp: bearer_fetch_def)
  next
    case (Inr url)
    let ?tok = "\<lparr>rq_method = GET, rq_url = url, rq_accept = None,
      rq_auth = (case mode of Basic u p \<Rightarrow> BasicAuth u p | Anonymous \<Rightarrow> NoAuth)\<rparr>"
    from assms none Inr have "log' = log @ [?tok]" "(\<exists>e. x = Inl e) \<longrightarrow> B' = B"
      by (auto simp: bearer_fetch_def Let_def split: sum.splits option.splits if_splits)
    with Inr show thesis by (intro asked [of ?tok]) simp_all
  qed
qed

text \<open>
  C27. Authenticated requests: the request is first sent without a token; it is repeated at most once, only
  after a 401 with a parsable challenge, with the token the challenge yields, and with at most one request
  to the challenge's realm in between, which carries the configured credentials.  Any other answer is
  returned as it came, and failing to get a token leaves the token cache alone.
\<close>

theorem send_with_auth_requests:
  assumes send: "send_with_auth H now U m url acc (B, log) = (x, B', log')"
  shows "(log' = log @ [make_request U m url acc None] \<and> B' = B \<and>
      (case hl_send H log' of
         Inl e \<Rightarrow> x = Inl (UpTransport e)
       | Inr resp \<Rightarrow> if rs_status resp = 401 then x = Inl (UpStatus 401 url) else x = Inr resp)) \<or>
    (\<exists>c resp toks. hl_send H (log @ [make_request U m url acc None]) = Inr resp \<and> rs_status resp = 401 \<and>
       Option.bind (hdr_str ''www-authenticate'' (rs_headers resp)) parse_challenge = Some c \<and>
       length toks \<le> 1 \<and>
       (\<forall>tok \<in> set toks. rq_method tok = GET \<and> token_url H c = Inr (rq_url tok) \<and>
          rq_auth tok = (case hu_auth_mode U of Basic u p \<Rightarrow> BasicAuth u p | Anonymous \<Rightarrow> NoAuth)) \<and>
       ((\<exists>e. x = Inl (UpAuth e) \<and> B' = B \<and> log' = log @ [make_request U m url acc None] @ toks) \<or>
        (\<exists>t. log' = log @ [make_request U m url acc None] @ toks @ [make_request U m url acc (Some t)] \<and>
           x = (case hl_send H log' of Inl e \<Rightarrow> Inl (UpTransport e) | Inr resp2 \<Rightarrow> Inr resp2))))"
    (is "?once \<or> ?retried")
proof -
  let ?r0 = "make_request U m url acc None"
  let ?log1 = "log @ [?r0]"
  show ?thesis
  proof (cases "\<exists>resp c. hl_send H ?log1 = Inr resp \<and> rs_status resp = 401 \<and>
      Option.bind (hdr_str ''www-authenticate'' (rs_headers resp)) parse_challenge = Some c")
    case False
    then have ?once using send
      by (auto simp: send_with_auth_def Let_def split: sum.splits if_splits option.splits)
    then show ?thesis by (rule disjI1)
  next
    case True
    then obtain resp c where c: "hl_send H ?log1 = Inr resp" "rs_status resp = 401"
      "Option.bind (hdr_str ''www-authenticate'' (rs_headers resp)) parse_challenge = Some c" by blast
    obtain y B2 log2 where f: "bearer_fetch H now c (hu_auth_mode U) B ?log1 = (y, B2, log2)"
      by (metis prod_cases3)
    have eq: "(x, B', log') = (case y of Inl e \<Rightarrow> (Inl (UpAuth e), B2, log2)
      | Inr b \<Rightarrow> let log3 = log2 @ [make_request U m url acc (Some b)] in
          case hl_send H log3 of Inl e \<Rightarrow> (Inl (UpTransport e), B2, log3) | Inr resp2 \<Rightarrow> (Inr resp2, B2, log3))"
      using send c f by (auto simp: send_with_auth_def Let_def split: sum.splits)
    obtain toks where log2: "log2 = ?log1 @ toks" and n: "length toks \<le> 1"
      and toks: "\<forall>tok \<in> set toks. rq_method tok = GET \<and> token_url H c = Inr (rq_url tok) \<and>
          rq_auth tok = (case hu_auth_mode U of Basic u p \<Rightarrow> BasicAuth u p | Anonymous \<Rightarrow> NoAuth)"
      and B2: "(\<exists>e. y = Inl e) \<longrightarrow> B2 = B"
    proof (cases rule: bearer_fetch_requests [OF f, case_names cached bad_url asked])
      case (asked tok)
      then show thesis by (intro that [of "[tok]"]) simp_all
    qed (auto intro: that [of "[]"])
    have ?retried
    proof (cases y)
      case (Inl e)
      with eq B2 log2 c n toks show ?thesis by auto
    next
      case (Inr b)
      with eq log2 c n toks show ?thesis
        by (intro exI [of _ c] exI [of _ resp] exI [of _ toks] conjI disjI2 exI [of _ b])
          (auto simp: Let_def split: sum.splits)
    qed
    then show ?thesis by (rule disjI2)
  qed
qed

text \<open>
  A registry that answers 401 with a challenge until it sees a token, and a token server.
\<close>

definition demo_challenge :: string where
  "demo_challenge = ''Bearer realm='' @ [CHR 0x22] @ ''r'' @ [CHR 0x22]"

definition demo_lib :: http_lib where
  "demo_lib = \<lparr>
     hl_send = (\<lambda>rqs. case rq_auth (last rqs) of
        BearerAuth t \<Rightarrow> Inr \<lparr>rs_status = 200, rs_headers = [], rs_body = [Inr [7]]\<rparr>
      | _ \<Rightarrow> if rq_url (last rqs) = ''r'' then Inr \<lparr>rs_status = 200, rs_headers = [], rs_body = []\<rparr>
             else Inr \<lparr>rs_status = 401, rs_headers = [(''www-authenticate'', demo_challenge)], rs_body = []\<rparr>),
     hl_url_parse = Inr,
     hl_url_set_path = (\<lambda>p u. u @ ''/'' @ p),
     hl_url_append_pair = (\<lambda>k v u. u @ ''?'' @ k @ ''='' @ v),
     hl_token_json = (\<lambda>b. Some \<lparr>tr_token = Some ''tok'', tr_access_token = None, tr_expires_in = Some 5\<rparr>),
     hl_json = (\<lambda>b. None), hl_json_error = ''json'', hl_build_error = None\<rparr>"

definition demo_up :: http_upstream where
  "demo_up = \<lparr>hu_name = ''u'', hu_base_url = ''h'', hu_auth_mode = Basic ''me'' ''pw''\<rparr>"

lemma demo_parse: "parse_challenge demo_challenge = Some \<lparr>tk_realm = ''r'', tk_service = None, tk_scope = None\<rparr>"
  by code_simp

lemma demo_fetch: "bearer_fetch demo_lib 0 \<lparr>tk_realm = ''r'', tk_service = None, tk_scope = None\<rparr> mode [] log =
  (Inr ''tok'', bearer_insert 0 (''r'', []) ''tok'' (15 * 10 ^ 9) [],
   log @ [\<lparr>rq_method = GET, rq_url = ''r'', rq_accept = None,
     rq_auth = (case mode of Basic u p \<Rightarrow> BasicAuth u p | Anonymous \<Rightarrow> NoAuth)\<rparr>])"
  by (cases mode) (simp_all add: bearer_fetch_def bearer_get_def demo_lib_def token_url_def cache_key_def
      is_success_def from_secs_def token_ttl_def sat_sub_def max_def)

theorem send_with_auth_requests_witness:
  "\<exists>x B' log'. send_with_auth demo_lib 0 demo_up GET ''h/x'' None ([], []) = (x, B', log') \<and>
     x = Inr \<lparr>rs_status = 200, rs_headers = [], rs_body = [Inr [7]]\<rparr> \<and> map rq_url log' = [''h/x'', ''r'', ''h/x''] \<and> B' \<noteq> [] \<and>
     (\<exists>tok. log' = [make_request demo_up GET ''h/x'' None None, tok, make_request demo_up GET ''h/x'' None (Some ''tok'')])"
proof -
  have v: "hdr_str ''www-authenticate'' [(''www-authenticate'', demo_challenge)] = Some demo_challenge"
    by (simp add: hdr_str_def hdr_to_str_def demo_challenge_def visible_ascii_def)
  have s: "hl_send demo_lib [make_request demo_up GET ''h/x'' None None] =
      Inr \<lparr>rs_status = 401, rs_headers = [(''www-authenticate'', demo_challenge)], rs_body = []\<rparr>"
    by (simp add: demo_lib_def make_request_def demo_up_def)
  have s2: "hl_send demo_lib [a, b, make_request demo_up GET ''h/x'' None (Some t)] =
      Inr \<lparr>rs_status = 200, rs_headers = [], rs_body = [Inr [7]]\<rparr>" for a b t
    by (simp add: demo_lib_def make_request_def)
  have run: "send_with_auth demo_lib 0 demo_up GET ''h/x'' None ([], []) =
      (Inr \<lparr>rs_status = 200, rs_headers = [], rs_body = [Inr [7]]\<rparr>, bearer_insert 0 (''r'', []) ''tok'' (15 * 10 ^ 9) [],
       [make_request demo_up GET ''h/x'' None None,
        \<lparr>rq_method = GET, rq_url = ''r'', rq_accept = None, rq_auth = BasicAuth ''me'' ''pw''\<rparr>,
        make_request demo_up GET ''h/x'' None (Some ''tok'')])"
    by (simp add: send_with_auth_def s v demo_parse demo_fetch s2) (simp add: demo_up_def)
  have "bearer_insert 0 (''r'', []) ''tok'' (15 * 10 ^ 9) [] \<noteq> []" by (simp add: bearer_insert_def dm_insert_def)
  then show ?thesis using run send_with_auth_requests [OF run] by (simp add: make_request_def)
qed

section \<open>Parsing challenges\<close>

lemma trim_by_id: "s \<noteq> [] \<Longrightarrow> \<not> P (hd s) \<Longrightarrow> \<not> P (last s) \<Longrightarrow> trim_by P s = s"
proof -
  assume a: "s \<noteq> []" "\<not> P (hd s)" "\<not> P (last s)"
  then have "dropWhile P s = s" by (cases s) auto
  moreover have "dropWhile P (rev s) = rev s" using a by (cases "rev s") (auto simp: hd_rev dest: arg_cong [of _ _ hd])
  ultimately show ?thesis by (simp add: trim_by_def)
qed

lemma trim_by_all: "\<forall>c \<in> set s. P c \<Longrightarrow> trim_by P (s @ t) = trim_by P t"
  by (simp add: trim_by_def dropWhile_append2)

lemma trim_by_enclosed:
  assumes "\<forall>c \<in> set v. \<not> P c" "P q"
  shows "trim_by P (q # v @ [q]) = v" "trim_by P (q # v) = v"
proof -
  have d: "dropWhile P (v @ w) = (if v = [] then dropWhile P w else v @ w)" for w
    using assms(1) by (cases v) auto
  have r: "dropWhile P (rev v) = rev v" using assms(1) by (cases "rev v") (auto dest: arg_cong [of _ _ set])
  show "trim_by P (q # v @ [q]) = v" "trim_by P (q # v) = v"
    using assms(2) d [of "[q]"] d [of "[]"] r by (auto simp: trim_by_def)
qed

text \<open>The parameters of a challenge as a server writes them.\<close>

definition quoted :: "string \<Rightarrow> string \<Rightarrow> string" where
  "quoted k v = k @ ''='' @ [CHR 0x22] @ v @ [CHR 0x22]"

fun join_with :: "'a \<Rightarrow> 'a list list \<Rightarrow> 'a list" where
  "join_with c [] = []"
| "join_with c [x] = x"
| "join_with c (x # y # xs) = x @ c # join_with c (y # xs)"

definition challenge_params :: "token_request \<Rightarrow> (string \<times> string) list" where
  "challenge_params r = (''realm'', tk_realm r) #
     (case tk_service r of None \<Rightarrow> [] | Some v \<Rightarrow> [(''service'', v)]) @
     (case tk_scope r of None \<Rightarrow> [] | Some v \<Rightarrow> [(''scope'', v)])"

definition challenge_header :: "token_request \<Rightarrow> string" where
  "challenge_header r = ''Bearer '' @ join_with (CHR '','') (map (\<lambda>(k, v). quoted k v) (challenge_params r))"

lemma split_join:
  "xs \<noteq> [] \<Longrightarrow> \<forall>x \<in> set xs. c \<notin> set x \<Longrightarrow> split_on c (join_with c xs) = xs"
  by (induction c xs rule: join_with.induct) (simp_all add: split_on_single split_on_append)

definition plain_key :: "string \<Rightarrow> bool" where
  "plain_key k \<longleftrightarrow> k \<noteq> [] \<and> CHR ''='' \<notin> set k \<and> CHR '','' \<notin> set k \<and> (\<forall>c \<in> set k. \<not> is_ws c)"

lemma trim_plain_key: "plain_key k \<Longrightarrow> trim k = k"
  unfolding trim_def plain_key_def by (rule trim_by_id) auto

lemma challenge_param_quoted:
  assumes k: "plain_key k" and v: "CHR 0x22 \<notin> set v"
  shows "challenge_param (quoted k v) m = dm_insert k v m"
proof -
  let ?q = "CHR 0x22"
  have q: "\<not> is_ws ?q" by (simp add: is_ws_def)
  have "hd (quoted k v) \<in> set k" using k by (cases k) (simp_all add: quoted_def plain_key_def)
  then have t: "trim (quoted k v) = quoted k v"
    unfolding trim_def using k q by (intro trim_by_id) (auto simp: quoted_def plain_key_def)
  have sp: "split_once (CHR ''='') (quoted k v) = Some (k, ?q # v @ [?q])"
    using k by (simp add: split_once_Some quoted_def plain_key_def)
  have tv: "trim (?q # v @ [?q]) = ?q # v @ [?q]"
    unfolding trim_def using q by (intro trim_by_id) simp_all
  have "trim_matches ?q (?q # v @ [?q]) = v"
    unfolding trim_matches_def using v by (intro trim_by_enclosed) auto
  then show ?thesis by (simp add: challenge_param_def t sp tv trim_plain_key [OF k])
qed

lemma plain_keys: "plain_key ''realm''" "plain_key ''service''" "plain_key ''scope''"
  by (auto simp: plain_key_def is_ws_def)

lemma last_join: "ps \<noteq> [] \<Longrightarrow> last ps \<noteq> [] \<Longrightarrow> join_with c ps \<noteq> [] \<and> last (join_with c ps) = last (last ps)"
  by (induction c ps rule: join_with.induct) (auto split: if_splits)

lemma parse_pieces:
  assumes ps: "ps \<noteq> []" "\<forall>p \<in> set ps. CHR '','' \<notin> set p" and l: "last ps = x @ [CHR 0x22]"
  shows "parse_challenge (''Bearer '' @ join_with (CHR '','') ps) =
     (let params = foldl (\<lambda>m kv. challenge_param kv m) [] ps in
      case dm_get params ''realm'' of
        None \<Rightarrow> None
      | Some realm \<Rightarrow> Some \<lparr>tk_realm = realm, tk_service = dm_get params ''service'', tk_scope = dm_get params ''scope''\<rparr>)"
proof -
  let ?h = "''Bearer '' @ join_with (CHR '','') ps"
  have j: "join_with (CHR '','') ps \<noteq> []" "last (join_with (CHR '','') ps) = CHR 0x22"
    using last_join [of ps "CHR '',''"] ps(1) l by auto
  have t: "trim ?h = ?h" unfolding trim_def by (rule trim_by_id) (use j in \<open>simp_all add: is_ws_def\<close>)
  have "strip_prefix_str ''Bearer '' ?h = Some (join_with (CHR '','') ps)" by (simp del: strip_prefix_str.simps)
  then show ?thesis unfolding parse_challenge_def t by (simp only: option.case split_join [OF ps])
qed

text \<open>
  C29. Challenges of the usual form are understood: a header that names realm, service and scope as quoted
  parameters is parsed to exactly these, provided no value contains a quote or a comma.  A comma inside a
  quoted scope, as in a request for two actions, ends the value: the rest of the scope is lost.
\<close>

theorem challenge_roundtrip:
  assumes v: "\<And>v. v \<in> {tk_realm r} \<union> set_option (tk_service r) \<union> set_option (tk_scope r) \<Longrightarrow>
      CHR 0x22 \<notin> set v \<and> CHR '','' \<notin> set v"
  shows "parse_challenge (challenge_header r) = Some r \<and>
    parse_challenge (challenge_header (r\<lparr>tk_scope := Some ''repository:a:pull,push''\<rparr>)) =
      Some (r\<lparr>tk_scope := Some ''repository:a:pull''\<rparr>)"
proof -
  obtain realm service scope where r: "r = \<lparr>tk_realm = realm, tk_service = service, tk_scope = scope\<rparr>" by (cases r)
  let ?q = "CHR 0x22" and ?text = "map (\<lambda>(k, v). quoted k v)"
  have qk: "CHR '','' \<notin> set (quoted k v)" if "plain_key k" "CHR '','' \<notin> set v" for k v
    using that by (simp add: quoted_def plain_key_def)
  have "parse_challenge (challenge_header r) = Some r"
  proof -
    have l: "\<exists>x. last (?text (challenge_params r)) = x @ [?q]"
      by (auto simp: challenge_params_def quoted_def split: option.splits)
    have "\<forall>p \<in> set (?text (challenge_params r)). CHR '','' \<notin> set p"
      using v by (auto simp: challenge_params_def r qk plain_keys split: option.splits)
    with l obtain x where "parse_challenge (challenge_header r) =
     (let params = foldl (\<lambda>m kv. challenge_param kv m) [] (?text (challenge_params r)) in
      case dm_get params ''realm'' of
        None \<Rightarrow> None
      | Some realm \<Rightarrow> Some \<lparr>tk_realm = realm, tk_service = dm_get params ''service'', tk_scope = dm_get params ''scope''\<rparr>)"
      unfolding challenge_header_def using parse_pieces by (metis challenge_params_def list.map_disc_iff list.simps(3))
    with v show ?thesis
      by (cases service; cases scope) (simp_all add: challenge_params_def r challenge_param_quoted plain_keys)
  qed
  moreover have "parse_challenge (challenge_header (r\<lparr>tk_scope := Some ''repository:a:pull,push''\<rparr>)) =
      Some (r\<lparr>tk_scope := Some ''repository:a:pull''\<rparr>)"
  proof -
    let ?ps = "?text (challenge_params (r\<lparr>tk_scope := None\<rparr>))"
    let ?a = "''scope='' @ [?q] @ ''repository:a:pull''" and ?b = "''push'' @ [?q]"
    have h: "challenge_header (r\<lparr>tk_scope := Some ''repository:a:pull,push''\<rparr>) = ''Bearer '' @ join_with (CHR '','') (?ps @ [?a, ?b])"
      by (cases service) (simp_all add: challenge_header_def challenge_params_def r quoted_def)
    have c: "\<forall>p \<in> set (?ps @ [?a, ?b]). CHR '','' \<notin> set p"
      using v by (auto simp: challenge_params_def r qk plain_keys split: option.splits)
    have "challenge_param ?a m = dm_insert ''scope'' ''repository:a:pull'' m" "challenge_param ?b m = m" for m
      by (simp_all add: challenge_param_def trim_def trim_by_def is_ws_def trim_matches_def)
    then show ?thesis
      unfolding h using parse_pieces [OF _ c, of "''push''"] v
      by (cases service) (simp_all add: challenge_params_def r challenge_param_quoted plain_keys)
  qed
  ultimately show ?thesis by blast
qed

theorem challenge_roundtrip_witness:
  "parse_challenge (challenge_header \<lparr>tk_realm = ''https://auth.docker.io/token'', tk_service = Some ''registry.docker.io'',
     tk_scope = Some ''repository:library/redis:pull''\<rparr>) =
   Some \<lparr>tk_realm = ''https://auth.docker.io/token'', tk_service = Some ''registry.docker.io'', tk_scope = Some ''repository:library/redis:pull''\<rparr>"
  by (rule challenge_roundtrip [THEN conjunct1]) auto

section \<open>The contract of a client\<close>

text \<open>
  What the registry relies on: the digests a client reports are well-formed.  (It is not part of the
  contract that a manifest hashes to the digest reported with it.)
\<close>

locale upstream_contract =
  fixes client :: "'w upstream_client" and sha :: "bytes \<Rightarrow> string"
  assumes resolve_wf: "cl_resolve_tag client now repo reference w = (Inr d, w') \<Longrightarrow> wf_digest d"
    and manifest_wf: "sha_ok sha \<Longrightarrow> cl_get_manifest client now repo reference w = (Inr m, w') \<Longrightarrow> wf_digest (mr_digest m)"
    and manifest_type: "cl_get_manifest client now repo reference w = (Inr m, w') \<Longrightarrow> header_value_ok (mr_content_type m)"

lemma http_resolve_tag_wf: "http_resolve_tag H now U repo r w = (Inr d, w') \<Longrightarrow> wf_digest d"
  by (auto simp: http_resolve_tag_def Let_def split: prod.splits sum.splits if_splits option.splits)

lemma http_get_manifest_wf:
  "sha_ok sha \<Longrightarrow> http_get_manifest H sha now U repo r w = (Inr m, w') \<Longrightarrow> wf_digest (mr_digest m)"
  by (auto simp: http_get_manifest_def digest_from_bytes_def Let_def split: prod.splits sum.splits if_splits option.splits)

lemma http_get_manifest_type:
  assumes "http_get_manifest H sha now U repo r w = (Inr m, w')"
  shows "header_value_ok (mr_content_type m)"
proof -
  have "header_value_ok t" if "hdr_str ''content-type'' hs = Some t" for hs t
    using that by (auto simp: hdr_str_def Option.bind_eq_Some_conv dest: to_str_header_ok)
  moreover have "header_value_ok ''application/vnd.oci.image.manifest.v1+json''"
    by (simp add: header_value_ok_def header_byte_ok_def)
  ultimately show ?thesis
    using assms by (auto simp: http_get_manifest_def Let_def split: prod.splits sum.splits if_splits option.splits)
qed

interpretation http_contract: upstream_contract "http_client H sha U" sha for H sha U
  by unfold_locales (auto simp: http_client_def dest: http_resolve_tag_wf http_get_manifest_wf http_get_manifest_type)

interpretation lifted_contract: upstream_contract "lift_client i (http_client H sha U)" sha for i H sha U
  by unfold_locales
    (auto simp: lift_client_def on_client_def split: prod.splits
      dest: http_contract.resolve_wf http_contract.manifest_wf http_contract.manifest_type)

section \<open>Routing\<close>

lemma find_first: "find P xs = Some x \<longleftrightarrow> (\<exists>us vs. xs = us @ x # vs \<and> P x \<and> (\<forall>u \<in> set us. \<not> P u))"
proof (induction xs)
  case (Cons y ys)
  show ?case
  proof
    assume "find P (y # ys) = Some x"
    then show "\<exists>us vs. y # ys = us @ x # vs \<and> P x \<and> (\<forall>u \<in> set us. \<not> P u)"
    proof (cases "P y")
      case False
      with \<open>find P (y # ys) = Some x\<close> Cons.IH obtain us vs where "ys = us @ x # vs" "P x" "\<forall>u \<in> set us. \<not> P u" by auto
      with False show ?thesis by (intro exI [of _ "y # us"] exI [of _ vs]) simp
    qed force
  next
    assume "\<exists>us vs. y # ys = us @ x # vs \<and> P x \<and> (\<forall>u \<in> set us. \<not> P u)"
    then obtain us vs where "y # ys = us @ x # vs" "P x" "\<forall>u \<in> set us. \<not> P u" by blast
    with Cons.IH show "find P (y # ys) = Some x" by (cases us) auto
  qed
qed simp

lemma router_build_configs: "router_build H sha i us = Inr es \<Longrightarrow> map ue_config es = us"
  by (induction H sha i us arbitrary: es rule: router_build.induct) (auto split: sum.splits)

lemma router_build_contract:
  "router_build H sha i us = Inr es \<Longrightarrow> e \<in> set es \<Longrightarrow> upstream_contract (ue_client e) sha"
proof (induction H sha i us arbitrary: es rule: router_build.induct)
  case (2 H sha i u us)
  then obtain c es' where "router_build H sha (Suc i) us = Inr es'"
    "http_new H (uc_name u) (uc_url u) (upstream_auth_mode u) = Inr c"
    "es = \<lparr>ue_config = u, ue_client = lift_client i (http_client H sha c)\<rparr> # es'" by (auto split: sum.splits)
  with 2 show ?case using lifted_contract.upstream_contract_axioms [of i H sha c] by auto
qed simp

lemma router_build_error:
  "router_build H sha i us = Inl e \<Longrightarrow> \<exists>pre u post. us = pre @ u # post \<and>
     http_new H (uc_name u) (uc_url u) (upstream_auth_mode u) = Inl e \<and>
     (\<forall>v \<in> set pre. \<exists>c. http_new H (uc_name v) (uc_url v) (upstream_auth_mode v) = Inr c)"
proof (induction H sha i us rule: router_build.induct)
  case (2 H sha i u us)
  show ?case
  proof (cases "http_new H (uc_name u) (uc_url u) (upstream_auth_mode u)")
    case (Inl e')
    with 2(2) show ?thesis by (intro exI [of _ "[]"]) auto
  next
    case (Inr c)
    with 2(2) have "router_build H sha (Suc i) us = Inl e" by (auto split: sum.splits)
    with 2(1) Inr obtain pre v post where "us = pre @ v # post"
      "http_new H (uc_name v) (uc_url v) (upstream_auth_mode v) = Inl e"
      "\<forall>v \<in> set pre. \<exists>c. http_new H (uc_name v) (uc_url v) (upstream_auth_mode v) = Inr c" by metis
    with Inr show ?thesis by (intro exI [of _ "u # pre"] exI [of _ v] exI [of _ post]) auto
  qed
qed simp



end
