(* ===== verification/Tag_Cache.thy ===== *)
theory Tag_Cache
  imports Cas_Store Text_Codec
begin

text \<open>
  \<^verbatim>\<open>crates/quill-registry/src/state.rs\<close>: the cache of tags resolved upstream.  An entry is fresh for a
  time to live, then stale, and is never dropped; every insertion rewrites the repository's
  \<^verbatim>\<open>_upstream_tags.json\<close>, whose JSON encoding is a parameter (\<open>map_codec\<close>).  The freshness of an
  entry is an instance of the expiring-cache contract, the sidecar one of the atomic-save contract.
\<close>

section \<open>Data\<close>

datatype tag_cache_state = Fresh digest | Stale digest | Miss

record upstream_tag_cache =
  tc_entries :: "(string \<times> string, digest \<times> nat) dashmap"
  tc_ttl :: nat
  tc_layout :: "cas_layout option"

text \<open>\<^verbatim>\<open>serde_json\<close> on \<^verbatim>\<open>HashMap<String, String>\<close>\<close>

record map_codec =
  sm_to_vec_pretty :: "(string \<times> string) list \<Rightarrow> bytes option"
  sm_from_str :: "string \<Rightarrow> (string \<times> string) list option"

section \<open>Operations\<close>

definition tcache_new :: "nat \<Rightarrow> cas_layout option \<Rightarrow> upstream_tag_cache" where
  "tcache_new t L = \<lparr>tc_entries = [], tc_ttl = t, tc_layout = L\<rparr>"

fun tcache_insert_all :: "nat \<Rightarrow> string \<Rightarrow> (string \<times> string) list \<Rightarrow>
    (string \<times> string, digest \<times> nat) dashmap \<Rightarrow> (string \<times> string, digest \<times> nat) dashmap" where
  "tcache_insert_all now repo [] m = m"
| "tcache_insert_all now repo ((tag, s) # ts) m =
     tcache_insert_all now repo ts
       (case digest_parse s of Inr d \<Rightarrow> dm_insert (repo, tag) (d, now) m | Inl _ \<Rightarrow> m)"

definition tcache_load_repo :: "map_codec \<Rightarrow> nat \<Rightarrow> string \<Rightarrow> fs \<Rightarrow> upstream_tag_cache \<Rightarrow> upstream_tag_cache" where
  "tcache_load_repo C now repo f T =
     (case tc_layout T of
        None \<Rightarrow> T
      | Some L \<Rightarrow>
          (case fs_read_to_string (upstream_tags_path L repo) f of
             Inl _ \<Rightarrow> T
           | Inr body \<Rightarrow>
               (case sm_from_str C body of
                  None \<Rightarrow> T
                | Some m \<Rightarrow> T\<lparr>tc_entries := tcache_insert_all now repo m (tc_entries T)\<rparr>)))"

definition tcache_lookup :: "nat \<Rightarrow> upstream_tag_cache \<Rightarrow> string \<Rightarrow> string \<Rightarrow> tag_cache_state" where
  "tcache_lookup now T repo tag =
     (case dm_get (tc_entries T) (repo, tag) of
        None \<Rightarrow> Miss
      | Some (d, fetched_at) \<Rightarrow> if now - fetched_at < tc_ttl T then Fresh d else Stale d)"

definition tcache_get_any :: "nat \<Rightarrow> upstream_tag_cache \<Rightarrow> string \<Rightarrow> string \<Rightarrow> digest option" where
  "tcache_get_any now T repo tag =
     (case tcache_lookup now T repo tag of Fresh d \<Rightarrow> Some d | Stale d \<Rightarrow> Some d | Miss \<Rightarrow> None)"

definition tcache_snapshot :: "upstream_tag_cache \<Rightarrow> string \<Rightarrow> (string \<times> string) list" where
  "tcache_snapshot T repo =
     map (\<lambda>((r, t), (d, n)). (t, digest_to_string d)) (filter (\<lambda>((r, t), v). r = repo) (tc_entries T))"

text \<open>The write of \<^verbatim>\<open>persist_repo\<close>, with whether the file was replaced; the caller does not look.\<close>

definition persist_file :: "map_codec \<Rightarrow> nat \<Rightarrow> cas_layout \<Rightarrow> string \<Rightarrow> (string \<times> string) list \<Rightarrow> fs \<Rightarrow> bool \<times> fs" where
  "persist_file C now L repo snapshot f =
     (let p = upstream_tags_path L repo in
      case fs_create_dir_all (butlast p) f of
        (_, f1) \<Rightarrow>
          (case sm_to_vec_pretty C snapshot of
             None \<Rightarrow> (False, f1)
           | Some body \<Rightarrow>
               (case fs_replace now (with_extension p ''json.tmp'') p body f1 of
                  (Inl _, f2) \<Rightarrow> (False, f2)
                | (Inr _, f2) \<Rightarrow> (True, f2))))"

definition tcache_persist_repo :: "map_codec \<Rightarrow> nat \<Rightarrow> string \<Rightarrow> upstream_tag_cache \<Rightarrow> fs \<Rightarrow> fs" where
  "tcache_persist_repo C now repo T f =
     (case tc_layout T of
        None \<Rightarrow> f
      | Some L \<Rightarrow> (case persist_file C now L repo (tcache_snapshot T repo) f of (_, f') \<Rightarrow> f'))"

definition tcache_insert :: "map_codec \<Rightarrow> clock \<Rightarrow> string \<Rightarrow> string \<Rightarrow> digest \<Rightarrow> upstream_tag_cache \<Rightarrow> fs \<Rightarrow>
    upstream_tag_cache \<times> fs" where
  "tcache_insert C ck repo tag d T f =
     (let T' = T\<lparr>tc_entries := dm_insert (repo, tag) (d, inst ck) (tc_entries T)\<rparr>
      in (T', tcache_persist_repo C (wall ck) repo T' f))"

definition tcache_touch :: "nat \<Rightarrow> string \<Rightarrow> string \<Rightarrow> upstream_tag_cache \<Rightarrow> upstream_tag_cache" where
  "tcache_touch now repo tag T =
     (case dm_get (tc_entries T) (repo, tag) of
        None \<Rightarrow> T
      | Some (d, _) \<Rightarrow> T\<lparr>tc_entries := dm_insert (repo, tag) (d, now) (tc_entries T)\<rparr>)"

definition tcache_list_for_repo :: "upstream_tag_cache \<Rightarrow> string \<Rightarrow> string list" where
  "tcache_list_for_repo T repo = map (snd \<circ> fst) (filter (\<lambda>kv. fst (fst kv) = repo) (tc_entries T))"

section \<open>Freshness\<close>

lemma tcache_insert_simps [simp]:
  "tc_ttl (fst (tcache_insert C ck repo tag d T f)) = tc_ttl T"
  "tc_layout (fst (tcache_insert C ck repo tag d T f)) = tc_layout T"
  "tc_entries (fst (tcache_insert C ck repo tag d T f)) = dm_insert (repo, tag) (d, inst ck) (tc_entries T)"
  by (simp_all add: tcache_insert_def Let_def)

text \<open>The contract of an expiring cache, on what is served without asking upstream.\<close>

interpretation tag_ttl: ttl_cache
  "\<lambda>T now (repo, tag). case tcache_lookup now (T\<lparr>tc_ttl := t\<rparr>) repo tag of Fresh d \<Rightarrow> Some d | _ \<Rightarrow> None"
  "\<lambda>now (repo, tag) d T. fst (tcache_insert C \<lparr>inst = now, wall = 0, pid = 0\<rparr> repo tag d T f)"
  "\<lambda>s now. now - s < t" for t C f
  by unfold_locales (auto simp: tcache_lookup_def split: prod.splits option.splits tag_cache_state.splits)

text \<open>
  The life of a cached tag: after an insertion the tag answers with the inserted digest, fresh for
  exactly the time to live and stale from then on, never missing, and no other tag is affected.
  Touching restarts the time of an entry that exists and keeps every digest; it never creates one.
\<close>

lemma tag_cache_lifecycle:
  "(let T' = fst (tcache_insert C ck repo tag d T f) in
     \<forall>now r t. tcache_lookup now T' r t =
       (if (r, t) = (repo, tag) then (if now - inst ck < tc_ttl T then Fresh d else Stale d)
        else tcache_lookup now T r t)) \<and>
   (let T' = tcache_touch n repo tag T in
     \<forall>now r t. tcache_get_any now T' r t = tcache_get_any now T r t \<and>
       tcache_lookup now T' r t =
         (if (r, t) = (repo, tag)
          then (case tcache_get_any now T repo tag of
                  None \<Rightarrow> Miss | Some e \<Rightarrow> if now - n < tc_ttl T then Fresh e else Stale e)
          else tcache_lookup now T r t))"
  by (auto simp: Let_def tcache_lookup_def tcache_touch_def tcache_get_any_def split: option.splits prod.splits)

section \<open>The sidecar\<close>

lemma upstream_tags_tmp:
  "with_extension (upstream_tags_path L repo) ''json.tmp'' = repo_dir L repo @ [''_upstream_tags.json.tmp'']"
  using with_ext_simple [of "''json''" "''_upstream_tags''" "''json.tmp''"]
  by (simp add: with_extension_def upstream_tags_path_def path_join_plain)

lemma resolve_upstream_tags_tmp [path_simps]:
  "resolve (with_extension (upstream_tags_path L repo) ''json.tmp'') = rdir L repo @ [''_upstream_tags.json.tmp'']"
  by (simp add: upstream_tags_tmp rdir_def resolve_plain_snoc plain_name_def)

lemma upstream_tags_tmp_not_slot [simp]: "\<not> is_slot (p @ [''_upstream_tags.json.tmp''])"
  by (simp add: not_hex64_not_slot hex64_def)

lemma resolve_upstream_parent: "resolve (butlast (upstream_tags_path L repo)) = rdir L repo"
  by (simp add: upstream_tags_path_def path_simps rdir_def)

definition upstream_files :: "cas_layout \<Rightarrow> string \<Rightarrow> path set" where
  "upstream_files L repo = {rdir L repo @ [''_upstream_tags.json.tmp''], rdir L repo @ [''_upstream_tags.json'']}"

lemma persist_file_call: "fs_call (persist_file C now L repo v) (upstream_files L repo)"
proof -
  let ?p = "upstream_tags_path L repo" and ?T = "upstream_files L repo"
  have m: "fs_call (fs_create_dir_all q) ?T" for q by (rule sys_mkdir.widen) simp
  have t: "{resolve (with_extension ?p ''json.tmp''), resolve ?p} = ?T"
    by (simp add: upstream_files_def path_simps)
  have r: "fs_call (\<lambda>f1. case sm_to_vec_pretty C v of None \<Rightarrow> (False, f1) | Some body \<Rightarrow>
      (case fs_replace now (with_extension ?p ''json.tmp'') ?p body f1 of
        (Inl e, f2) \<Rightarrow> (False, f2) | (Inr _, f2) \<Rightarrow> (True, f2))) ?T"
  proof (cases "sm_to_vec_pretty C v")
    case (Some body)
    have "fs_call (\<lambda>f1. case fs_replace now (with_extension ?p ''json.tmp'') ?p body f1 of
        (Inl e, f2) \<Rightarrow> (False, f2) | (Inr _, f2) \<Rightarrow> (True, f2)) ?T"
      unfolding t [symmetric] by (intro fs_call_try sys_replace.fs_call_axioms fs_call_return)
    with Some show ?thesis by simp
  qed (simp add: fs_call_return)
  have "fs_call (\<lambda>f. case fs_create_dir_all (butlast ?p) f of (x, f1) \<Rightarrow>
      (case sm_to_vec_pretty C v of None \<Rightarrow> (False, f1) | Some body \<Rightarrow>
      (case fs_replace now (with_extension ?p ''json.tmp'') ?p body f1 of
        (Inl e, f2) \<Rightarrow> (False, f2) | (Inr _, f2) \<Rightarrow> (True, f2)))) ?T"
    by (rule fs_call_seq [OF m]) (rule r)
  then show ?thesis by (simp add: persist_file_def [abs_def] Let_def)
qed

interpretation upstream_sidecar: atomic_save "persist_file C now L repo v" "\<lambda>r. r"
  "rdir L repo @ [''_upstream_tags.json'']" "rdir L repo @ [''_upstream_tags.json.tmp'']" "sm_to_vec_pretty C v"
  for C now L repo v
proof
  fix q f assume "q \<noteq> rdir L repo @ [''_upstream_tags.json'']" "q \<noteq> rdir L repo @ [''_upstream_tags.json.tmp'']"
  then show "file_at (snd (persist_file C now L repo v f)) q = file_at f q"
    by (intro fs_call.frame [OF persist_file_call]) (simp add: upstream_files_def)
next
  fix f assume "fst (persist_file C now L repo v f)"
  then show "sm_to_vec_pretty C v \<noteq> None \<and>
      file_at (snd (persist_file C now L repo v f)) (rdir L repo @ [''_upstream_tags.json'']) = sm_to_vec_pretty C v"
    by (auto simp: persist_file_def Let_def path_simps dest: replace_Inr split: prod.splits sum.splits option.splits)
next
  fix f assume n: "\<not> fst (persist_file C now L repo v f)"
  let ?p = "upstream_tags_path L repo"
  have m: "file_at (snd (fs_create_dir_all (butlast ?p) f)) (resolve ?p) = file_at f (resolve ?p)"
    by (rule sys_mkdir.frame) simp
  have "resolve (with_extension ?p ''json.tmp'') \<noteq> resolve ?p" by (simp add: path_simps)
  with n m show "file_at (snd (persist_file C now L repo v f)) (rdir L repo @ [''_upstream_tags.json'']) =
      file_at f (rdir L repo @ [''_upstream_tags.json''])"
    unfolding resolve_upstream_tags [symmetric]
    by (auto simp: persist_file_def Let_def dest: replace_Inl split: prod.splits sum.splits option.splits)
qed

text \<open>An insertion only ever touches the two sidecar files.\<close>

lemma tcache_insert_frame:
  assumes "tcache_insert C ck repo tag d T f = (T', f')" and "\<forall>L. tc_layout T = Some L \<longrightarrow> q \<notin> upstream_files L repo"
  shows "file_at f' q = file_at f q"
proof (cases "tc_layout T")
  case None
  with assms show ?thesis by (auto simp: tcache_insert_def tcache_persist_repo_def Let_def)
next
  case (Some L)
  then have "f' = snd (persist_file C (wall ck) L repo (tcache_snapshot T' repo) f)"
    using assms(1) by (auto simp: tcache_insert_def tcache_persist_repo_def Let_def split: prod.splits)
  with assms(2) Some show ?thesis by (simp add: fs_call.frame [OF persist_file_call])
qed

lemma tcache_insert_keeps_cas [cas_intros]:
  assumes "tcache_insert C ck repo tag d T f = (T', f')" and "cas_ok sha f"
  shows "cas_ok sha f'"
proof (rule cas_ok_subset [OF assms(2)])
  fix p h b assume h: "hex64 h" and b: "file_at f' (slot p h) = Some b"
  have "slot p h \<notin> upstream_files L repo" for L
    using h by (auto simp: upstream_files_def) (metis is_slot_slot tags_not_slot(2) upstream_tags_tmp_not_slot)+
  then show "file_at f (slot p h) = Some b" using tcache_insert_frame [OF assms(1), of "slot p h"] b by simp
qed

section \<open>Surviving a restart\<close>

text \<open>\<^verbatim>\<open>serde_json\<close> writes a map of strings as UTF-8 text and reads the same map back.\<close>

definition map_codec_ok :: "map_codec \<Rightarrow> bool" where
  "map_codec_ok C \<longleftrightarrow> (\<forall>ts. distinct (map fst ts) \<longrightarrow>
     (\<exists>b s ts'. sm_to_vec_pretty C ts = Some b \<and> from_utf8 b = Some s \<and>
        sm_from_str C s = Some ts' \<and> distinct (map fst ts') \<and> map_of ts' = map_of ts))"

text \<open>Keys are unique and the digests came from the parser.\<close>

definition tcache_ok :: "upstream_tag_cache \<Rightarrow> bool" where
  "tcache_ok T \<longleftrightarrow> dm_ok (tc_entries T) \<and> (\<forall>((r, t), (d, n)) \<in> set (tc_entries T). wf_digest d)"

lemma tcache_ok_new [simp]: "tcache_ok (tcache_new t L)"
  by (simp add: tcache_ok_def tcache_new_def)

lemma tcache_ok_get: "tcache_ok T \<Longrightarrow> dm_get (tc_entries T) k = Some (d, n) \<Longrightarrow> wf_digest d"
  by (cases k) (auto simp: tcache_ok_def dm_get_iff)

lemma tcache_ok_upd:
  assumes "tcache_ok T" and "wf_digest d"
  shows "tcache_ok (T\<lparr>tc_entries := dm_insert k (d, n) (tc_entries T)\<rparr>)"
proof -
  have ok: "dm_ok (dm_insert k (d, n) (tc_entries T))" using assms by (simp add: tcache_ok_def)
  moreover have "wf_digest e" if "((r, t), (e, m)) \<in> set (dm_insert k (d, n) (tc_entries T))" for r t e m
  proof -
    from that ok have "dm_get (dm_insert k (d, n) (tc_entries T)) (r, t) = Some (e, m)"
      by (simp only: dm_get_iff)
    with assms show ?thesis by (auto split: if_splits intro: tcache_ok_get)
  qed
  ultimately show ?thesis by (auto simp: tcache_ok_def)
qed

lemma tcache_insert_ok: "tcache_ok T \<Longrightarrow> wf_digest d \<Longrightarrow> tcache_ok (fst (tcache_insert C ck repo tag d T f))"
  by (simp add: tcache_insert_def tcache_ok_upd Let_def)

lemma tcache_touch_ok: "tcache_ok T \<Longrightarrow> tcache_ok (tcache_touch n repo tag T)"
  by (auto simp: tcache_touch_def intro: tcache_ok_upd tcache_ok_get split: option.splits)

lemma snapshot_map:
  "map_of (tcache_snapshot T repo) t = map_option (digest_to_string \<circ> fst) (dm_get (tc_entries T) (repo, t))"
proof -
  have "map_of (map (\<lambda>((r, t), (d, n)). (t, digest_to_string d)) (filter (\<lambda>((r, t), v). r = repo) xs)) t =
      map_option (digest_to_string \<circ> fst) (map_of xs (repo, t))" for xs :: "((string \<times> string) \<times> digest \<times> nat) list"
    by (induction xs) auto
  then show ?thesis by (simp add: tcache_snapshot_def dm_get_def)
qed

lemma snapshot_distinct: "tcache_ok T \<Longrightarrow> distinct (map fst (tcache_snapshot T repo))"
proof -
  have "distinct (map fst xs) \<Longrightarrow>
    distinct (map fst (map (\<lambda>((r, t), (d, n)). (t, digest_to_string d)) (filter (\<lambda>((r, t), v). r = repo) xs)))"
    for xs :: "((string \<times> string) \<times> digest \<times> nat) list"
    by (induction xs) (auto simp: image_iff split: prod.splits)
  then show "tcache_ok T \<Longrightarrow> ?thesis" by (simp add: tcache_ok_def dm_ok_def tcache_snapshot_def)
qed

lemma tcache_insert_all_get:
  "distinct (map fst ts) \<Longrightarrow> dm_get (tcache_insert_all now repo ts m) (r, t) =
     (case (if r = repo then map_of ts t else None) of
        Some s \<Rightarrow> (case digest_parse s of Inr d \<Rightarrow> Some (d, now) | Inl _ \<Rightarrow> dm_get m (r, t))
      | None \<Rightarrow> dm_get m (r, t))"
proof (induction now repo ts m rule: tcache_insert_all.induct)
  case (2 now repo tag s ts m)
  then have "tag \<notin> fst ` set ts" by simp
  then have "map_of ts tag = None" by (simp add: map_of_eq_None_iff)
  with 2 show ?case by (auto split: option.splits sum.splits)
qed simp

lemma persist_file_ok:
  assumes nf: "no_faults f" and clear: "dir_clear f (rdir L repo)"
    and t: "lookup f (rdir L repo @ [''_upstream_tags.json'']) \<noteq> Some FDir"
    and u: "lookup f (rdir L repo @ [''_upstream_tags.json.tmp'']) \<noteq> Some FDir"
    and b: "sm_to_vec_pretty C v \<noteq> None"
  obtains f' where "persist_file C now L repo v f = (True, f')"
proof -
  let ?p = "upstream_tags_path L repo" and ?D = "rdir L repo"
  obtain f1 where m: "fs_create_dir_all (butlast ?p) f = (Inr (), f1)"
    and d1: "lookup f1 ?D = Some FDir" and nf1: "no_faults f1"
    and o1: "\<And>q. \<not> prefix q ?D \<Longrightarrow> lookup f1 q = lookup f q"
    using create_dir_all_ok [of f "butlast ?p"] nf clear unfolding resolve_upstream_parent by metis
  have len: "\<not> prefix (?D @ [c]) ?D" for c by (auto dest: prefix_length_le)
  from b obtain body where body: "sm_to_vec_pretty C v = Some body" by auto
  obtain f2 where "fs_replace now (with_extension ?p ''json.tmp'') ?p body f1 = (Inr (), f2)"
    by (rule replace_ok [OF nf1, of "with_extension ?p ''json.tmp''" ?p])
      (use d1 t u o1 [OF len] that in \<open>simp_all add: path_simps\<close>)
  with m body show thesis by (intro that [of f2]) (simp add: persist_file_def)
qed

text \<open>
  C26. Resolved tags survive a restart, as fresh ones: after an insertion on a repository directory that
  can be written, a new cache that loads the repository's sidecar knows exactly the tags of that
  repository with their digests, and for a positive time to live serves every one of them as fresh,
  however stale it was before the restart.
\<close>

theorem tag_cache_reload:
  assumes C: "map_codec_ok C" and T: "tcache_ok T" "tc_layout T = Some L" and d: "wf_digest d"
    and f: "no_faults f" "dir_clear f (rdir L repo)"
      "lookup f (rdir L repo @ [''_upstream_tags.json'']) \<noteq> Some FDir"
      "lookup f (rdir L repo @ [''_upstream_tags.json.tmp'']) \<noteq> Some FDir"
    and ins: "tcache_insert C ck repo tag d T f = (T', f')"
  shows "let N = tcache_load_repo C now repo f' (tcache_new t (Some L)) in
     (\<forall>x. tcache_get_any later N repo x = tcache_get_any later T' repo x) \<and>
     (0 < t \<longrightarrow> (\<forall>x. tcache_lookup now N repo x =
        (case tcache_get_any now T' repo x of Some e \<Rightarrow> Fresh e | None \<Rightarrow> Miss)))"
proof -
  let ?v = "tcache_snapshot T' repo" and ?p = "upstream_tags_path L repo"
  have T': "tcache_ok T'" using tcache_insert_ok [OF T(1) d, of C ck repo tag f] ins by simp
  from C snapshot_distinct [OF T', of repo] obtain b s ts' where b: "sm_to_vec_pretty C ?v = Some b" "from_utf8 b = Some s"
    "sm_from_str C s = Some ts'" "distinct (map fst ts')" "map_of ts' = map_of ?v"
    unfolding map_codec_ok_def by blast
  obtain g where g: "persist_file C (wall ck) L repo ?v f = (True, g)"
    by (rule persist_file_ok [OF f, of C ?v]) (simp_all add: b(1))
  have "f' = g" using ins T(2) g by (auto simp: tcache_insert_def tcache_persist_repo_def Let_def)
  then have saved: "file_at f' (resolve ?p) = Some b"
    using upstream_sidecar.save_done [of C "wall ck" L repo ?v f] g b(1) by (simp add: path_simps)
  have nf': "no_faults f'"
    using fs_call.keeps_faults [OF persist_file_call, of C "wall ck" L repo ?v f] g \<open>f' = g\<close> f(1) by (metis no_faults_cong snd_conv)
  have "fs_read_to_string ?p f' = Inr s"
    using read_ok [OF nf' saved] b(2) by (simp add: fs_read_to_string_def)
  then have N: "tcache_load_repo C now repo f' (tcache_new t (Some L)) =
      \<lparr>tc_entries = tcache_insert_all now repo ts' [], tc_ttl = t, tc_layout = Some L\<rparr>"
    using b(3) by (simp add: tcache_load_repo_def tcache_new_def)
  have "dm_get (tcache_insert_all now repo ts' []) (repo, x) =
      map_option (\<lambda>(e, n). (e, now)) (dm_get (tc_entries T') (repo, x))" for x
    using tcache_ok_get [OF T', of "(repo, x)"]
    by (auto simp: tcache_insert_all_get [OF b(4)] b(5) snapshot_map digest_parse_to_string split: option.splits)
  then show ?thesis
    by (auto simp: N Let_def tcache_get_any_def tcache_lookup_def split: option.splits)
qed

text \<open>A codec that meets the hypothesis.\<close>

fun pairs :: "string list \<Rightarrow> (string \<times> string) list" where
  "pairs (t # d # ss) = (t, d) # pairs ss"
| "pairs _ = []"

definition demo_map_codec :: map_codec where
  "demo_map_codec = \<lparr>
     sm_to_vec_pretty = (\<lambda>ts. Some (to_bytes (enc_strs (concat (map (\<lambda>(t, d). [t, d]) ts))))),
     sm_from_str = (\<lambda>s. Some (pairs (dec_strs s)))\<rparr>"

lemma pairs_concat: "pairs (concat (map (\<lambda>(t, d). [t, d]) ts)) = ts"
  by (induction ts) auto

lemma demo_map_codec_ok: "map_codec_ok demo_map_codec"
  by (simp add: map_codec_ok_def demo_map_codec_def from_utf8_enc dec_enc pairs_concat)

theorem tag_cache_reload_witness:
  "\<exists>T' f'. tcache_insert demo_map_codec \<lparr>inst = 3, wall = 9, pid = 1\<rparr> ''a/b'' ''v1'' (sha256_digest (replicate 64 (CHR ''0'')))
       (tcache_new 300 (Some \<lparr>root = [''q'']\<rparr>)) \<lparr>nodes = [], faults = (\<lambda>_ _. None)\<rparr> = (T', f') \<and>
     tcache_lookup 1000 T' ''a/b'' ''v1'' = Stale (sha256_digest (replicate 64 (CHR ''0''))) \<and>
     tcache_lookup 1000 (tcache_load_repo demo_map_codec 1000 ''a/b'' f' (tcache_new 300 (Some \<lparr>root = [''q'']\<rparr>))) ''a/b'' ''v1'' =
       Fresh (sha256_digest (replicate 64 (CHR ''0'')))"
proof -
  let ?f = "\<lparr>nodes = [], faults = (\<lambda>_ _. None)\<rparr> :: fs" and ?L = "\<lparr>root = [''q'']\<rparr> :: cas_layout"
  let ?ck = "\<lparr>inst = 3, wall = 9, pid = 1\<rparr> :: clock" and ?d = "sha256_digest (replicate 64 (CHR ''0''))"
  let ?T = "tcache_new 300 (Some ?L)"
  have f: "no_faults ?f" "dir_clear ?f q" "lookup ?f (q @ [c]) \<noteq> Some FDir" for q c
    by (simp_all add: no_faults_def dir_clear_def lookup_def)
  have d: "wf_digest ?d" by (simp add: hex64_def is_lower_hexdigit_def list_all_iff)
  have L: "tc_layout ?T = Some ?L" by (simp add: tcache_new_def)
  obtain T' f' where ins: "tcache_insert demo_map_codec ?ck ''a/b'' ''v1'' ?d ?T ?f = (T', f')" by fastforce
  have T': "tcache_lookup 1000 T' ''a/b'' ''v1'' = Stale ?d"
    using ins by (auto simp: tcache_insert_def tcache_new_def tcache_lookup_def Let_def)
  from tag_cache_reload [OF demo_map_codec_ok tcache_ok_new L d f(1,2,3,3) ins, where now = 1000 and t = 300] T'
  have "tcache_lookup 1000 (tcache_load_repo demo_map_codec 1000 ''a/b'' f' (tcache_new 300 (Some ?L))) ''a/b'' ''v1'' = Fresh ?d"
    by (simp add: Let_def tcache_get_any_def)
  with ins T' show ?thesis by blast
qed

end
