(* ===== verification/Registry.thy ===== *)
theory Registry
  imports Upstream Tag_Cache
begin

text \<open>
  \<^verbatim>\<open>crates/quill-registry/src/error.rs\<close> and \<^verbatim>\<open>routes.rs\<close>: the error envelope, the routing of paths and every
  handler of the registry, over one record of all the state they share.  A handler runs as one step and
  reads the clock once; the producer task that a blob miss spawns is queued and run as a step of its own
  (its finer interleaving with a consumer is the subject of another theory), and the answer to a \<^verbatim>\<open>HEAD\<close>
  request that waits for a producer is given by \<open>head_reply\<close> once the entry has an outcome.
\<close>

section \<open>Errors\<close>

datatype registry_error_code =
    Unknown | Unauthorized | Denied | Unsupported | NameInvalid | NameUnknown | BlobUnknown
  | BlobUploadInvalid | BlobUploadUnknown | DigestInvalid | ManifestUnknown | ManifestInvalid
  | SizeInvalid | Unavailable

text \<open>The serialised names: the variants in upper case.\<close>

definition code_str :: "registry_error_code \<Rightarrow> string" where
  "code_str c =
     (case c of
        Unknown \<Rightarrow> ''UNKNOWN'' | Unauthorized \<Rightarrow> ''UNAUTHORIZED'' | Denied \<Rightarrow> ''DENIED''
      | Unsupported \<Rightarrow> ''UNSUPPORTED'' | NameInvalid \<Rightarrow> ''NAMEINVALID'' | NameUnknown \<Rightarrow> ''NAMEUNKNOWN''
      | BlobUnknown \<Rightarrow> ''BLOBUNKNOWN'' | BlobUploadInvalid \<Rightarrow> ''BLOBUPLOADINVALID''
      | BlobUploadUnknown \<Rightarrow> ''BLOBUPLOADUNKNOWN'' | DigestInvalid \<Rightarrow> ''DIGESTINVALID''
      | ManifestUnknown \<Rightarrow> ''MANIFESTUNKNOWN'' | ManifestInvalid \<Rightarrow> ''MANIFESTINVALID''
      | SizeInvalid \<Rightarrow> ''SIZEINVALID'' | Unavailable \<Rightarrow> ''UNAVAILABLE'')"

record registry_error =
  re_status :: nat
  re_code :: registry_error_code
  re_message :: string

definition registry_error_response :: "registry_error \<Rightarrow> response" where
  "registry_error_response e =
     \<lparr>rp_status = re_status e, rp_headers = [(''content-type'', ''application/json'')],
      rp_body = JsonBody (JObject [(''errors'', JArray [JObject
        [(''code'', JString (code_str (re_code e))), (''message'', JString (re_message e))]])])\<rparr>"

definition error_new :: "nat \<Rightarrow> registry_error_code \<Rightarrow> string \<Rightarrow> response" where
  "error_new status code message = registry_error_response \<lparr>re_status = status, re_code = code, re_message = message\<rparr>"

definition name_unknown :: "string \<Rightarrow> response" where
  "name_unknown name = error_new 404 NameUnknown (''repository name not known: '' @ name)"

definition blob_unknown :: "string \<Rightarrow> response" where
  "blob_unknown d = error_new 404 BlobUnknown (''blob unknown: '' @ d)"

definition manifest_unknown :: "string \<Rightarrow> response" where
  "manifest_unknown reference = error_new 404 ManifestUnknown (''manifest unknown: '' @ reference)"

definition digest_invalid :: "string \<Rightarrow> response" where
  "digest_invalid d = error_new 400 DigestInvalid (''invalid digest: '' @ d)"

definition internal_err :: "string \<Rightarrow> response" where
  "internal_err message = error_new 500 Unknown message"

section \<open>Routing\<close>

datatype action = Blob string | Manifest string | TagsList | UploadInit | UploadSession string | UnknownAction

text \<open>The guard of the two-part patterns: a last segment that is not empty and has no slash.\<close>

definition rsplit_segment :: "string \<Rightarrow> string \<Rightarrow> (string \<times> string) option" where
  "rsplit_segment pat rest =
     (case rsplit_once pat rest of
        Some (repo, seg) \<Rightarrow> if seg \<noteq> [] \<and> CHR ''/'' \<notin> set seg then Some (repo, seg) else None
      | None \<Rightarrow> None)"

definition split_path :: "string \<Rightarrow> string \<times> action" where
  "split_path rest =
     (case strip_suffix_str ''/blobs/uploads/'' rest of Some repo \<Rightarrow> (repo, UploadInit) | None \<Rightarrow>
     (case strip_suffix_str ''/blobs/uploads'' rest of Some repo \<Rightarrow> (repo, UploadInit) | None \<Rightarrow>
     (case rsplit_segment ''/blobs/uploads/'' rest of Some (repo, s) \<Rightarrow> (repo, UploadSession s) | None \<Rightarrow>
     (case rsplit_segment ''/blobs/'' rest of Some (repo, d) \<Rightarrow> (repo, Blob d) | None \<Rightarrow>
     (case rsplit_segment ''/manifests/'' rest of Some (repo, r) \<Rightarrow> (repo, Manifest r) | None \<Rightarrow>
     (case strip_suffix_str ''/tags/list'' rest of Some repo \<Rightarrow> (repo, TagsList) | None \<Rightarrow>
     ([], UnknownAction)))))))"

section \<open>The shared state\<close>

text \<open>What never changes: the libraries and the configured upstreams.\<close>

record 'w reg_env =
  ev_sha :: "bytes \<Rightarrow> string"
  ev_tags_codec :: tags_codec
  ev_upload_codec :: upload_codec
  ev_map_codec :: map_codec
  ev_json :: "bytes \<Rightarrow> json option"
  ev_texts :: err_texts
  ev_upstreams :: "'w upstream_entry list"

text \<open>A spawned producer task, with what its closure captured.\<close>

record 'w pt_task =
  pk_entry :: nat
  pk_client :: "'w upstream_client"
  pk_repo :: string
  pk_digest :: digest
  pk_final :: path

text \<open>
  \<^verbatim>\<open>RegistryState\<close> with what its parts share: the file system, the network, the pull-through entries by
  identity, the spawned tasks that have not run yet.
\<close>

record 'w registry =
  rg_storage :: local_storage
  rg_tags :: local_tags_store
  rg_uploads :: upload_store
  rg_table :: pullthrough_table
  rg_cache :: upstream_tag_cache
  rg_fs :: fs
  rg_net :: 'w
  rg_entries :: "entry list"
  rg_tasks :: "'w pt_task list"

text \<open>An answer, or the wait of a \<^verbatim>\<open>HEAD\<close> request for an entry's outcome.\<close>

datatype reply = Ready response | AwaitEntry nat digest

text \<open>\<^verbatim>\<open>state.storage.blob_meta(..)\<close>\<close>

definition reg_blob_meta :: "clock \<Rightarrow> string \<Rightarrow> digest \<Rightarrow> 'w registry \<Rightarrow> (storage_error + blob_meta option) \<times> 'w registry" where
  "reg_blob_meta ck repo d R =
     (case blob_meta_of ck repo d (rg_fs R) (rg_storage R) of (r, S) \<Rightarrow> (r, R\<lparr>rg_storage := S\<rparr>))"

section \<open>Request bodies\<close>

definition collect_body :: "stream \<Rightarrow> nat \<Rightarrow> response + bytes" where
  "collect_body body max_bytes =
     (case collect_stream body of
        Inr bs \<Rightarrow> if max_bytes < length bs then Inl (error_new 413 SizeInvalid ''request body too large'') else Inr bs
      | Inl e \<Rightarrow> Inl (error_new 400 Unknown (''body read failed: '' @ e)))"

section \<open>Blobs\<close>

definition serve_local_blob :: "'w reg_env \<Rightarrow> blob_meta \<Rightarrow> digest \<Rightarrow> bool \<Rightarrow> fs \<Rightarrow> response" where
  "serve_local_blob V m d with_body f =
     (let hs = [(''content-length'', dec (unat (bm_size m))), (''docker-content-digest'', digest_to_string d)] in
      if \<not> with_body then \<lparr>rp_status = 200, rp_headers = hs, rp_body = NoBody\<rparr>
      else case open_blob m f of
             Inl e \<Rightarrow> internal_err (storage_error_str (ev_texts V) e)
           | Inr b \<Rightarrow> \<lparr>rp_status = 200, rp_headers = hdr_insert ''content-type'' ''application/octet-stream'' hs, rp_body = Full b\<rparr>)"

definition pt_tempfile :: "cas_layout \<Rightarrow> string \<Rightarrow> digest \<Rightarrow> path" where
  "pt_tempfile L repo d = path_join (uploads_dir L repo) (''pt-'' @ hex d)"

definition serve_blob_via_pullthrough :: "'w upstream_entry \<Rightarrow> string \<Rightarrow> digest \<Rightarrow> bool \<Rightarrow> 'w registry \<Rightarrow> reply \<times> 'w registry" where
  "serve_blob_via_pullthrough u repo d with_body R =
     (let L = layout (rg_storage R) in
      case get_or_insert d (length (rg_entries R)) (rg_table R) of
        ((i, role), tab) \<Rightarrow>
          let R1 = (if role = Producer
                    then R\<lparr>rg_table := tab,
                           rg_entries := rg_entries R @ [entry_new d (pt_tempfile L repo d)],
                           rg_tasks := rg_tasks R @ [\<lparr>pk_entry = i, pk_client = ue_client u, pk_repo = repo,
                                                      pk_digest = d, pk_final = blob_path L repo d\<rparr>]\<rparr>
                    else R\<lparr>rg_table := tab\<rparr>)
          in (if \<not> with_body then (AwaitEntry i d, R1)
              else (Ready \<lparr>rp_status = 200,
                       rp_headers = hdr_insert ''transfer-encoding'' ''chunked''
                         [(''docker-content-digest'', digest_to_string d), (''content-type'', ''application/octet-stream'')],
                       rp_body = FromEntry i\<rparr>, R1)))"

text \<open>The answer of the waiting \<^verbatim>\<open>HEAD\<close> request.\<close>

definition head_reply :: "digest \<Rightarrow> producer_outcome option \<Rightarrow> response" where
  "head_reply d out =
     (case out of
        Some (PSuccess final_size) \<Rightarrow>
          \<lparr>rp_status = 200,
           rp_headers = [(''content-length'', dec (unat final_size)), (''docker-content-digest'', digest_to_string d)],
           rp_body = NoBody\<rparr>
      | Some (PFailed _) \<Rightarrow> blob_unknown (digest_to_string d)
      | None \<Rightarrow> blob_unknown (digest_to_string d))"

text \<open>The spawned task.\<close>

definition producer_task :: "'w reg_env \<Rightarrow> clock \<Rightarrow> 'w pt_task \<Rightarrow> 'w registry \<Rightarrow> 'w registry" where
  "producer_task V ck k R =
     (case cl_stream_blob (pk_client k) (inst ck) (pk_repo k) (pk_digest k) (rg_net R) of
        (Inl e, w) \<Rightarrow>
          R\<lparr>rg_net := w,
            rg_entries := (rg_entries R)[pk_entry k :=
              entry_finish (PFailed (PUpstream (upstream_error_str e))) (rg_entries R ! pk_entry k)],
            rg_table := table_finish (pk_digest k) (rg_table R)\<rparr>
      | (Inr items, w) \<Rightarrow>
          (case run_producer (ev_sha V) (wall ck) (pk_final k) items (rg_entries R ! pk_entry k) (rg_fs R) of
             (res, e, f) \<Rightarrow>
               let R1 = R\<lparr>rg_net := w, rg_fs := f, rg_entries := (rg_entries R)[pk_entry k := e],
                          rg_table := table_finish (pk_digest k) (rg_table R)\<rparr>
               in (case res of
                     Inl _ \<Rightarrow> R1
                   | Inr _ \<Rightarrow>
                       (let m = \<lparr>bm_path = pk_final k, bm_size = high_water_mark e, bm_cached_at = inst ck\<rparr>
                        in R1\<lparr>rg_storage := (rg_storage R1)\<lparr>meta_cache :=
                             cache_insert (pk_repo k) (pk_digest k) m (meta_cache (rg_storage R1))\<rparr>\<rparr>))))"

definition get_blob :: "'w reg_env \<Rightarrow> clock \<Rightarrow> string \<Rightarrow> string \<Rightarrow> bool \<Rightarrow> 'w registry \<Rightarrow> reply \<times> 'w registry" where
  "get_blob V ck repo d with_body R =
     (case digest_parse d of
        Inl _ \<Rightarrow> (Ready (digest_invalid d), R)
      | Inr parsed \<Rightarrow>
          (case reg_blob_meta ck repo parsed R of
             (Inr (Some m), R1) \<Rightarrow> (Ready (serve_local_blob V m parsed with_body (rg_fs R1)), R1)
           | (Inl e, R1) \<Rightarrow> (Ready (internal_err (storage_error_str (ev_texts V) e)), R1)
           | (Inr None, R1) \<Rightarrow>
               (case route (ev_upstreams V) repo of
                  None \<Rightarrow> (Ready (blob_unknown d), R1)
                | Some u \<Rightarrow> serve_blob_via_pullthrough u repo parsed with_body R1)))"

definition reg_delete_blob :: "'w reg_env \<Rightarrow> string \<Rightarrow> string \<Rightarrow> 'w registry \<Rightarrow> response \<times> 'w registry" where
  "reg_delete_blob V repo d R =
     (case digest_parse d of
        Inl _ \<Rightarrow> (digest_invalid d, R)
      | Inr parsed \<Rightarrow>
          (case delete_blob repo parsed (rg_storage R) (rg_fs R) of
             (r, S, f) \<Rightarrow>
               ((case r of
                   Inr _ \<Rightarrow> \<lparr>rp_status = 202, rp_headers = [], rp_body = NoBody\<rparr>
                 | Inl (SNotFound _) \<Rightarrow> blob_unknown d
                 | Inl e \<Rightarrow> internal_err (storage_error_str (ev_texts V) e)),
                R\<lparr>rg_storage := S, rg_fs := f\<rparr>)))"

section \<open>Manifests\<close>

definition build_manifest_response :: "bytes \<Rightarrow> string \<Rightarrow> digest \<Rightarrow> bool \<Rightarrow> response" where
  "build_manifest_response b content_type d with_body = expect_built
     \<lparr>rp_status = 200,
      rp_headers = [(''content-length'', dec (length b)), (''docker-content-digest'', digest_to_string d),
                    (''content-type'', content_type)],
      rp_body = (if with_body then Full b else NoBody)\<rparr>"

definition sniff_manifest_content_type :: "(bytes \<Rightarrow> json option) \<Rightarrow> bytes \<Rightarrow> string" where
  "sniff_manifest_content_type J b =
     (case Option.bind (Option.bind (J b) (json_get ''mediaType'')) as_str of
        Some mt \<Rightarrow> mt
      | None \<Rightarrow> ''application/vnd.oci.image.manifest.v1+json'')"

definition serve_local_manifest :: "'w reg_env \<Rightarrow> clock \<Rightarrow> string \<Rightarrow> digest \<Rightarrow> string \<Rightarrow> bool \<Rightarrow> 'w registry \<Rightarrow> response \<times> 'w registry" where
  "serve_local_manifest V ck repo d reference with_body R =
     (case reg_blob_meta ck repo d R of
        (Inr None, R1) \<Rightarrow> (manifest_unknown reference, R1)
      | (Inl e, R1) \<Rightarrow> (internal_err (storage_error_str (ev_texts V) e), R1)
      | (Inr (Some m), R1) \<Rightarrow>
          (case read_blob_to_bytes m (rg_fs R1) of
             Inl e \<Rightarrow> (internal_err (storage_error_str (ev_texts V) e), R1)
           | Inr b \<Rightarrow> (build_manifest_response b (sniff_manifest_content_type (ev_json V) b) d with_body, R1)))"

definition fetch_and_serve_upstream_manifest :: "'w reg_env \<Rightarrow> clock \<Rightarrow> 'w upstream_entry \<Rightarrow> string \<Rightarrow> string \<Rightarrow> bool \<Rightarrow>
    'w registry \<Rightarrow> response \<times> 'w registry" where
  "fetch_and_serve_upstream_manifest V ck u repo reference with_body R =
     (case cl_get_manifest (ue_client u) (inst ck) repo reference (rg_net R) of
        (Inl e, w) \<Rightarrow> (manifest_unknown reference, R\<lparr>rg_net := w\<rparr>)
      | (Inr m, w) \<Rightarrow>
          (case put_blob_buffered (ev_sha V) ck repo (mr_digest m) (mr_bytes m) (rg_storage R) (rg_fs R) of
             (_, S, f) \<Rightarrow>
               let R1 = R\<lparr>rg_net := w, rg_storage := S, rg_fs := f\<rparr>;
                   R2 = (if digest_parse_ok reference = None
                         then (case tcache_insert (ev_map_codec V) ck repo reference (mr_digest m) (rg_cache R1) (rg_fs R1) of
                                 (T, f2) \<Rightarrow> R1\<lparr>rg_cache := T, rg_fs := f2\<rparr>)
                         else R1)
               in (build_manifest_response (mr_bytes m) (mr_content_type m) (mr_digest m) with_body, R2)))"

text \<open>\<^verbatim>\<open>if let Ok(Some(_)) = blob_meta(..)\<close>, then serve the local copy; \<open>None\<close> falls through.\<close>

definition serve_if_local :: "'w reg_env \<Rightarrow> clock \<Rightarrow> string \<Rightarrow> digest \<Rightarrow> string \<Rightarrow> bool \<Rightarrow> 'w registry \<Rightarrow> response option \<times> 'w registry" where
  "serve_if_local V ck repo d reference with_body R =
     (case reg_blob_meta ck repo d R of
        (Inr (Some _), R1) \<Rightarrow> (case serve_local_manifest V ck repo d reference with_body R1 of (r, R2) \<Rightarrow> (Some r, R2))
      | (_, R1) \<Rightarrow> (None, R1))"

text \<open>The cases of a tag that is not local, up to the full fetch.\<close>

definition serve_cached_tag :: "'w reg_env \<Rightarrow> clock \<Rightarrow> string \<Rightarrow> string \<Rightarrow> bool \<Rightarrow> 'w registry \<Rightarrow> response option \<times> 'w registry" where
  "serve_cached_tag V ck repo reference with_body R =
     (case (tcache_lookup (inst ck) (rg_cache R) repo reference, route (ev_upstreams V) repo) of
        (Fresh d, _) \<Rightarrow> serve_if_local V ck repo d reference with_body R
      | (Stale d, Some u) \<Rightarrow>
          (case cl_resolve_tag (ue_client u) (inst ck) repo reference (rg_net R) of
             (Inr new_digest, w) \<Rightarrow>
               if new_digest = d
               then serve_if_local V ck repo d reference with_body
                      (R\<lparr>rg_net := w, rg_cache := tcache_touch (inst ck) repo reference (rg_cache R)\<rparr>)
               else (None, R\<lparr>rg_net := w\<rparr>)
           | (Inl e, w) \<Rightarrow> serve_if_local V ck repo d reference with_body (R\<lparr>rg_net := w\<rparr>))
      | (Stale d, None) \<Rightarrow> serve_if_local V ck repo d reference with_body R
      | (Miss, _) \<Rightarrow> (None, R))"

definition get_manifest :: "'w reg_env \<Rightarrow> clock \<Rightarrow> string \<Rightarrow> string \<Rightarrow> bool \<Rightarrow> 'w registry \<Rightarrow> response \<times> 'w registry" where
  "get_manifest V ck repo reference with_body R =
     (case (if digest_parse_ok reference = None
            then Option.bind (tags_get (rg_tags R) repo reference) (\<lambda>m. digest_parse_ok (tag_digest m)) else None) of
        Some d \<Rightarrow> serve_local_manifest V ck repo d reference with_body R
      | None \<Rightarrow>
     (case digest_parse_ok reference of
        Some d \<Rightarrow>
          (case reg_blob_meta ck repo d R of
             (Inr (Some _), R1) \<Rightarrow> serve_local_manifest V ck repo d reference with_body R1
           | (Inl e, R1) \<Rightarrow> (internal_err (storage_error_str (ev_texts V) e), R1)
           | (Inr None, R1) \<Rightarrow>
               (case route (ev_upstreams V) repo of
                  Some u \<Rightarrow> fetch_and_serve_upstream_manifest V ck u repo reference with_body R1
                | None \<Rightarrow> (manifest_unknown reference, R1)))
      | None \<Rightarrow>
          (case serve_cached_tag V ck repo reference with_body R of
             (Some r, R1) \<Rightarrow> (r, R1)
           | (None, R1) \<Rightarrow>
               (case route (ev_upstreams V) repo of
                  Some u \<Rightarrow> fetch_and_serve_upstream_manifest V ck u repo reference with_body R1
                | None \<Rightarrow> (manifest_unknown reference, R1)))))"

section \<open>Tags and catalog\<close>

definition json_ok :: "json \<Rightarrow> response" where
  "json_ok v = \<lparr>rp_status = 200, rp_headers = [(''content-type'', ''application/json'')], rp_body = JsonBody v\<rparr>"

text \<open>A \<^verbatim>\<open>BTreeSet<String>\<close> as a list.\<close>

definition btree_list :: "string list \<Rightarrow> string list" where
  "btree_list ts = sort (remdups ts)"

definition list_tags :: "'w reg_env \<Rightarrow> clock \<Rightarrow> string \<Rightarrow> 'w registry \<Rightarrow> response \<times> 'w registry" where
  "list_tags V ck repo R =
     (let known = map fst (tags_list_for_repo (rg_tags R) repo) @ tcache_list_for_repo (rg_cache R) repo;
          out = (\<lambda>ts. json_ok (JObject [(''name'', JString repo), (''tags'', JArray (map JString (btree_list ts)))]))
      in if known \<noteq> [] then (out known, R)
         else case route (ev_upstreams V) repo of
                None \<Rightarrow> (out known, R)
              | Some u \<Rightarrow>
                  (case cl_list_tags (ue_client u) (inst ck) repo (rg_net R) of
                     (Inr ts, w) \<Rightarrow> (out ts, R\<lparr>rg_net := w\<rparr>)
                   | (Inl e, w) \<Rightarrow> (out known, R\<lparr>rg_net := w\<rparr>)))"

definition catalog :: "'w reg_env \<Rightarrow> 'w registry \<Rightarrow> response" where
  "catalog V R =
     (case list_repos (layout (rg_storage R)) (rg_fs R) of
        Inl e \<Rightarrow> internal_err (et_io (ev_texts V) e)
      | Inr repos \<Rightarrow>
          json_ok (JObject [(''repositories'', JArray (map JString
            (filter (\<lambda>r. tags_list_for_repo (rg_tags R) r \<noteq> [] \<or> tcache_list_for_repo (rg_cache R) r \<noteq> []) repos)))]))"

section \<open>Uploads\<close>

definition upload_location :: "string \<Rightarrow> string \<Rightarrow> string" where
  "upload_location repo session = ''/v2/'' @ repo @ ''/blobs/uploads/'' @ session"

definition upload_init :: "'w reg_env \<Rightarrow> clock \<Rightarrow> string \<Rightarrow> 'w registry \<Rightarrow> response \<times> 'w registry" where
  "upload_init V ck repo R =
     (case ensure_repo repo (rg_storage R) (rg_fs R) of
        (Inl e, f) \<Rightarrow> (internal_err (storage_error_str (ev_texts V) e), R\<lparr>rg_fs := f\<rparr>)
      | (Inr _, f) \<Rightarrow>
          (case create_session (ev_upload_codec V) ck repo (rg_uploads R) f of
             (Inl e, T, f2) \<Rightarrow> (internal_err (upload_error_str (ev_texts V) e), R\<lparr>rg_uploads := T, rg_fs := f2\<rparr>)
           | (Inr session, T, f2) \<Rightarrow>
               (expect_built \<lparr>rp_status = 202,
                 rp_headers = [(''location'', upload_location repo session), (''range'', ''0-0''), (''docker-upload-uuid'', session)],
                 rp_body = NoBody\<rparr>, R\<lparr>rg_uploads := T, rg_fs := f2\<rparr>)))"

definition upload_unknown :: response where
  "upload_unknown = error_new 404 BlobUploadUnknown ''upload session not found''"

definition max_upload_body :: nat where
  "max_upload_body = 5 * 1024 * 1024 * 1024"

definition upload_patch :: "'w reg_env \<Rightarrow> clock \<Rightarrow> string \<Rightarrow> string \<Rightarrow> stream \<Rightarrow> 'w registry \<Rightarrow> response \<times> 'w registry" where
  "upload_patch V ck repo session body R =
     (case collect_body body max_upload_body of
        Inl r \<Rightarrow> (r, R)
      | Inr bs \<Rightarrow>
          (case upload_append (ev_upload_codec V) ck repo session bs (rg_uploads R) (rg_fs R) of
             (res, T, f) \<Rightarrow>
               ((case res of
                   Inl (UNotFound _) \<Rightarrow> upload_unknown
                 | Inl e \<Rightarrow> internal_err (upload_error_str (ev_texts V) e)
                 | Inr tot \<Rightarrow> expect_built
                     \<lparr>rp_status = 202,
                      rp_headers = [(''location'', upload_location repo session),
                                    (''range'', if tot = 0 then ''0-0'' else ''0-'' @ dec (unat (tot - 1))),
                                    (''docker-upload-uuid'', session)],
                      rp_body = NoBody\<rparr>),
                R\<lparr>rg_uploads := T, rg_fs := f\<rparr>)))"

definition upload_put :: "'w reg_env \<Rightarrow> clock \<Rightarrow> string \<Rightarrow> string \<Rightarrow> (string \<times> string) list \<Rightarrow> stream \<Rightarrow> 'w registry \<Rightarrow> response \<times> 'w registry" where
  "upload_put V ck repo session query body R =
     (case map_of (rev query) ''digest'' of
        None \<Rightarrow> (error_new 400 DigestInvalid ''missing ?digest= query parameter'', R)
      | Some ds \<Rightarrow>
     (case digest_parse ds of
        Inl _ \<Rightarrow> (digest_invalid ds, R)
      | Inr d \<Rightarrow>
     (case collect_body body max_upload_body of
        Inl r \<Rightarrow> (r, R)
      | Inr bs \<Rightarrow>
          (case upload_finalize (ev_upload_codec V) (ev_sha V) ck repo session (if bs = [] then None else Some bs) d
                  (rg_uploads R) (rg_fs R) of
             (res, T, f) \<Rightarrow>
               ((case res of
                   Inr _ \<Rightarrow> expect_built
                     \<lparr>rp_status = 201,
                      rp_headers = [(''location'', ''/v2/'' @ repo @ ''/blobs/'' @ digest_to_string d),
                                    (''docker-content-digest'', digest_to_string d)],
                      rp_body = NoBody\<rparr>
                 | Inl (UDigestMismatch expected got) \<Rightarrow>
                     error_new 400 DigestInvalid (''digest mismatch: expected '' @ expected @ '', got '' @ got)
                 | Inl (UNotFound _) \<Rightarrow> upload_unknown
                 | Inl e \<Rightarrow> internal_err (upload_error_str (ev_texts V) e)),
                R\<lparr>rg_uploads := T, rg_fs := f\<rparr>)))))"

section \<open>Pushing and deleting manifests\<close>

text \<open>The blobs a manifest names: its config and its layers.\<close>

definition required_blobs :: "json \<Rightarrow> string list" where
  "required_blobs v =
     (case Option.bind (Option.bind (json_get ''config'' v) (json_get ''digest'')) as_str of None \<Rightarrow> [] | Some d \<Rightarrow> [d]) @
     (case Option.bind (json_get ''layers'' v) as_array of
        None \<Rightarrow> []
      | Some layers \<Rightarrow> List.map_filter (\<lambda>l. Option.bind (json_get ''digest'' l) as_str) layers)"

fun first_missing :: "clock \<Rightarrow> string \<Rightarrow> string list \<Rightarrow> 'w registry \<Rightarrow> string option \<times> 'w registry" where
  "first_missing ck repo [] R = (None, R)"
| "first_missing ck repo (s # ss) R =
     (case digest_parse s of
        Inl _ \<Rightarrow> (Some s, R)
      | Inr d \<Rightarrow>
          (case reg_blob_meta ck repo d R of
             (Inr (Some _), R1) \<Rightarrow> first_missing ck repo ss R1
           | (_, R1) \<Rightarrow> (Some s, R1)))"

definition check_manifest_blobs_present :: "'w reg_env \<Rightarrow> clock \<Rightarrow> string \<Rightarrow> bytes \<Rightarrow> 'w registry \<Rightarrow> string option \<times> 'w registry" where
  "check_manifest_blobs_present V ck repo b R =
     (case ev_json V b of None \<Rightarrow> (None, R) | Some v \<Rightarrow> first_missing ck repo (required_blobs v) R)"

definition max_manifest_body :: nat where
  "max_manifest_body = 32 * 1024 * 1024"

text \<open>After the checks: persist the manifest, then record the tag.\<close>

definition store_manifest :: "'w reg_env \<Rightarrow> clock \<Rightarrow> string \<Rightarrow> string \<Rightarrow> header_map \<Rightarrow> digest \<Rightarrow> bytes \<Rightarrow> 'w registry \<Rightarrow> response \<times> 'w registry" where
  "store_manifest V ck repo reference headers d b R =
     (let created = expect_built \<lparr>rp_status = 201,
            rp_headers = [(''location'', ''/v2/'' @ repo @ ''/manifests/'' @ digest_to_string d),
                          (''docker-content-digest'', digest_to_string d)] @
              (case hdr_str ''content-type'' headers of None \<Rightarrow> [] | Some ct \<Rightarrow> [(''content-type'', ct)]),
            rp_body = NoBody\<rparr> in
      case put_blob_buffered (ev_sha V) ck repo d b (rg_storage R) (rg_fs R) of
        (Inl e, S, f) \<Rightarrow> (internal_err (storage_error_str (ev_texts V) e), R\<lparr>rg_storage := S, rg_fs := f\<rparr>)
      | (Inr _, S, f) \<Rightarrow>
          let R1 = R\<lparr>rg_storage := S, rg_fs := f\<rparr> in
          if digest_parse_ok reference \<noteq> None then (created, R1)
          else case tags_set (ev_tags_codec V) ck repo reference d (rg_tags R1) (rg_fs R1) of
                 (Inl e, T, f2) \<Rightarrow> (internal_err (local_tags_error_str (ev_texts V) e), R1\<lparr>rg_tags := T, rg_fs := f2\<rparr>)
               | (Inr _, T, f2) \<Rightarrow> (created, R1\<lparr>rg_tags := T, rg_fs := f2\<rparr>))"

definition put_manifest :: "'w reg_env \<Rightarrow> clock \<Rightarrow> string \<Rightarrow> string \<Rightarrow> header_map \<Rightarrow> stream \<Rightarrow> 'w registry \<Rightarrow> response \<times> 'w registry" where
  "put_manifest V ck repo reference headers body R =
     (case ensure_repo repo (rg_storage R) (rg_fs R) of
        (Inl e, f) \<Rightarrow> (internal_err (storage_error_str (ev_texts V) e), R\<lparr>rg_fs := f\<rparr>)
      | (Inr _, f) \<Rightarrow>
     (let R0 = R\<lparr>rg_fs := f\<rparr> in
      case collect_body body max_manifest_body of
        Inl r \<Rightarrow> (r, R0)
      | Inr b \<Rightarrow>
     (case digest_parse (''sha256:'' @ ev_sha V b) of
        Inl e \<Rightarrow> (internal_err (digest_error_str e), R0)
      | Inr d \<Rightarrow>
     (case digest_parse_ok reference of
        Some rd \<Rightarrow>
          if rd \<noteq> d
          then (error_new 400 ManifestInvalid
                  (''manifest body digest '' @ digest_to_string d @ '' does not match reference '' @ digest_to_string rd), R0)
          else (case check_manifest_blobs_present V ck repo b R0 of
                  (Some missing, R1) \<Rightarrow> (error_new 400 ManifestInvalid (''manifest references missing blob: '' @ missing), R1)
                | (None, R1) \<Rightarrow> store_manifest V ck repo reference headers d b R1)
      | None \<Rightarrow>
          (case check_manifest_blobs_present V ck repo b R0 of
             (Some missing, R1) \<Rightarrow> (error_new 400 ManifestInvalid (''manifest references missing blob: '' @ missing), R1)
           | (None, R1) \<Rightarrow> store_manifest V ck repo reference headers d b R1)))))"

fun remove_tags :: "tags_codec \<Rightarrow> clock \<Rightarrow> string \<Rightarrow> string list \<Rightarrow> local_tags_store \<Rightarrow> fs \<Rightarrow> local_tags_store \<times> fs" where
  "remove_tags C ck repo [] T f = (T, f)"
| "remove_tags C ck repo (t # ts) T f =
     (case tags_remove C ck repo t T f of (_, T1, f1) \<Rightarrow> remove_tags C ck repo ts T1 f1)"

definition delete_manifest :: "'w reg_env \<Rightarrow> clock \<Rightarrow> string \<Rightarrow> string \<Rightarrow> 'w registry \<Rightarrow> response \<times> 'w registry" where
  "delete_manifest V ck repo reference R =
     (let accepted = \<lparr>rp_status = 202, rp_headers = [], rp_body = NoBody\<rparr> in
      case digest_parse_ok reference of
        None \<Rightarrow>
          (case tags_remove (ev_tags_codec V) ck repo reference (rg_tags R) (rg_fs R) of
             (r, T, f) \<Rightarrow>
               ((case r of
                   Inr True \<Rightarrow> accepted
                 | Inr False \<Rightarrow> manifest_unknown reference
                 | Inl e \<Rightarrow> internal_err (local_tags_error_str (ev_texts V) e)),
                R\<lparr>rg_tags := T, rg_fs := f\<rparr>))
      | Some d \<Rightarrow>
          (let to_remove = map fst (filter (\<lambda>(t, m). tag_digest m = digest_to_string d) (tags_list_for_repo (rg_tags R) repo)) in
           case remove_tags (ev_tags_codec V) ck repo to_remove (rg_tags R) (rg_fs R) of
             (T, f) \<Rightarrow>
               (case delete_blob repo d (rg_storage R) f of
                  (r, S, f2) \<Rightarrow>
                    ((case r of
                        Inr _ \<Rightarrow> accepted
                      | Inl (SNotFound _) \<Rightarrow> manifest_unknown reference
                      | Inl e \<Rightarrow> internal_err (storage_error_str (ev_texts V) e)),
                     R\<lparr>rg_tags := T, rg_storage := S, rg_fs := f2\<rparr>))))"

section \<open>Conditional requests\<close>

definition apply_if_none_match :: "header_map \<Rightarrow> response \<Rightarrow> response" where
  "apply_if_none_match req resp =
     (case hdr_str ''if-none-match'' req of
        None \<Rightarrow> resp
      | Some v \<Rightarrow>
          (case hdr_str ''docker-content-digest'' (rp_headers resp) of
             None \<Rightarrow> resp
           | Some d \<Rightarrow>
               if trim_matches (CHR 0x22) (trim v) \<noteq> d then resp
               else \<lparr>rp_status = 304, rp_headers = [(''docker-content-digest'', d), (''etag'', d)], rp_body = NoBody\<rparr>))"

section \<open>Dispatch\<close>

text \<open>
  A request as the extractors of \<^verbatim>\<open>axum\<close> hand it over: the path and the pairs of the query are
  percent-decoded; a later pair of the query replaces an earlier one of the same name.
\<close>

record http_req =
  hq_method :: http_method
  hq_query :: "(string \<times> string) list"
  hq_headers :: header_map
  hq_body :: stream

definition unsupported :: response where
  "unsupported = error_new 405 Unsupported ''method or endpoint not implemented''"

definition ready :: "response \<times> 'w registry \<Rightarrow> reply \<times> 'w registry" where
  "ready x = (Ready (fst x), snd x)"

definition dispatch :: "'w reg_env \<Rightarrow> clock \<Rightarrow> string \<Rightarrow> http_req \<Rightarrow> 'w registry \<Rightarrow> reply \<times> 'w registry" where
  "dispatch V ck rest q R =
     (if rest = ''_catalog'' then (Ready (catalog V R), R)
      else case split_path rest of
        (repo, act) \<Rightarrow>
          if repo = [] then (Ready (name_unknown rest), R)
          else case (hq_method q, act) of
            (GET, Blob d) \<Rightarrow> get_blob V ck repo d True R
          | (HEAD, Blob d) \<Rightarrow> get_blob V ck repo d False R
          | (DELETE, Blob d) \<Rightarrow> ready (reg_delete_blob V repo d R)
          | (GET, Manifest r) \<Rightarrow>
              ready (case get_manifest V ck repo r True R of (resp, R1) \<Rightarrow> (apply_if_none_match (hq_headers q) resp, R1))
          | (HEAD, Manifest r) \<Rightarrow>
              ready (case get_manifest V ck repo r False R of (resp, R1) \<Rightarrow> (apply_if_none_match (hq_headers q) resp, R1))
          | (PUT, Manifest r) \<Rightarrow> ready (put_manifest V ck repo r (hq_headers q) (hq_body q) R)
          | (DELETE, Manifest r) \<Rightarrow> ready (delete_manifest V ck repo r R)
          | (GET, TagsList) \<Rightarrow> ready (list_tags V ck repo R)
          | (POST, UploadInit) \<Rightarrow> ready (upload_init V ck repo R)
          | (PATCH, UploadSession s) \<Rightarrow> ready (upload_patch V ck repo s (hq_body q) R)
          | (PUT, UploadSession s) \<Rightarrow> ready (upload_put V ck repo s (hq_query q) (hq_body q) R)
          | _ \<Rightarrow> (Ready unsupported, R))"

definition v2_check :: response where
  "v2_check = \<lparr>rp_status = 200, rp_headers = [(''docker-distribution-api-version'', ''registry/2.0'')], rp_body = NoBody\<rparr>"

text \<open>
  The router, on a decoded path: \<^verbatim>\<open>get\<close> routes answer \<^verbatim>\<open>GET\<close> and \<^verbatim>\<open>HEAD\<close>, the wildcard needs at least one
  character.
\<close>

definition router_call :: "'w reg_env \<Rightarrow> clock \<Rightarrow> string \<Rightarrow> http_req \<Rightarrow> 'w registry \<Rightarrow> reply \<times> 'w registry" where
  "router_call V ck p q R =
     (if p = ''/v2/'' \<or> p = ''/v2''
      then (Ready (if hq_method q = GET \<or> hq_method q = HEAD then v2_check
                   else \<lparr>rp_status = 405, rp_headers = [(''allow'', ''GET,HEAD'')], rp_body = NoBody\<rparr>), R)
      else case strip_prefix_str ''/v2/'' p of
             Some rest \<Rightarrow> dispatch V ck rest q R
           | None \<Rightarrow> (Ready \<lparr>rp_status = 404, rp_headers = [], rp_body = NoBody\<rparr>, R))"

section \<open>When an answer can be built\<close>

lemma header_value_Cons: "header_value_ok (c # s) \<longleftrightarrow> header_byte_ok c \<and> header_value_ok s"
  by (simp add: header_value_ok_def)

lemmas header_simps = header_value_Cons header_byte_ok_def

lemma digest_header_ok [simp]: "wf_digest d \<Longrightarrow> header_value_ok (digest_to_string d)"
proof -
  have "\<forall>c \<in> set ''0123456789abcdef''. header_byte_ok c" by (simp add: header_byte_ok_def)
  then have "header_value_ok h" if "hex64 h" for h
    using that unfolding header_value_ok_def hex64_def is_lower_hexdigit_def list_all_iff by blast
  moreover have "header_value_ok ''sha256:''" by (simp add: header_value_ok_def header_byte_ok_def)
  ultimately show "wf_digest d \<Longrightarrow> header_value_ok (digest_to_string d)"
    by (simp add: wf_digest_def digest_to_string_def flip: append_Cons append_Nil) (simp add: header_value_ok_def)
qed

lemma expect_built_cases: "expect_built r = r \<or> expect_built r = panicked"
  by (simp add: expect_built_def)

lemma panicked_simps [simp]: "rp_status panicked = 0" "rp_headers panicked = []" "rp_body panicked = NoAnswer"
  by (simp_all add: panicked_def)

lemma expect_built_Full: "rp_body (expect_built r) = Full b \<Longrightarrow> expect_built r = r"
  using expect_built_cases [of r] by auto

text \<open>The answer to a manifest download: the handler panics exactly on a media type that is no header value.\<close>

lemma manifest_response:
  "wf_digest d \<Longrightarrow> build_manifest_response b ct d wb =
     (if header_value_ok ct
      then \<lparr>rp_status = 200, rp_headers = [(''content-length'', dec (length b)), (''docker-content-digest'', digest_to_string d),
              (''content-type'', ct)], rp_body = (if wb then Full b else NoBody)\<rparr>
      else panicked)"
  by (simp add: build_manifest_response_def expect_built_def)

text \<open>The answer to a manifest push is built when the repository is a header value; the echoed content type always is.\<close>

lemma created_built:
  assumes "header_value_ok repo" and "wf_digest d"
  shows "expect_built \<lparr>rp_status = 201, rp_headers = [(''location'', ''/v2/'' @ repo @ ''/manifests/'' @ digest_to_string d),
      (''docker-content-digest'', digest_to_string d)] @ (case hdr_str ''content-type'' headers of None \<Rightarrow> [] | Some ct \<Rightarrow> [(''content-type'', ct)]),
      rp_body = NoBody\<rparr> = \<lparr>rp_status = 201, rp_headers = [(''location'', ''/v2/'' @ repo @ ''/manifests/'' @ digest_to_string d),
      (''docker-content-digest'', digest_to_string d)] @ (case hdr_str ''content-type'' headers of None \<Rightarrow> [] | Some ct \<Rightarrow> [(''content-type'', ct)]),
      rp_body = NoBody\<rparr>"
proof -
  have "header_value_ok (''/v2/'' @ repo @ ''/manifests/'' @ digest_to_string d)"
    using assms by (simp add: header_simps)
  moreover have "header_value_ok ct" if "hdr_str ''content-type'' headers = Some ct" for ct
    using that by (auto simp: hdr_str_def Option.bind_eq_Some_conv dest: to_str_header_ok)
  ultimately show ?thesis using assms(2) unfolding expect_built_def by (auto split: option.splits)
qed

end
