(* ===== verification/Registry_Inv.thy ===== *)
theory Registry_Inv
  imports Registry
begin

text \<open>
  The invariant of the running registry.  Requests and spawned producer tasks are the steps of \<open>reg_step\<close>,
  in any order.  Every reachable state keeps the content-addressed store consistent, every open upload in
  step with its data file, and at most one producer per digest.  The effect of the handlers that neither
  upload nor pull is summarised once, by the preorder \<open>reg_evolves\<close>.
\<close>

section \<open>Changes of the file system that the uploads do not notice\<close>

definition is_data_file :: "path \<Rightarrow> bool" where
  "is_data_file q \<longleftrightarrow> (\<exists>p s. q = p @ [''_uploads'', data_name s])"

definition safe_change :: "(bytes \<Rightarrow> string) \<Rightarrow> fs \<Rightarrow> fs \<Rightarrow> bool" where
  "safe_change sha f f' \<longleftrightarrow> (cas_ok sha f \<longrightarrow> cas_ok sha f') \<and> faults f' = faults f \<and> (fs_ok f \<longrightarrow> fs_ok f') \<and>
     (\<forall>q. is_data_file q \<longrightarrow> file_at f' q = file_at f q)"

lemma safe_refl [simp]: "safe_change sha f f"
  by (simp add: safe_change_def)

lemma safe_trans: "safe_change sha f g \<Longrightarrow> safe_change sha g h \<Longrightarrow> safe_change sha f h"
  by (simp add: safe_change_def)

lemma safe_call:
  assumes "fs_call c T" and "\<forall>q \<in> T. \<not> is_slot q \<and> \<not> is_data_file q"
  shows "safe_change sha f (snd (c f))"
proof -
  have "cas_ok sha f \<Longrightarrow> cas_ok sha (snd (c f))"
    using assms by (intro fs_call.keeps_cas [OF assms(1)]) auto
  then show ?thesis
    using assms fs_call.frame [OF assms(1)] fs_call.keeps_faults [OF assms(1)] fs_call.keeps_ok [OF assms(1)]
    by (auto simp: safe_change_def)
qed

lemma data_file_last: "is_data_file (p @ [c]) \<Longrightarrow> \<exists>s. c = s @ ''.data''"
  by (auto simp: is_data_file_def data_name_def append_eq_append_conv2 Cons_eq_append_conv)

lemma not_data_suffix: "last c \<noteq> CHR ''a'' \<Longrightarrow> \<not> is_data_file (p @ [c])"
  by (auto dest!: data_file_last)

lemma sidecar_not_data [simp]:
  "\<not> is_data_file (p @ [''_local_tags.json''])" "\<not> is_data_file (p @ [''_local_tags.json.tmp''])"
  "\<not> is_data_file (p @ [''_upstream_tags.json''])" "\<not> is_data_file (p @ [''_upstream_tags.json.tmp''])"
  by (simp_all add: not_data_suffix)

lemma slot_not_data [simp]: "hex64 h \<Longrightarrow> \<not> is_data_file (slot p h)"
  using upload_not_slot by (auto simp: is_data_file_def is_slot_def) metis

lemma blob_not_data: "wf_digest d \<Longrightarrow> \<not> is_data_file (resolve (blob_path L repo d))"
  by (simp add: path_simps wf_digest_def)

lemma meta_not_data [simp]: "is_meta_file q \<Longrightarrow> \<not> is_data_file q"
  by (auto simp: is_meta_file_def not_data_suffix)

lemma no_dot_not_data: "CHR ''.'' \<notin> set c \<Longrightarrow> \<not> is_data_file (p @ [''_uploads'', c])"
  using data_file_last [of "p @ [''_uploads'']" c] by auto

lemma tempfile_not_data [simp]: "\<not> is_data_file (p @ [''_uploads'', tempfile_name ck])"
  by (rule no_dot_not_data) (auto simp: tempfile_name_def dest!: hex16_chars)

lemma pt_name_plain [simp]: "hex64 h \<Longrightarrow> plain_name (''pt-'' @ h)"
  using lower_hexdigit_plain by (auto simp: plain_name_def hex64_def list_all_iff)

lemma pt_not_data [simp]: "hex64 h \<Longrightarrow> \<not> is_data_file (p @ [''_uploads'', CHR ''p'' # CHR ''t'' # CHR ''-'' # h])"
  using lower_hexdigit_plain by (intro no_dot_not_data) (auto simp: hex64_def list_all_iff)

lemma resolve_pt_tempfile:
  "wf_digest d \<Longrightarrow> resolve (pt_tempfile L repo d) = rdir L repo @ [''_uploads'', CHR ''p'' # CHR ''t'' # CHR ''-'' # hex d]"
  using pt_name_plain [of "hex d"] by (simp add: pt_tempfile_def resolve_upload_file wf_digest_def)

section \<open>The storage operations are such changes\<close>

lemma safe_commit:
  assumes "\<And>q. q \<notin> T \<Longrightarrow> q \<noteq> b \<Longrightarrow> file_at f' q = file_at f q" and "\<forall>q \<in> T. \<not> is_data_file q"
    and "b = slot p h" "hex64 h" and "cas_ok sha f \<Longrightarrow> cas_ok sha f'" and "faults f' = faults f" and "fs_ok f \<Longrightarrow> fs_ok f'"
  shows "safe_change sha f f'"
  using assms by (auto simp: safe_change_def) (metis slot_not_data)

lemma safe_put_blob:
  assumes wf: "wf_digest d" and put: "put_blob_buffered sha ck repo d bs S f = (r, S', f')"
  shows "safe_change sha f f'"
proof (rule safe_commit [of "{resolve (tempfile_path ck (layout S) repo)}" "resolve (blob_path (layout S) repo d)"])
  show "file_at f' q = file_at f q" if "q \<notin> {resolve (tempfile_path ck (layout S) repo)}" "q \<noteq> resolve (blob_path (layout S) repo d)" for q
    using buffered.commit_frame [OF that, of sha bs f] put by (simp add: paired_def)
  show "cas_ok sha f'" if "cas_ok sha f" using put_blob_keeps_cas [OF put wf that] .
  have "f' = f \<or> f' = snd (write_via_tempfile (wall ck) (tempfile_path ck (layout S) repo) (blob_path (layout S) repo d) bs f)"
    using put by (cases rule: put_blob_cases [of sha bs d ck repo S f]) auto
  then show "faults f' = faults f" "fs_ok f \<Longrightarrow> fs_ok f'"
    using fs_call.keeps_faults [OF write_via_tempfile_call, of "wall ck" "tempfile_path ck (layout S) repo"]
      fs_call.keeps_ok [OF write_via_tempfile_call, of f "wall ck" "tempfile_path ck (layout S) repo"] by auto
  show "resolve (blob_path (layout S) repo d) = slot (rdir (layout S) repo) (hex d)" "hex64 (hex d)"
    using wf by (simp_all add: path_simps wf_digest_def)
qed (simp add: path_simps)

lemma safe_delete_blob:
  assumes wf: "wf_digest d" and del: "delete_blob repo d S f = (r, S', f')"
  shows "safe_change sha f f'"
proof -
  let ?p = "blob_path (layout S) repo d"
  have f': "f' = snd (fs_remove_file ?p f)"
    using del by (auto simp: delete_blob_def Let_def split: prod.splits sum.splits io_error.splits)
  show ?thesis unfolding f'
    by (rule safe_commit [of "{}" "resolve ?p" _ _ "rdir (layout S) repo" "hex d"])
      (use wf in \<open>simp_all add: path_simps wf_digest_def remove_keeps_cas sys_remove.frame sys_remove.keeps_faults sys_remove.keeps_ok\<close>)
qed

lemma safe_ensure_repo: "ensure_repo repo S f = (r, f') \<Longrightarrow> safe_change sha f f'"
proof -
  assume e: "ensure_repo repo S f = (r, f')"
  let ?b = "path_join (path_join (repo_dir (layout S) repo) ''blobs'') ''sha256''"
  let ?u = "path_join (repo_dir (layout S) repo) ''_uploads''"
  have m: "safe_change sha g (snd (fs_create_dir_all p g))" for p g
    by (rule safe_call [OF sys_mkdir.fs_call_axioms]) simp
  have "f' = snd (fs_create_dir_all ?b f) \<or> f' = snd (fs_create_dir_all ?u (snd (fs_create_dir_all ?b f)))"
    using e by (auto simp: ensure_repo_def ensure_repo_dirs_def split: prod.splits sum.splits)
  then show ?thesis using m [of f ?b] m [of "snd (fs_create_dir_all ?b f)" ?u] by (auto intro: safe_trans)
qed

lemma safe_write_atomic: "safe_change sha f (snd (write_atomic C now (local_tags_path L repo) v f))"
  by (rule safe_call [OF write_atomic_call]) (simp add: path_simps)

lemma safe_tags_set: "tags_set C ck repo tag d T f = (r, T', f') \<Longrightarrow> safe_change sha f f' \<and> lt_layout T' = lt_layout T"
  using safe_write_atomic [of sha f C "wall ck" "lt_layout T" repo]
  by (auto simp: tags_set_def Let_def split: prod.splits) (metis snd_conv)

lemma safe_tags_remove: "tags_remove C ck repo tag T f = (r, T', f') \<Longrightarrow> safe_change sha f f' \<and> lt_layout T' = lt_layout T"
  using safe_write_atomic [of sha f C "wall ck" "lt_layout T" repo]
  by (auto simp: tags_remove_def Let_def split: prod.splits sum.splits if_splits) (metis snd_conv)+

lemma safe_remove_tags: "remove_tags C ck repo ts T f = (T', f') \<Longrightarrow> safe_change sha f f' \<and> lt_layout T' = lt_layout T"
proof (induction C ck repo ts T f rule: remove_tags.induct)
  case (2 C ck repo t ts T f)
  obtain r T1 f1 where r: "tags_remove C ck repo t T f = (r, T1, f1)" by (metis prod_cases3)
  with 2 have "safe_change sha f1 f' \<and> lt_layout T' = lt_layout T1" by auto
  with safe_tags_remove [OF r, of sha] show ?case by (auto intro: safe_trans)
qed simp

lemma safe_tcache_insert:
  assumes "tcache_insert C ck repo tag d T f = (T', f')"
  shows "safe_change sha f f'"
proof (cases "tc_layout T")
  case None
  with assms show ?thesis by (auto simp: tcache_insert_def tcache_persist_repo_def Let_def)
next
  case (Some L)
  then have f': "f' = snd (persist_file C (wall ck) L repo (tcache_snapshot T' repo) f)"
    using assms by (auto simp: tcache_insert_def tcache_persist_repo_def Let_def split: prod.splits)
  show ?thesis unfolding f' by (rule safe_call [OF persist_file_call]) (auto simp: upstream_files_def)
qed

lemma produce_loop_keeps:
  "produce_loop now items h t e f = (r, e', f') \<Longrightarrow> faults f' = faults f \<and> (fs_ok f \<longrightarrow> fs_ok f')"
proof (induction now items h t e f arbitrary: r e' f' rule: produce_loop.induct)
  case (3 now chunk items h t e f)
  obtain a f1 where a: "fs_append now (pe_tempfile_path e) chunk f = (a, f1)" by fastforce
  then have k: "faults f1 = faults f \<and> (fs_ok f \<longrightarrow> fs_ok f1)"
    using sys_append.keeps_faults [of now "pe_tempfile_path e" chunk f] sys_append.keeps_ok [of f now "pe_tempfile_path e" chunk] by simp
  show ?case
  proof (cases a)
    case (Inl er)
    with 3(2) a k show ?thesis by simp
  next
    case (Inr u)
    with 3(2) a have "produce_loop now items (h @ chunk) (sat_add t (len_u64 chunk)) (advance (sat_add t (len_u64 chunk)) e) f1 = (r, e', f')"
      by (simp add: Let_def)
    from 3(1) [OF a [symmetric] Inr refl this] k show ?thesis by simp
  qed
qed auto

lemma promote_keeps: "promote sha p h e f = (r, f') \<Longrightarrow> faults f' = faults f \<and> (fs_ok f \<longrightarrow> fs_ok f')"
proof -
  assume pr: "promote sha p h e f = (r, f')"
  obtain m f1 where m: "fs_create_dir_all (butlast p) f = (m, f1)" by fastforce
  obtain n f2 where n: "fs_rename (pe_tempfile_path e) p f1 = (n, f2)" by fastforce
  have "f' = f \<or> f' = f1 \<or> f' = f2"
    using pr m n by (cases m; cases n) (auto simp: promote_def Let_def split: if_splits)
  then show ?thesis
    using sys_mkdir.keeps_faults [of "butlast p" f] sys_mkdir.keeps_ok [of f "butlast p"]
      sys_rename.keeps_faults [of "pe_tempfile_path e" p f1] sys_rename.keeps_ok [of f1 "pe_tempfile_path e" p] m n
    by auto
qed

lemma run_producer_keeps:
  assumes run: "run_producer sha now p items e f = (r, e', f')"
  shows "faults f' = faults f \<and> (fs_ok f \<longrightarrow> fs_ok f')"
proof -
  let ?t = "pe_tempfile_path e"
  obtain m f1 where m: "fs_create_dir_all (butlast ?t) f = (m, f1)" by fastforce
  obtain c f2 where c: "fs_create now ?t f1 = (c, f2)" by fastforce
  obtain l e1 f3 where l: "produce_loop now items [] 0 e f2 = (l, e1, f3)" by (metis prod_cases3)
  have k: "faults f1 = faults f" "fs_ok f \<longrightarrow> fs_ok f1" "faults f2 = faults f1" "fs_ok f1 \<longrightarrow> fs_ok f2"
    using m c sys_mkdir.keeps_faults [of "butlast ?t" f] sys_mkdir.keeps_ok [of f "butlast ?t"]
      sys_create.keeps_faults [of now ?t f1] sys_create.keeps_ok [of f1 now ?t] by simp_all
  note kl = produce_loop_keeps [OF l]
  have kr: "faults (snd (fs_remove_file q g)) = faults g" "fs_ok g \<Longrightarrow> fs_ok (snd (fs_remove_file q g))" for q g
    by (simp_all add: sys_remove.keeps_faults sys_remove.keeps_ok)
  show ?thesis
  proof (cases m; cases c; cases l)
    fix u v ht assume s: "m = Inr u" "c = Inr v" "l = Inr ht"
    obtain h t where ht: "ht = (h, t)" by fastforce
    obtain pr f4 where pr: "promote sha p h e1 f3 = (pr, f4)" by fastforce
    from run m c l s ht pr k kl kr promote_keeps [OF pr] show ?thesis
      by (cases pr) (auto simp: run_producer_def producer_fail_eq)
  qed (use run m c l k kl kr in \<open>auto simp: run_producer_def producer_fail_eq\<close>)
qed

lemma safe_run_producer:
  assumes run: "run_producer sha now (blob_path L repo d) items e f = (r, e', f')" and wf: "wf_digest d"
    and e: "pe_digest e = d" "pe_tempfile_path e = pt_tempfile L repo d"
  shows "safe_change sha f f'"
proof -
  have t: "resolve (pe_tempfile_path e) = rdir L repo @ [''_uploads'', CHR ''p'' # CHR ''t'' # CHR ''-'' # hex d]"
    by (simp add: e resolve_pt_tempfile wf)
  show ?thesis
  proof (rule safe_commit [of "{resolve (pe_tempfile_path e)}" "resolve (blob_path L repo d)"])
    show "file_at f' q = file_at f q" if "q \<notin> {resolve (pe_tempfile_path e)}" "q \<noteq> resolve (blob_path L repo d)" for q
      using pull.commit_frame [of q e L repo sha now items f] that run by (simp add: paired_def e)
    show "cas_ok sha f'" if "cas_ok sha f"
      using pull.commit_keeps_cas [OF that, of e now L repo items] run wf t by (simp add: paired_def e)
    show "resolve (blob_path L repo d) = slot (rdir L repo) (hex d)" "hex64 (hex d)"
      using wf by (simp_all add: path_simps wf_digest_def)
    show "\<forall>q \<in> {resolve (pe_tempfile_path e)}. \<not> is_data_file q" using wf t by (simp add: wf_digest_def)
  qed (use run_producer_keeps [OF run] in simp_all)
qed

section \<open>What most handlers do to the state\<close>

text \<open>Every cached metadata entry names the blob's own path.\<close>

definition meta_paths :: "local_storage \<Rightarrow> bool" where
  "meta_paths S \<longleftrightarrow> (\<forall>repo d m. dm_get (bmc_entries (meta_cache S)) (repo, d) = Some m \<longrightarrow> bm_path m = blob_path (layout S) repo d)"

lemma meta_paths_insert:
  "meta_paths S \<Longrightarrow> bm_path m = blob_path (layout S) repo d \<Longrightarrow>
   meta_paths (S\<lparr>meta_cache := cache_insert repo d m (meta_cache S)\<rparr>)"
  by (auto simp: meta_paths_def cache_insert_def)

lemma meta_paths_blob_meta:
  "blob_meta_of ck repo d f S = (r, S') \<Longrightarrow> meta_paths S \<Longrightarrow> meta_paths S' \<and> layout S' = layout S"
  by (cases rule: blob_meta_cases [of ck S repo d f]) (auto intro: meta_paths_insert)

lemma meta_paths_put:
  "put_blob_buffered sha ck repo d bs S f = (r, S', f') \<Longrightarrow> meta_paths S \<Longrightarrow> meta_paths S' \<and> layout S' = layout S"
  by (cases rule: put_blob_cases [of sha bs d ck repo S f]) (auto intro: meta_paths_insert)

lemma meta_paths_delete:
  "delete_blob repo d S f = (r, S', f') \<Longrightarrow> meta_paths S \<Longrightarrow> meta_paths S' \<and> layout S' = layout S"
  by (auto simp: delete_blob_def Let_def meta_paths_def cache_invalidate_def split: prod.splits sum.splits io_error.splits if_splits)

definition reg_evolves :: "'w reg_env \<Rightarrow> 'w registry \<Rightarrow> 'w registry \<Rightarrow> bool" where
  "reg_evolves V R R' \<longleftrightarrow> safe_change (ev_sha V) (rg_fs R) (rg_fs R') \<and> rg_uploads R' = rg_uploads R \<and>
     rg_table R' = rg_table R \<and> rg_entries R' = rg_entries R \<and> rg_tasks R' = rg_tasks R \<and>
     (meta_paths (rg_storage R) \<longrightarrow> meta_paths (rg_storage R')) \<and> layout (rg_storage R') = layout (rg_storage R) \<and>
     lt_layout (rg_tags R') = lt_layout (rg_tags R) \<and> (tcache_ok (rg_cache R) \<longrightarrow> tcache_ok (rg_cache R'))"

lemma evolves_refl [simp]: "reg_evolves V R R"
  by (simp add: reg_evolves_def)

lemma evolves_trans: "reg_evolves V R R1 \<Longrightarrow> reg_evolves V R1 R2 \<Longrightarrow> reg_evolves V R R2"
  by (auto simp: reg_evolves_def intro: safe_trans)

lemma evolves_net [simp]: "reg_evolves V R (R1\<lparr>rg_net := w\<rparr>) \<longleftrightarrow> reg_evolves V R R1"
  by (simp add: reg_evolves_def)

text \<open>The environment: a hash of the right shape, and clients that keep their contract.\<close>

definition env_ok :: "'w reg_env \<Rightarrow> bool" where
  "env_ok V \<longleftrightarrow> sha_ok (ev_sha V) \<and> (\<forall>u \<in> set (ev_upstreams V). upstream_contract (ue_client u) (ev_sha V))"

lemma route_in: "route es repo = Some u \<Longrightarrow> u \<in> set es"
  by (auto simp: route_def find_first)

lemma evolves_blob_meta: "reg_blob_meta ck repo d R = (r, R') \<Longrightarrow> reg_evolves V R R' \<and> rg_fs R' = rg_fs R"
proof -
  assume a: "reg_blob_meta ck repo d R = (r, R')"
  obtain x S where m: "blob_meta_of ck repo d (rg_fs R) (rg_storage R) = (x, S)" by fastforce
  with a have "R' = R\<lparr>rg_storage := S\<rparr>" by (simp add: reg_blob_meta_def)
  with meta_paths_blob_meta [OF m] blob_meta_of_layout [OF m] show ?thesis by (simp add: reg_evolves_def)
qed

lemma evolves_local_manifest:
  "serve_local_manifest V ck repo d reference b R = (r, R') \<Longrightarrow> reg_evolves V' R R' \<and> rg_fs R' = rg_fs R"
proof -
  assume a: "serve_local_manifest V ck repo d reference b R = (r, R')"
  obtain x R1 where m: "reg_blob_meta ck repo d R = (x, R1)" by fastforce
  with a have "R' = R1" by (auto simp: serve_local_manifest_def split: sum.splits option.splits)
  with evolves_blob_meta [OF m, of V'] show ?thesis by simp
qed

lemma evolves_if_local: "serve_if_local V ck repo d reference b R = (r, R') \<Longrightarrow> reg_evolves V' R R' \<and> rg_fs R' = rg_fs R"
proof -
  assume a: "serve_if_local V ck repo d reference b R = (r, R')"
  obtain x R1 where m: "reg_blob_meta ck repo d R = (x, R1)" by fastforce
  obtain y R2 where s: "serve_local_manifest V ck repo d reference b R1 = (y, R2)" by fastforce
  from a m s have "R' = R1 \<or> R' = R2" by (auto simp: serve_if_local_def split: sum.splits option.splits)
  with evolves_blob_meta [OF m, of V'] evolves_local_manifest [OF s, of V'] show ?thesis by (auto intro: evolves_trans)
qed

lemma evolves_put_blob:
  assumes "wf_digest d" and "put_blob_buffered (ev_sha V) ck repo d bs (rg_storage R) (rg_fs R) = (r, S, f)"
  shows "reg_evolves V R (R\<lparr>rg_storage := S, rg_fs := f\<rparr>)"
  using safe_put_blob [OF assms] meta_paths_put [OF assms(2)] assms(2)
  by (cases rule: put_blob_cases [of "ev_sha V" bs d ck repo "rg_storage R" "rg_fs R"]) (auto simp: reg_evolves_def)

lemma evolves_tcache_insert:
  assumes "wf_digest d" and "tcache_insert C ck repo tag d (rg_cache R) (rg_fs R) = (T, f)"
  shows "reg_evolves V R (R\<lparr>rg_cache := T, rg_fs := f\<rparr>)"
  using safe_tcache_insert [OF assms(2)] tcache_insert_ok [OF _ assms(1), of "rg_cache R" C ck repo tag "rg_fs R"] assms(2)
  by (simp add: reg_evolves_def)

lemma evolves_fetch:
  assumes V: "env_ok V" "u \<in> set (ev_upstreams V)"
    and a: "fetch_and_serve_upstream_manifest V ck u repo reference b R = (r, R')"
  shows "reg_evolves V R R'"
proof -
  obtain x w where g: "cl_get_manifest (ue_client u) (inst ck) repo reference (rg_net R) = (x, w)" by fastforce
  show ?thesis
  proof (cases x)
    case (Inl e)
    with a g show ?thesis by (auto simp: fetch_and_serve_upstream_manifest_def)
  next
    case (Inr m)
    from V have c: "upstream_contract (ue_client u) (ev_sha V)" "sha_ok (ev_sha V)" by (auto simp: env_ok_def)
    have wf: "wf_digest (mr_digest m)"
      using upstream_contract.manifest_wf [OF c(1,2) g [unfolded Inr]] .
    obtain y S f where put: "put_blob_buffered (ev_sha V) ck repo (mr_digest m) (mr_bytes m) (rg_storage R) (rg_fs R) = (y, S, f)"
      by (metis prod_cases3)
    let ?R1 = "R\<lparr>rg_net := w, rg_storage := S, rg_fs := f\<rparr>"
    have e1: "reg_evolves V R ?R1" using evolves_put_blob [OF wf put] by (simp add: reg_evolves_def)
    obtain T f2 where t: "tcache_insert (ev_map_codec V) ck repo reference (mr_digest m) (rg_cache ?R1) (rg_fs ?R1) = (T, f2)" by fastforce
    from a g Inr put t have "R' = ?R1 \<or> R' = ?R1\<lparr>rg_cache := T, rg_fs := f2\<rparr>"
      by (auto simp: fetch_and_serve_upstream_manifest_def Let_def split: if_splits)
    with e1 evolves_tcache_insert [OF wf t, of V] show ?thesis by (auto intro: evolves_trans)
  qed
qed

lemma evolves_touch: "reg_evolves V R (R\<lparr>rg_net := w, rg_cache := tcache_touch n repo tag (rg_cache R)\<rparr>)"
  by (simp add: reg_evolves_def tcache_touch_ok)

lemma evolves_cached_tag: "serve_cached_tag V ck repo reference b R = (r, R') \<Longrightarrow> reg_evolves V' R R'"
proof -
  assume a: "serve_cached_tag V ck repo reference b R = (r, R')"
  consider (local) R1 d where "serve_if_local V ck repo d reference b R1 = (r, R')" "reg_evolves V' R R1"
    | (net) w where "R' = R\<lparr>rg_net := w\<rparr>" | (same) "R' = R"
    using a evolves_touch [of V' R]
    by (auto simp: serve_cached_tag_def split: tag_cache_state.splits option.splits prod.splits sum.splits if_splits)
  then show ?thesis by cases (auto dest: evolves_if_local [of _ _ _ _ _ _ _ _ _ V'] intro: evolves_trans)
qed

lemma evolves_get_manifest:
  assumes V: "env_ok V" and a: "get_manifest V ck repo reference b R = (r, R')"
  shows "reg_evolves V R R'"
proof -
  have meta: "reg_evolves V R R1" if "reg_blob_meta ck repo d R = (x, R1)" for d x R1
    using evolves_blob_meta [OF that] by blast
  consider (local) R1 d where "serve_local_manifest V ck repo d reference b R1 = (r, R')" "reg_evolves V R R1"
    | (up) u R1 where "u \<in> set (ev_upstreams V)" "fetch_and_serve_upstream_manifest V ck u repo reference b R1 = (r, R')" "reg_evolves V R R1"
    | (stop) "reg_evolves V R R'"
    using a meta evolves_cached_tag [of V ck repo reference b R _ _ V]
    unfolding get_manifest_def
    by (auto split: option.splits prod.splits sum.splits if_splits dest: route_in)
  then show ?thesis
  proof cases
    case local
    with evolves_local_manifest [OF local(1), of V] show ?thesis by (blast intro: evolves_trans)
  next
    case up
    with evolves_fetch [OF V up(1,2)] show ?thesis by (blast intro: evolves_trans)
  qed
qed

lemma evolves_first_missing: "first_missing ck repo ss R = (r, R') \<Longrightarrow> reg_evolves V R R' \<and> rg_fs R' = rg_fs R"
proof (induction ck repo ss R rule: first_missing.induct)
  case (2 ck repo s ss R)
  show ?case
  proof (cases "digest_parse s")
    case (Inl e)
    with 2(2) show ?thesis by simp
  next
    case (Inr d)
    obtain x R1 where m: "reg_blob_meta ck repo d R = (x, R1)" by fastforce
    note e = evolves_blob_meta [OF m, of V]
    show ?thesis
    proof (cases "\<exists>y. x = Inr (Some y)")
      case True
      then obtain y where y: "x = Inr (Some y)" by blast
      with 2(2) Inr m have "first_missing ck repo ss R1 = (r, R')" by simp
      from 2(1) [OF Inr m [symmetric] y refl this] e show ?thesis by (auto intro: evolves_trans)
    next
      case False
      with 2(2) Inr m have "R' = R1" by (auto split: sum.splits option.splits)
      with e show ?thesis by simp
    qed
  qed
qed simp

lemma evolves_check: "check_manifest_blobs_present V ck repo b R = (r, R') \<Longrightarrow> reg_evolves V' R R' \<and> rg_fs R' = rg_fs R"
  using evolves_first_missing [of ck repo _ R r R' V']
  by (auto simp: check_manifest_blobs_present_def split: option.splits)

lemma evolves_fs: "safe_change (ev_sha V) (rg_fs R) f \<Longrightarrow> reg_evolves V R (R\<lparr>rg_fs := f\<rparr>)"
  by (simp add: reg_evolves_def)

lemma evolves_tags:
  "safe_change (ev_sha V) (rg_fs R) f \<and> lt_layout T = lt_layout (rg_tags R) \<Longrightarrow> reg_evolves V R (R\<lparr>rg_tags := T, rg_fs := f\<rparr>)"
  by (simp add: reg_evolves_def)

lemma evolves_store_manifest:
  assumes wf: "wf_digest d" and a: "store_manifest V ck repo reference headers d b R = (r, R')"
  shows "reg_evolves V R R'"
proof -
  obtain x S f where put: "put_blob_buffered (ev_sha V) ck repo d b (rg_storage R) (rg_fs R) = (x, S, f)" by (metis prod_cases3)
  let ?R1 = "R\<lparr>rg_storage := S, rg_fs := f\<rparr>"
  obtain y T f2 where t: "tags_set (ev_tags_codec V) ck repo reference d (rg_tags ?R1) (rg_fs ?R1) = (y, T, f2)" by (metis prod_cases3)
  have "R' = ?R1 \<or> R' = ?R1\<lparr>rg_tags := T, rg_fs := f2\<rparr>"
    using a put t by (cases x; cases y) (auto simp: store_manifest_def Let_def split: if_splits)
  moreover have "reg_evolves V ?R1 (?R1\<lparr>rg_tags := T, rg_fs := f2\<rparr>)"
    by (rule evolves_tags) (use safe_tags_set [OF t, of "ev_sha V"] in simp)
  ultimately show ?thesis using evolves_put_blob [OF wf put] by (auto intro: evolves_trans)
qed

lemma evolves_put_manifest:
  assumes a: "put_manifest V ck repo reference headers body R = (r, R')"
  shows "reg_evolves V R R'"
proof -
  obtain x f where e: "ensure_repo repo (rg_storage R) (rg_fs R) = (x, f)" by fastforce
  let ?R0 = "R\<lparr>rg_fs := f\<rparr>"
  have e0: "reg_evolves V R ?R0" using safe_ensure_repo [OF e] by (rule evolves_fs)
  consider (stop) "R' = ?R0"
    | (missing) b m where "check_manifest_blobs_present V ck repo b ?R0 = (m, R')"
    | (go) b d R1 where "check_manifest_blobs_present V ck repo b ?R0 = (None, R1)" "wf_digest d"
        "store_manifest V ck repo reference headers d b R1 = (r, R')"
    using a e unfolding put_manifest_def
    by (cases x) (auto simp: Let_def split: sum.splits option.splits if_splits prod.splits, (blast dest: digest_parse_wf)+)
  then show ?thesis
  proof cases
    case stop
    with e0 show ?thesis by simp
  next
    case missing
    with evolves_check [OF missing, of V] e0 show ?thesis by (auto intro: evolves_trans)
  next
    case go
    with evolves_check [OF go(1), of V] evolves_store_manifest [OF go(2,3)] e0 show ?thesis by (blast intro: evolves_trans)
  qed
qed

lemma evolves_delete_blob:
  assumes "wf_digest d" and "delete_blob repo d (rg_storage R) (rg_fs R) = (r, S, f)"
  shows "reg_evolves V R (R\<lparr>rg_storage := S, rg_fs := f\<rparr>)"
proof -
  have "layout S = layout (rg_storage R)"
    using assms(2) by (auto simp: delete_blob_def Let_def split: prod.splits sum.splits io_error.splits)
  with safe_delete_blob [OF assms] meta_paths_delete [OF assms(2)] show ?thesis by (simp add: reg_evolves_def)
qed

lemma evolves_reg_delete_blob: "reg_delete_blob V repo d R = (r, R') \<Longrightarrow> reg_evolves V R R'"
proof (cases "digest_parse d")
  case (Inr p)
  obtain x S f where del: "delete_blob repo p (rg_storage R) (rg_fs R) = (x, S, f)" by (metis prod_cases3)
  assume "reg_delete_blob V repo d R = (r, R')"
  with Inr del have "R' = R\<lparr>rg_storage := S, rg_fs := f\<rparr>" by (auto simp: reg_delete_blob_def)
  with evolves_delete_blob [OF _ del, of V] Inr show ?thesis by auto
qed (simp add: reg_delete_blob_def)

lemma evolves_delete_manifest:
  assumes a: "delete_manifest V ck repo reference R = (r, R')"
  shows "reg_evolves V R R'"
proof (cases "digest_parse_ok reference")
  case None
  obtain x T f where t: "tags_remove (ev_tags_codec V) ck repo reference (rg_tags R) (rg_fs R) = (x, T, f)" by (metis prod_cases3)
  with a None have "R' = R\<lparr>rg_tags := T, rg_fs := f\<rparr>" by (auto simp: delete_manifest_def Let_def)
  with evolves_tags [OF safe_tags_remove [OF t]] show ?thesis by simp
next
  case (Some d)
  let ?ts = "map fst (filter (\<lambda>(t, m). tag_digest m = digest_to_string d) (tags_list_for_repo (rg_tags R) repo))"
  obtain T f where t: "remove_tags (ev_tags_codec V) ck repo ?ts (rg_tags R) (rg_fs R) = (T, f)" by fastforce
  let ?R1 = "R\<lparr>rg_tags := T, rg_fs := f\<rparr>"
  obtain x S f2 where del: "delete_blob repo d (rg_storage ?R1) (rg_fs ?R1) = (x, S, f2)" by (metis prod_cases3)
  from a Some t del have "R' = ?R1\<lparr>rg_storage := S, rg_fs := f2\<rparr>" by (auto simp: delete_manifest_def Let_def)
  moreover have "wf_digest d" using Some by auto
  ultimately show ?thesis
    using evolves_tags [OF safe_remove_tags [OF t]] evolves_delete_blob [OF _ del, of V] by (auto intro: evolves_trans)
qed

lemma evolves_list_tags: "list_tags V ck repo R = (r, R') \<Longrightarrow> reg_evolves V' R R'"
  by (auto simp: list_tags_def Let_def split: if_splits option.splits prod.splits sum.splits)

section \<open>The invariant\<close>

text \<open>Open uploads: each has its own data file, which holds what its hash has seen.\<close>

definition uploads_inv :: "upload_store \<Rightarrow> fs \<Rightarrow> bool" where
  "uploads_inv T f \<longleftrightarrow>
     (\<forall>repo s st. dm_get (up_sessions T) (repo, s) = Some st \<longrightarrow>
        resolve (us_data_path st) = rdir (up_layout T) repo @ [''_uploads'', data_name s] \<and>
        (file_at f (resolve (us_data_path st)) = None \<or> file_at f (resolve (us_data_path st)) = Some (us_hasher st))) \<and>
     (\<forall>r r' s. dm_get (up_sessions T) (r, s) \<noteq> None \<longrightarrow> dm_get (up_sessions T) (r', s) \<noteq> None \<longrightarrow> r = r')"

text \<open>Single flight: the table lists exactly the pending tasks, one per digest and one per entry.\<close>

definition flight_inv :: "'w registry \<Rightarrow> bool" where
  "flight_inv R \<longleftrightarrow> distinct (map pk_digest (rg_tasks R)) \<and> distinct (map pk_entry (rg_tasks R)) \<and>
     (\<forall>d i. dm_get (rg_table R) d = Some i \<longleftrightarrow> (\<exists>k \<in> set (rg_tasks R). pk_digest k = d \<and> pk_entry k = i)) \<and>
     (\<forall>k \<in> set (rg_tasks R). pk_entry k < length (rg_entries R) \<and> wf_digest (pk_digest k) \<and>
        pk_final k = blob_path (layout (rg_storage R)) (pk_repo k) (pk_digest k) \<and>
        (let e = rg_entries R ! pk_entry k in pe_digest e = pk_digest k \<and> pe_outcome e = None \<and>
           pe_tempfile_path e = pt_tempfile (layout (rg_storage R)) (pk_repo k) (pk_digest k)))"

definition reg_inv :: "'w reg_env \<Rightarrow> 'w registry \<Rightarrow> bool" where
  "reg_inv V R \<longleftrightarrow> cas_ok (ev_sha V) (rg_fs R) \<and> no_faults (rg_fs R) \<and> fs_ok (rg_fs R) \<and>
     uploads_inv (rg_uploads R) (rg_fs R) \<and> flight_inv R \<and> meta_paths (rg_storage R) \<and> tcache_ok (rg_cache R)"

lemma uploads_invI:
  assumes "\<And>repo s st. dm_get (up_sessions T) (repo, s) = Some st \<Longrightarrow>
        resolve (us_data_path st) = rdir (up_layout T) repo @ [''_uploads'', data_name s] \<and>
        (file_at f (resolve (us_data_path st)) = None \<or> file_at f (resolve (us_data_path st)) = Some (us_hasher st))"
    and "\<And>r r' s st st'. dm_get (up_sessions T) (r, s) = Some st \<Longrightarrow> dm_get (up_sessions T) (r', s) = Some st' \<Longrightarrow> r = r'"
  shows "uploads_inv T f"
  unfolding uploads_inv_def using assms by (metis not_None_eq)

lemma uploads_inv_unique:
  "uploads_inv T f \<Longrightarrow> dm_get (up_sessions T) (r, s) = Some st \<Longrightarrow> dm_get (up_sessions T) (r', s) = Some st' \<Longrightarrow> r = r'"
  unfolding uploads_inv_def by (metis option.distinct(1))

lemma uploads_invD:
  assumes "uploads_inv T f" and "dm_get (up_sessions T) (repo, s) = Some st"
  shows "resolve (us_data_path st) = rdir (up_layout T) repo @ [''_uploads'', data_name s]"
    and "file_at f (resolve (us_data_path st)) = None \<or> file_at f (resolve (us_data_path st)) = Some (us_hasher st)"
    and "is_data_file (resolve (us_data_path st))" and "\<not> is_meta_file (resolve (us_data_path st))"
proof -
  show p: "resolve (us_data_path st) = rdir (up_layout T) repo @ [''_uploads'', data_name s]"
    and "file_at f (resolve (us_data_path st)) = None \<or> file_at f (resolve (us_data_path st)) = Some (us_hasher st)"
    using assms unfolding uploads_inv_def by blast+
  show "is_data_file (resolve (us_data_path st))" "\<not> is_meta_file (resolve (us_data_path st))"
    unfolding p using data_not_meta [of "rdir (up_layout T) repo @ [''_uploads'']" s] by (auto simp: is_data_file_def)
qed

lemma uploads_inv_cong:
  assumes "uploads_inv T f" and "\<And>q. is_data_file q \<Longrightarrow> file_at f' q = file_at f q"
  shows "uploads_inv T f'"
proof -
  have "file_at f' (resolve (us_data_path st)) = file_at f (resolve (us_data_path st))"
    if "dm_get (up_sessions T) (repo, s) = Some st" for repo s st
    using assms(2) uploads_invD(3) [OF assms(1) that] by blast
  with assms(1) show ?thesis unfolding uploads_inv_def by metis
qed

lemma uploads_inv_safe: "uploads_inv T f \<Longrightarrow> safe_change sha f f' \<Longrightarrow> uploads_inv T f'"
  by (erule uploads_inv_cong) (simp add: safe_change_def)

lemma reg_inv_evolves: "reg_inv V R \<Longrightarrow> reg_evolves V R R' \<Longrightarrow> reg_inv V R'"
proof -
  assume i: "reg_inv V R" and e: "reg_evolves V R R'"
  have s: "safe_change (ev_sha V) (rg_fs R) (rg_fs R')" using e by (simp add: reg_evolves_def)
  have "no_faults (rg_fs R')" by (rule no_faults_cong [of _ "rg_fs R"]) (use s i in \<open>simp_all add: safe_change_def reg_inv_def\<close>)
  moreover have "cas_ok (ev_sha V) (rg_fs R')" "fs_ok (rg_fs R')" using s i by (simp_all add: safe_change_def reg_inv_def)
  moreover have "uploads_inv (rg_uploads R') (rg_fs R')"
    using uploads_inv_safe [OF _ s] i e by (simp add: reg_inv_def reg_evolves_def)
  moreover have "flight_inv R'" using i e by (simp add: reg_inv_def reg_evolves_def flight_inv_def)
  ultimately show ?thesis using i e by (simp add: reg_inv_def reg_evolves_def)
qed

section \<open>Uploads keep it\<close>

text \<open>What the upload operations have to keep, together.\<close>

definition upload_safe :: "(bytes \<Rightarrow> string) \<Rightarrow> upload_store \<Rightarrow> fs \<Rightarrow> bool" where
  "upload_safe sha T f \<longleftrightarrow> cas_ok sha f \<and> no_faults f \<and> fs_ok f \<and> uploads_inv T f"

lemma data_name_inj: "p @ [''_uploads'', data_name s] = q @ [''_uploads'', data_name s'] \<longleftrightarrow> p = q \<and> s = s'"
  by (auto simp: data_name_def)

lemma uploads_inv_synced: "uploads_inv T f \<Longrightarrow> session_synced T repo s f"
  unfolding session_synced_def using uploads_invD [of T f repo s] upload_not_slot by metis

text \<open>Another session's data file is not a file of this one.\<close>

lemma other_data_file:
  assumes i: "uploads_inv T f" and st: "dm_get (up_sessions T) (r', s') = Some st" and ne: "(r', s') \<noteq> (r, s)"
  shows "resolve (us_data_path st) \<notin> session_files T r s"
proof -
  have p: "resolve (us_data_path st) = rdir (up_layout T) r' @ [''_uploads'', data_name s']"
    using i st by (auto simp: uploads_inv_def)
  then have "\<not> is_meta_file (resolve (us_data_path st))"
    using data_not_meta [of "rdir (up_layout T) r' @ [''_uploads'']" s'] by simp
  moreover have "resolve (us_data_path st) \<noteq> resolve (us_data_path st2)" if "dm_get (up_sessions T) (r, s) = Some st2" for st2
  proof
    assume eq: "resolve (us_data_path st) = resolve (us_data_path st2)"
    have "resolve (us_data_path st2) = rdir (up_layout T) r @ [''_uploads'', data_name s]" using i that by (auto simp: uploads_inv_def)
    with p eq have "s' = s" by (simp add: data_name_inj)
    moreover have "r' = r"
      using i st that \<open>s' = s\<close> unfolding uploads_inv_def by (metis option.distinct(1))
    ultimately show False using ne by simp
  qed
  ultimately show ?thesis by (auto simp: session_files_def split: option.splits)
qed

lemma session_files_no_slot: "uploads_inv T f \<Longrightarrow> q \<in> session_files T r s \<Longrightarrow> \<not> is_slot q"
  by (auto simp: session_files_def uploads_inv_def split: option.splits)

lemma append_io_same: "no_faults f \<Longrightarrow> fs_append now p d f = (Inl e, f') \<Longrightarrow> f' = f"
  by (auto simp: fs_append_def Let_def no_faults_def split: option.splits fnode.splits)

lemma append_safe:
  assumes i: "upload_safe sha T f" and a: "upload_append C ck r s c T f = (x, T', f')"
  shows "upload_safe sha T' f'"
proof -
  have inv: "uploads_inv T f" and nf: "no_faults f" using i by (simp_all add: upload_safe_def)
  have call: "fs_call (paired (upload_append C ck r s c T)) (session_files T r s)" by (rule append_call)
  have pa: "snd (paired (upload_append C ck r s c T) f) = f'" by (simp add: paired_def a)
  have base: "cas_ok sha f'" "no_faults f'" "fs_ok f'"
    using fs_call.keeps_cas [OF call, of sha f] session_files_no_slot [OF inv]
      no_faults_cong [OF fs_call.keeps_faults [OF call, of f]] fs_call.keeps_ok [OF call, of f] pa i
    by (auto simp: upload_safe_def)
  have "uploads_inv T' f'"
  proof (cases rule: append_cases [of T r s C ck c f])
    case (io st e f1)
    with a append_io_same [OF nf io(3)] inv show ?thesis by simp
  next
    case (stored st f1 f2 y)
    have T': "T' = T\<lparr>up_sessions := dm_insert (r, s) (account (wall ck) c st) (up_sessions T)\<rparr>" and x: "\<exists>n. x = Inr n"
      using a stored(5) by auto
    from x a have "session_synced T' r s f'" using append_synced [OF uploads_inv_synced [OF inv]] by blast
    moreover have "file_at f' (resolve (us_data_path st2)) = file_at f (resolve (us_data_path st2))"
      if "dm_get (up_sessions T) (r', s') = Some st2" "(r', s') \<noteq> (r, s)" for r' s' st2
      using fs_call.frame [OF call other_data_file [OF inv that], of f] pa by simp
    ultimately show ?thesis
      using uploads_invD(1,2) [OF inv] uploads_inv_unique [OF inv] stored(1)
      by (intro uploads_invI) (auto simp: T' session_synced_def simp del: prod.inject split: if_splits)
  qed (use a inv in auto)
  with base show ?thesis by (simp add: upload_safe_def)
qed

lemma finalize_rename_keeps:
  assumes "finalize_rename sha r s d T f = (x, T', f')"
  shows "faults f' = faults f \<and> (fs_ok f \<longrightarrow> fs_ok f')"
proof -
  let ?b = "blob_path (up_layout T) r d"
  have m: "faults f1 = faults f \<and> (fs_ok f \<longrightarrow> fs_ok f1)" if "fs_create_dir_all (butlast ?b) f = (y, f1)" for y f1
    using sys_mkdir.keeps_faults [of "butlast ?b" f] sys_mkdir.keeps_ok [of f "butlast ?b"] that by simp
  have n: "faults f2 = faults f1 \<and> (fs_ok f1 \<longrightarrow> fs_ok f2)" if "fs_rename p ?b f1 = (y, f2)" for p y f1 f2
    using sys_rename.keeps_faults [of p ?b f1] sys_rename.keeps_ok [of f1 p ?b] that by simp
  have o: "faults (snd (fs_remove_file p g)) = faults g" "fs_ok g \<longrightarrow> fs_ok (snd (fs_remove_file p g))" for p g
    by (simp_all add: sys_remove.keeps_faults sys_remove.keeps_ok)
  show ?thesis
  proof (cases rule: finalize_cases [of T r s sha d f])
    case (mkdir st e f1)
    with assms m [OF mkdir(3)] show ?thesis by simp
  next
    case (rename st e f1 f2)
    with assms m [OF rename(3)] n [OF rename(4)] show ?thesis by simp
  next
    case (committed st f1 f2)
    then have "f' = snd (fs_remove_file (meta_path (up_layout T) r s) f2)" using assms by simp
    with m [OF committed(4)] n [OF committed(5)] o show ?thesis by simp
  qed (use assms in auto)
qed

lemma finalize_rename_safe:
  assumes i: "upload_safe sha T f" and wf: "wf_digest d" and fin: "finalize_rename sha r s d T f = (x, T', f')"
  shows "upload_safe sha T' f'"
proof -
  have inv: "uploads_inv T f" and nf: "no_faults f" using i by (simp_all add: upload_safe_def)
  note sy = uploads_inv_synced [OF inv, of r s]
  have eq: "upload_finalize C sha ck r s None d T f = (x, T', f')" for C ck using fin by (simp add: upload_finalize_def)
  have cas: "cas_ok sha f'"
    using session.commit_keeps_cas [of sha f d T r s undefined undefined None] wf sy i eq by (simp add: paired_def upload_safe_def)
  have base: "no_faults f'" "fs_ok f'"
    using finalize_rename_keeps [OF fin] nf i by (auto simp: upload_safe_def intro: no_faults_cong)
  have "uploads_inv T' f'"
  proof (cases x)
    case (Inl e)
    with finalize_rename_failed [of sha r s d T f e T' f'] fin uploads_inv_cong [OF inv, of f'] show ?thesis by simp
  next
    case (Inr y)
    have T': "T' = T\<lparr>up_sessions := dm_remove (r, s) (up_sessions T)\<rparr>"
      using fin Inr by (cases rule: finalize_cases [of T r s sha d f]) auto
    have "file_at f' (resolve (us_data_path st2)) = file_at f (resolve (us_data_path st2))"
      if "dm_get (up_sessions T) (r', s') = Some st2" "(r', s') \<noteq> (r, s)" for r' s' st2
    proof -
      have "resolve (us_data_path st2) \<noteq> resolve (blob_path (up_layout T) r d)"
        using uploads_invD(3) [OF inv that(1)] blob_not_data [OF wf] by metis
      then show ?thesis
        using finalize_rename_frame [OF other_data_file [OF inv that], of d sha f] fin by (simp add: paired_def)
    qed
    note keep = this
    have old: "dm_get (up_sessions T) (r', s') = Some st2 \<and> (r', s') \<noteq> (r, s)"
      if "dm_get (up_sessions T') (r', s') = Some st2" for r' s' st2
      using that unfolding T' by (simp split: if_splits)
    show ?thesis
    proof (rule uploads_invI)
      fix r' s' st2 assume "dm_get (up_sessions T') (r', s') = Some st2"
      with old have o: "dm_get (up_sessions T) (r', s') = Some st2" "(r', s') \<noteq> (r, s)" by blast+
      show "resolve (us_data_path st2) = rdir (up_layout T') r' @ [''_uploads'', data_name s'] \<and>
          (file_at f' (resolve (us_data_path st2)) = None \<or> file_at f' (resolve (us_data_path st2)) = Some (us_hasher st2))"
        unfolding keep [OF o] using uploads_invD(1,2) [OF inv o(1)] by (simp add: T')
    qed (use old uploads_inv_unique [OF inv] in blast)
  qed
  with cas base show ?thesis by (simp add: upload_safe_def)
qed

lemma finalize_safe:
  assumes i: "upload_safe sha T f" and wf: "wf_digest d" and fin: "upload_finalize C sha ck r s lc d T f = (x, T', f')"
  shows "upload_safe sha T' f'"
proof (cases rule: finalize_split [of C sha ck r s lc d T f])
  case direct
  with fin finalize_rename_safe [OF i wf] show ?thesis by simp
next
  case (failed c e T1 f1)
  with fin append_safe [OF i failed(2)] show ?thesis by simp
next
  case (appended c n T1 f1)
  show ?thesis by (rule finalize_rename_safe [OF append_safe [OF i appended(3)] wf]) (use fin appended(4) in simp)
qed

lemma create_cases:
  assumes "create_session C ck repo T f = (x, T', f')"
  obtains (failed) "T' = T"
  | (created) st where "T' = T\<lparr>up_sessions := dm_insert (repo, new_session_id ck) st (up_sessions T)\<rparr>" "us_hasher st = []"
      "resolve (us_data_path st) = rdir (up_layout T) repo @ [''_uploads'', data_name (new_session_id ck)]"
      "file_at f' (resolve (us_data_path st)) = Some []"
proof -
  let ?s = "new_session_id ck" and ?u = "uploads_dir (up_layout T) repo"
  let ?dp = "path_join ?u (data_name ?s)"
  let ?m = "\<lparr>um_session = ?s, um_repo = repo, um_bytes_received = 0, um_started_at = wall ck, um_last_seen = wall ck\<rparr>"
  obtain a f1 where a: "fs_create_dir_all ?u f = (a, f1)" by fastforce
  obtain b f2 where b: "fs_create (wall ck) ?dp f1 = (b, f2)" by fastforce
  obtain c f3 where c: "write_meta C (wall ck) (up_layout T) repo ?m f2 = (c, f3)" by fastforce
  show thesis
  proof (cases "\<exists>u v w. a = Inr u \<and> b = Inr v \<and> c = Inr w")
    case False
    with assms a b c have "T' = T" by (cases a; cases b; cases c) (auto simp: create_session_def Let_def)
    then show thesis by (rule failed)
  next
    case True
    let ?st = "\<lparr>us_meta = ?m, us_hasher = [], us_data_path = ?dp, us_finalized = False\<rparr>"
    have rdp: "resolve ?dp = rdir (up_layout T) repo @ [''_uploads'', data_name ?s]" by (simp add: path_simps)
    have "file_at f2 (resolve ?dp) = Some []" using True b by (auto dest!: create_Inr(1) simp: file_at_def)
    moreover have "\<not> is_meta_file (resolve ?dp)" unfolding rdp using data_not_meta [of "rdir (up_layout T) repo @ [''_uploads'']" ?s] by simp
    then have "file_at f3 (resolve ?dp) = file_at f2 (resolve ?dp)"
      using fs_call.frame [OF write_meta_call, of "resolve ?dp" C "wall ck" "up_layout T" repo ?m f2] c by simp
    moreover have "T' = T\<lparr>up_sessions := dm_insert (repo, ?s) ?st (up_sessions T)\<rparr>" "f' = f3"
      using assms a b c True by (auto simp: create_session_def Let_def)
    ultimately show thesis using rdp by (intro created [of ?st]) simp_all
  qed
qed

text \<open>No open session has the identifier a new one would get at this moment.\<close>

definition fresh_session :: "clock \<Rightarrow> upload_store \<Rightarrow> bool" where
  "fresh_session ck T \<longleftrightarrow> (\<forall>r. dm_get (up_sessions T) (r, new_session_id ck) = None)"

lemma create_safe:
  assumes i: "upload_safe sha T f" and fr: "fresh_session ck T" and c: "create_session C ck repo T f = (x, T', f')"
  shows "upload_safe sha T' f'"
proof -
  let ?q = "rdir (up_layout T) repo @ [''_uploads'', data_name (new_session_id ck)]"
  have inv: "uploads_inv T f" using i by (simp add: upload_safe_def)
  have pa: "snd (paired (create_session C ck repo T) f) = f'" by (simp add: paired_def c)
  have base: "cas_ok sha f'" "no_faults f'" "fs_ok f'"
    using create_session_keeps_cas [OF c] no_faults_cong [OF fs_call.keeps_faults [OF create_call, of C ck repo T f]]
      fs_call.keeps_ok [OF create_call, of f C ck repo T] pa i by (simp_all add: upload_safe_def)
  have keep: "file_at f' (resolve (us_data_path st)) = file_at f (resolve (us_data_path st))"
    if "dm_get (up_sessions T) (r, s) = Some st" for r s st
  proof -
    have "s \<noteq> new_session_id ck" using fr that by (auto simp: fresh_session_def)
    moreover have p: "resolve (us_data_path st) = rdir (up_layout T) r @ [''_uploads'', data_name s]"
      using inv that by (auto simp: uploads_inv_def)
    moreover have "\<not> is_meta_file (resolve (us_data_path st))"
      unfolding p using data_not_meta [of "rdir (up_layout T) r @ [''_uploads'']" s] by simp
    ultimately have "resolve (us_data_path st) \<notin> insert ?q (Collect is_meta_file)" by (simp add: data_name_inj)
    then show ?thesis using fs_call.frame [OF create_call, of "resolve (us_data_path st)" T repo ck C f] pa by simp
  qed
  have "uploads_inv T' f'"
  proof (cases rule: create_cases [OF c, case_names failed created])
    case failed
    with uploads_invD(1,2) [OF inv] uploads_inv_unique [OF inv] keep show ?thesis by (intro uploads_invI) auto
  next
    case (created st)
    with uploads_invD(1,2) [OF inv] uploads_inv_unique [OF inv] keep fr show ?thesis
      by (intro uploads_invI) (auto simp: fresh_session_def split: if_splits)
  qed
  with base show ?thesis by (simp add: upload_safe_def)
qed

lemma reg_inv_uploads:
  assumes "reg_inv V R" and "upload_safe (ev_sha V) (rg_uploads R) (rg_fs R) \<Longrightarrow> upload_safe (ev_sha V) T f"
  shows "reg_inv V (R\<lparr>rg_uploads := T, rg_fs := f\<rparr>)"
proof -
  have "upload_safe (ev_sha V) T f" using assms by (simp add: reg_inv_def upload_safe_def)
  then show ?thesis using assms(1) by (simp add: reg_inv_def upload_safe_def flight_inv_def)
qed

lemma inv_upload_init:
  assumes i: "reg_inv V R" and fr: "fresh_session ck (rg_uploads R)" and a: "upload_init V ck repo R = (r, R')"
  shows "reg_inv V R'"
proof -
  obtain x f where e: "ensure_repo repo (rg_storage R) (rg_fs R) = (x, f)" by fastforce
  have i0: "reg_inv V (R\<lparr>rg_fs := f\<rparr>)" using reg_inv_evolves [OF i evolves_fs [OF safe_ensure_repo [OF e]]] .
  obtain y T f2 where c: "create_session (ev_upload_codec V) ck repo (rg_uploads R) f = (y, T, f2)" by (metis prod_cases3)
  have "reg_inv V ((R\<lparr>rg_fs := f\<rparr>)\<lparr>rg_uploads := T, rg_fs := f2\<rparr>)"
    by (rule reg_inv_uploads [OF i0]) (use create_safe [OF _ fr c] in simp)
  moreover have "R' = R\<lparr>rg_fs := f\<rparr> \<or> R' = R\<lparr>rg_uploads := T, rg_fs := f2\<rparr>"
    using a e c by (cases x; cases y) (auto simp: upload_init_def)
  ultimately show ?thesis using i0 by auto
qed

lemma inv_upload_patch:
  assumes i: "reg_inv V R" and a: "upload_patch V ck repo s body R = (r, R')"
  shows "reg_inv V R'"
proof (cases "collect_body body max_upload_body")
  case (Inl e)
  with a i show ?thesis by (simp add: upload_patch_def)
next
  case (Inr bs)
  obtain x T f where u: "upload_append (ev_upload_codec V) ck repo s bs (rg_uploads R) (rg_fs R) = (x, T, f)" by (metis prod_cases3)
  with a Inr have "R' = R\<lparr>rg_uploads := T, rg_fs := f\<rparr>" by (simp add: upload_patch_def)
  then show ?thesis using reg_inv_uploads [OF i] append_safe [OF _ u] by simp
qed

lemma upload_put_cases:
  assumes a: "upload_put V ck repo s query body R = (r, R')"
  obtains (same) "R' = R" | (fin) lc d x T f where "wf_digest d"
      "upload_finalize (ev_upload_codec V) (ev_sha V) ck repo s lc d (rg_uploads R) (rg_fs R) = (x, T, f)"
      "R' = R\<lparr>rg_uploads := T, rg_fs := f\<rparr>"
proof (cases "\<exists>ds d bs. map_of (rev query) ''digest'' = Some ds \<and> digest_parse ds = Inr d \<and> collect_body body max_upload_body = Inr bs")
  case False
  with a have "R' = R" by (auto simp: upload_put_def split: option.splits sum.splits)
  then show thesis by (rule same)
next
  case True
  then obtain ds d bs where q: "map_of (rev query) ''digest'' = Some ds" "digest_parse ds = Inr d" "collect_body body max_upload_body = Inr bs" by blast
  obtain x T f where u: "upload_finalize (ev_upload_codec V) (ev_sha V) ck repo s (if bs = [] then None else Some bs) d (rg_uploads R) (rg_fs R) = (x, T, f)"
    by (metis prod_cases3)
  with a q have "R' = R\<lparr>rg_uploads := T, rg_fs := f\<rparr>" by (simp add: upload_put_def)
  with u q(2) show thesis by (intro fin) auto
qed

lemma inv_upload_put:
  assumes i: "reg_inv V R" and a: "upload_put V ck repo s query body R = (r, R')"
  shows "reg_inv V R'"
proof (cases rule: upload_put_cases [OF a, case_names same fin])
  case (fin lc d x T f)
  show ?thesis unfolding fin(3) by (rule reg_inv_uploads [OF i]) (rule finalize_safe [OF _ fin(1,2)])
qed (use i in simp)

section \<open>Pulls keep it\<close>

lemma flight_table: "flight_inv R \<Longrightarrow> dm_get (rg_table R) d = Some i \<longleftrightarrow> (\<exists>k \<in> set (rg_tasks R). pk_digest k = d \<and> pk_entry k = i)"
  unfolding flight_inv_def by blast

lemma flight_task:
  assumes "flight_inv R" and "k \<in> set (rg_tasks R)"
  shows "pk_entry k < length (rg_entries R)" and "wf_digest (pk_digest k)"
    and "pk_final k = blob_path (layout (rg_storage R)) (pk_repo k) (pk_digest k)"
    and "pe_digest (rg_entries R ! pk_entry k) = pk_digest k" and "pe_outcome (rg_entries R ! pk_entry k) = None"
    and "pe_tempfile_path (rg_entries R ! pk_entry k) = pt_tempfile (layout (rg_storage R)) (pk_repo k) (pk_digest k)"
  using assms unfolding flight_inv_def Let_def by blast+

lemma flight_start:
  assumes fl: "flight_inv R" and wf: "wf_digest d" and none: "dm_get (rg_table R) d = None"
  shows "flight_inv (R\<lparr>rg_table := dm_insert d (length (rg_entries R)) (rg_table R),
     rg_entries := rg_entries R @ [entry_new d (pt_tempfile (layout (rg_storage R)) repo d)],
     rg_tasks := rg_tasks R @ [\<lparr>pk_entry = length (rg_entries R), pk_client = c, pk_repo = repo, pk_digest = d,
       pk_final = blob_path (layout (rg_storage R)) repo d\<rparr>]\<rparr>)"
proof -
  have d: "d \<notin> pk_digest ` set (rg_tasks R)" using flight_table [OF fl, of d] none by auto
  have b: "\<And>k. k \<in> set (rg_tasks R) \<Longrightarrow> pk_entry k < length (rg_entries R)" using flight_task(1) [OF fl] .
  then have e: "length (rg_entries R) \<notin> pk_entry ` set (rg_tasks R)" by fastforce
  show ?thesis
    using fl wf d e b unfolding flight_inv_def
    by (auto simp: nth_append entry_new_def Let_def less_Suc_eq image_iff)
qed

lemma inv_pullthrough:
  assumes i: "reg_inv V R" and wf: "wf_digest d" and a: "serve_blob_via_pullthrough u repo d b R = (r, R')"
  shows "reg_inv V R'"
proof (cases "dm_get (rg_table R) d")
  case None
  let ?R = "R\<lparr>rg_table := dm_insert d (length (rg_entries R)) (rg_table R),
     rg_entries := rg_entries R @ [entry_new d (pt_tempfile (layout (rg_storage R)) repo d)],
     rg_tasks := rg_tasks R @ [\<lparr>pk_entry = length (rg_entries R), pk_client = ue_client u, pk_repo = repo, pk_digest = d,
       pk_final = blob_path (layout (rg_storage R)) repo d\<rparr>]\<rparr>"
  from a None have "R' = ?R" by (cases b) (auto simp: serve_blob_via_pullthrough_def get_or_insert_def Let_def)
  moreover have "flight_inv ?R" by (rule flight_start [OF _ wf None]) (use i in \<open>simp add: reg_inv_def\<close>)
  ultimately show ?thesis using i by (simp add: reg_inv_def)
next
  case (Some e)
  with a have "R' = R" by (cases b) (auto simp: serve_blob_via_pullthrough_def get_or_insert_def Let_def)
  with i show ?thesis by simp
qed

lemma inv_get_blob:
  assumes i: "reg_inv V R" and a: "get_blob V ck repo d b R = (r, R')"
  shows "reg_inv V R'"
proof (cases "digest_parse d")
  case (Inl e)
  with a i show ?thesis by (simp add: get_blob_def)
next
  case (Inr p)
  obtain x R1 where m: "reg_blob_meta ck repo p R = (x, R1)" by fastforce
  have i1: "reg_inv V R1" using reg_inv_evolves [OF i] evolves_blob_meta [OF m] by blast
  consider "R' = R1" | u where "serve_blob_via_pullthrough u repo p b R1 = (r, R')"
    using a Inr m by (auto simp: get_blob_def split: sum.splits option.splits)
  then show ?thesis by cases (use i1 inv_pullthrough [OF i1 digest_parse_wf [OF Inr]] in simp_all)
qed

lemma flight_finish:
  assumes fl: "flight_inv R" and ts: "rg_tasks R = ts @ k # us"
  shows "flight_inv (R\<lparr>rg_tasks := ts @ us, rg_table := table_finish (pk_digest k) (rg_table R),
     rg_entries := (rg_entries R)[pk_entry k := e]\<rparr>)"
proof -
  have d: "distinct (map pk_digest (ts @ k # us))" "distinct (map pk_entry (ts @ k # us))"
    and t: "\<And>d i. dm_get (rg_table R) d = Some i \<longleftrightarrow> (\<exists>k \<in> set (rg_tasks R). pk_digest k = d \<and> pk_entry k = i)"
    using fl ts by (simp_all add: flight_inv_def)
  have ne: "pk_digest x \<noteq> pk_digest k" "pk_entry x \<noteq> pk_entry k" if "x \<in> set (ts @ us)" for x
    using d that by (auto simp: image_iff)
  have sub: "x \<in> set (rg_tasks R)" if "x \<in> set (ts @ us)" for x using that ts by auto
  have tab: "dm_get (table_finish (pk_digest k) (rg_table R)) d = Some i \<longleftrightarrow> (\<exists>x \<in> set (ts @ us). pk_digest x = d \<and> pk_entry x = i)" for d i
    using t [of d i] ne(1) ts by (auto simp: table_finish_def)
  have el: "\<forall>x \<in> set (ts @ us). pk_entry x < length ((rg_entries R)[pk_entry k := e]) \<and> wf_digest (pk_digest x) \<and>
        pk_final x = blob_path (layout (rg_storage R)) (pk_repo x) (pk_digest x) \<and>
        (let e = (rg_entries R)[pk_entry k := e] ! pk_entry x in pe_digest e = pk_digest x \<and> pe_outcome e = None \<and>
           pe_tempfile_path e = pt_tempfile (layout (rg_storage R)) (pk_repo x) (pk_digest x))"
  proof
    fix x assume x: "x \<in> set (ts @ us)"
    from ne(2) [OF x] have "(rg_entries R)[pk_entry k := e] ! pk_entry x = rg_entries R ! pk_entry x" by simp
    with flight_task [OF fl sub [OF x]] show "pk_entry x < length ((rg_entries R)[pk_entry k := e]) \<and> wf_digest (pk_digest x) \<and>
        pk_final x = blob_path (layout (rg_storage R)) (pk_repo x) (pk_digest x) \<and>
        (let e = (rg_entries R)[pk_entry k := e] ! pk_entry x in pe_digest e = pk_digest x \<and> pe_outcome e = None \<and>
           pe_tempfile_path e = pt_tempfile (layout (rg_storage R)) (pk_repo x) (pk_digest x))" by simp
  qed
  show ?thesis
    unfolding flight_inv_def using d tab el by simp
qed

lemma inv_producer_task:
  assumes i: "reg_inv V R" and ts: "rg_tasks R = ts @ k # us"
  shows "reg_inv V (producer_task V ck k (R\<lparr>rg_tasks := ts @ us\<rparr>))"
proof -
  let ?R0 = "R\<lparr>rg_tasks := ts @ us\<rparr>" and ?e = "rg_entries R ! pk_entry k" and ?L = "layout (rg_storage R)"
  have fl: "flight_inv R" using i by (simp add: reg_inv_def)
  have k: "wf_digest (pk_digest k)" "pk_final k = blob_path ?L (pk_repo k) (pk_digest k)"
    "pe_digest ?e = pk_digest k" "pe_tempfile_path ?e = pt_tempfile ?L (pk_repo k) (pk_digest k)"
    using fl ts by (simp_all add: flight_inv_def Let_def)
  obtain x w where c: "cl_stream_blob (pk_client k) (inst ck) (pk_repo k) (pk_digest k) (rg_net R) = (x, w)" by fastforce
  show ?thesis
  proof (cases x)
    case (Inl er)
    let ?e' = "entry_finish (PFailed (PUpstream (upstream_error_str er))) ?e"
    have "flight_inv (R\<lparr>rg_tasks := ts @ us, rg_table := table_finish (pk_digest k) (rg_table R),
        rg_entries := (rg_entries R)[pk_entry k := ?e']\<rparr>)" by (rule flight_finish [OF fl ts])
    with i Inl c show ?thesis by (simp add: producer_task_def reg_inv_def flight_inv_def)
  next
    case (Inr items)
    obtain r e' f where run: "run_producer (ev_sha V) (wall ck) (pk_final k) items ?e (rg_fs R) = (r, e', f)" by (metis prod_cases3)
    have safe: "safe_change (ev_sha V) (rg_fs R) f"
      by (rule safe_run_producer [OF run [unfolded k(2)] k(1,3,4)])
    have fl': "flight_inv (R\<lparr>rg_tasks := ts @ us, rg_table := table_finish (pk_digest k) (rg_table R),
        rg_entries := (rg_entries R)[pk_entry k := e']\<rparr>)" by (rule flight_finish [OF fl ts])
    have ups: "uploads_inv (rg_uploads R) f" using uploads_inv_safe [OF _ safe] i by (simp add: reg_inv_def)
    have base: "cas_ok (ev_sha V) f" "fs_ok f" "no_faults f"
      using safe i no_faults_cong [of f "rg_fs R"] by (simp_all add: safe_change_def reg_inv_def)
    let ?m = "\<lparr>bm_path = pk_final k, bm_size = high_water_mark e', bm_cached_at = inst ck\<rparr>"
    have mp: "meta_paths ((rg_storage R)\<lparr>meta_cache := cache_insert (pk_repo k) (pk_digest k) ?m (meta_cache (rg_storage R))\<rparr>)"
      by (rule meta_paths_insert) (use i k in \<open>simp_all add: reg_inv_def\<close>)
    from i Inr c run fl' ups base mp show ?thesis
      by (cases r) (simp_all add: producer_task_def reg_inv_def flight_inv_def Let_def)
  qed
qed

section \<open>Every reachable state\<close>

lemma readyD: "ready x = (rep, R') \<Longrightarrow> \<exists>r. x = (r, R') \<and> rep = Ready r"
  by (cases x) (auto simp: ready_def)

lemma inv_dispatch:
  assumes V: "env_ok V" and i: "reg_inv V R" and fr: "fresh_session ck (rg_uploads R)"
    and a: "dispatch V ck rest q R = (rep, R')"
  shows "reg_inv V R'"
proof -
  obtain repo act where sp: "split_path rest = (repo, act)" by fastforce
  consider (same) "R' = R" | (evolved) "reg_evolves V R R'"
    | (blob) d b where "get_blob V ck repo d b R = (rep, R')"
    | (init) r where "upload_init V ck repo R = (r, R')"
    | (patch) s b r where "upload_patch V ck repo s b R = (r, R')"
    | (put) s qu b r where "upload_put V ck repo s qu b R = (r, R')"
  proof (cases "rest = ''_catalog'' \<or> repo = []")
    case True
    with a sp have "R' = R" by (cases "rest = ''_catalog''") (simp_all add: dispatch_def)
    then show thesis by (rule same)
  next
    case False
    from False a sp show thesis
      unfolding dispatch_def
      by (cases "hq_method q"; cases act)
        (auto dest!: readyD split: prod.splits intro: same blob init patch put
          evolved [OF evolves_reg_delete_blob] evolved [OF evolves_put_manifest] evolved [OF evolves_delete_manifest]
          evolved [OF evolves_list_tags] evolved [OF evolves_get_manifest [OF V]])
  qed
  then show ?thesis
  proof cases
    case same
    with i show ?thesis by simp
  next
    case evolved
    then show ?thesis by (rule reg_inv_evolves [OF i])
  next
    case blob
    then show ?thesis by (rule inv_get_blob [OF i])
  next
    case init
    then show ?thesis by (rule inv_upload_init [OF i fr])
  next
    case patch
    then show ?thesis by (rule inv_upload_patch [OF i])
  next
    case put
    then show ?thesis by (rule inv_upload_put [OF i])
  qed
qed

text \<open>
  One step: a request is handled, or a spawned producer task runs.  Two sessions never get the same
  identifier (they would have to be opened in the same nanosecond).
\<close>

inductive reg_step :: "'w reg_env \<Rightarrow> 'w registry \<Rightarrow> 'w registry \<Rightarrow> bool" for V where
  request: "fresh_session ck (rg_uploads R) \<Longrightarrow> router_call V ck p q R = (rep, R') \<Longrightarrow> reg_step V R R'"
| spawned: "rg_tasks R = ts @ k # us \<Longrightarrow> reg_step V R (producer_task V ck k (R\<lparr>rg_tasks := ts @ us\<rparr>))"

inductive_cases reg_stepE: "reg_step V R R'"

lemma inv_step: "env_ok V \<Longrightarrow> reg_step V R R' \<Longrightarrow> reg_inv V R \<Longrightarrow> reg_inv V R'"
proof (erule reg_stepE)
  fix ck p q rep
  assume V: "env_ok V" and i: "reg_inv V R" and fr: "fresh_session ck (rg_uploads R)" and c: "router_call V ck p q R = (rep, R')"
  then consider "R' = R" | rest where "dispatch V ck rest q R = (rep, R')"
    by (auto simp: router_call_def split: if_splits option.splits)
  then show "reg_inv V R'" by cases (use i inv_dispatch [OF V i fr] in simp_all)
qed (simp add: inv_producer_task)

lemma inv_reachable: "(reg_step V)\<^sup>*\<^sup>* R R' \<Longrightarrow> env_ok V \<Longrightarrow> reg_inv V R \<Longrightarrow> reg_inv V R'"
  by (induction rule: rtranclp_induct) (auto dest: inv_step)

text \<open>The state the server starts with, on the files it finds.\<close>

definition reg_start :: "cas_layout \<Rightarrow> nat \<Rightarrow> local_tags_store \<Rightarrow> upstream_tag_cache \<Rightarrow> fs \<Rightarrow> 'w \<Rightarrow> 'w registry" where
  "reg_start L t tags cache f w =
     \<lparr>rg_storage = storage_new L t, rg_tags = tags, rg_uploads = uploads_new L, rg_table = [], rg_cache = cache,
      rg_fs = f, rg_net = w, rg_entries = [], rg_tasks = []\<rparr>"

lemma inv_start:
  "cas_ok (ev_sha V) f \<Longrightarrow> no_faults f \<Longrightarrow> fs_ok f \<Longrightarrow> tcache_ok cache \<Longrightarrow> reg_inv V (reg_start L t tags cache f w)"
  by (simp add: reg_inv_def reg_start_def flight_inv_def uploads_inv_def meta_paths_def storage_new_def cache_new_def uploads_new_def)


text \<open>A registry without upstreams, on an empty disk, that gets a first upload request.\<close>

definition demo_env :: "unit reg_env" where
  "demo_env = \<lparr>ev_sha = demo_sha, ev_tags_codec = demo_codec, ev_upload_codec = demo_ucodec, ev_map_codec = demo_map_codec,
     ev_json = (\<lambda>b. None), ev_texts = \<lparr>et_io = (\<lambda>e. ''io''), et_json = ''json''\<rparr>, ev_upstreams = []\<rparr>"

definition demo_reg :: "unit registry" where
  "demo_reg = reg_start \<lparr>root = [''q'']\<rparr> 60 (tags_new \<lparr>root = [''q'']\<rparr>) (tcache_new 300 (Some \<lparr>root = [''q'']\<rparr>)) demo_fs ()"

lemma demo_env_ok: "env_ok demo_env"
  by (simp add: env_ok_def demo_env_def)

lemma demo_split: "split_path ''a/blobs/uploads/'' = (''a'', UploadInit)"
  by code_simp


end
