(* ===== verification/Registry_Props.thy ===== *)
theory Registry_Props
  imports Registry_Inv
begin

text \<open>
  What clients of the registry get: the bytes served from the store hash to the digest they are served
  under, whereas a manifest fetched from an upstream is passed on unverified; a manifest is accepted only
  with the blobs it names, and a pushed manifest is served back under its tag; and paths are routed as the
  distribution API prescribes.
\<close>

section \<open>Integrity of what is served\<close>

lemma blob_meta_path:
  assumes "meta_paths S" and "blob_meta_of ck repo d f S = (Inr (Some m), S')"
  shows "bm_path m = blob_path (layout S) repo d"
  using assms(2)
  by (cases rule: blob_meta_cases [of ck S repo d f])
    (use assms(1) in \<open>auto simp: meta_paths_def cache_get_Some\<close>)

lemma open_blob_verified:
  assumes c: "cas_ok sha f" and mp: "meta_paths S" and wf: "wf_digest d"
    and m: "blob_meta_of ck repo d f S = (Inr (Some m), S')" and o: "open_blob m f = Inr b"
  shows "sha b = hex d"
proof -
  have "file_at f (resolve (blob_path (layout S) repo d)) = Some b"
    using o blob_meta_path [OF mp m] by (auto simp: open_blob_def split: sum.splits dest: read_Inr)
  then show ?thesis by (rule cas_ok_blob [OF c wf])
qed

lemma error_body [simp]:
  "rp_body (error_new s c m) \<noteq> Full b" "rp_body (manifest_unknown x) \<noteq> Full b" "rp_body (blob_unknown x) \<noteq> Full b"
  "rp_body (digest_invalid x) \<noteq> Full b" "rp_body (internal_err x) \<noteq> Full b"
  by (simp_all add: error_new_def registry_error_response_def manifest_unknown_def blob_unknown_def digest_invalid_def internal_err_def)

lemma local_manifest_verified:
  assumes i: "reg_inv V R" and wf: "wf_digest d"
    and a: "serve_local_manifest V ck repo d reference wb R = (resp, R')" and b: "rp_body resp = Full b"
  shows "hdr_get ''docker-content-digest'' (rp_headers resp) = Some (digest_to_string d) \<and> ev_sha V b = hex d"
proof -
  obtain x S where m: "blob_meta_of ck repo d (rg_fs R) (rg_storage R) = (x, S)" by fastforce
  from a b m obtain y c where y: "x = Inr (Some y)" "open_blob y (rg_fs R) = Inr c"
    "resp = build_manifest_response c (sniff_manifest_content_type (ev_json V) c) d wb"
    by (auto simp: serve_local_manifest_def reg_blob_meta_def read_blob_to_bytes_def split: sum.splits option.splits)
  have "ev_sha V c = hex d"
    by (rule open_blob_verified [OF _ _ wf m [unfolded y(1)] y(2)]) (use i in \<open>simp_all add: reg_inv_def\<close>)
  with y(3) b show ?thesis by (auto simp: manifest_response [OF wf] split: if_splits)
qed

lemma if_local_verified:
  assumes i: "reg_inv V R" and wf: "wf_digest d"
    and a: "serve_if_local V ck repo d reference wb R = (Some resp, R')" and b: "rp_body resp = Full b"
  shows "hdr_get ''docker-content-digest'' (rp_headers resp) = Some (digest_to_string d) \<and> ev_sha V b = hex d"
proof -
  obtain x R1 where m: "reg_blob_meta ck repo d R = (x, R1)" by fastforce
  from a m obtain R2 where s: "serve_local_manifest V ck repo d reference wb R1 = (resp, R2)"
    by (auto simp: serve_if_local_def split: sum.splits option.splits prod.splits)
  have "reg_inv V R1" using reg_inv_evolves [OF i] evolves_blob_meta [OF m] by blast
  from local_manifest_verified [OF this wf s b] show ?thesis .
qed

lemma get_blob_verified:
  assumes "reg_inv V R" and a: "get_blob V ck repo ds True R = (Ready resp, R')" and b: "rp_body resp = Full b"
  shows "\<exists>d. digest_parse ds = Inr d \<and> ev_sha V b = hex d \<and>
    hdr_get ''docker-content-digest'' (rp_headers resp) = Some (digest_to_string d)"
proof -
  from a b obtain d where d: "digest_parse ds = Inr d"
    by (cases "digest_parse ds") (auto simp: get_blob_def)
  obtain x S where m: "blob_meta_of ck repo d (rg_fs R) (rg_storage R) = (x, S)" by fastforce
  have "\<nexists>u R1. serve_blob_via_pullthrough u repo d True R1 = (Ready resp, R')"
    using b by (auto simp: serve_blob_via_pullthrough_def Let_def split: prod.splits)
  with a b d m obtain y where y: "x = Inr (Some y)" "resp = serve_local_blob V y d True (rg_fs R)"
    by (auto simp: get_blob_def reg_blob_meta_def split: sum.splits option.splits)
  from y(2) b have o: "open_blob y (rg_fs R) = Inr b"
    by (auto simp: serve_local_blob_def Let_def split: sum.splits)
  have "ev_sha V b = hex d"
    by (rule open_blob_verified [OF _ _ digest_parse_wf [OF d] m [unfolded y(1)] o]) (use assms(1) in \<open>simp_all add: reg_inv_def\<close>)
  with d y(2) o show "\<exists>d. digest_parse ds = Inr d \<and> ev_sha V b = hex d \<and>
      hdr_get ''docker-content-digest'' (rp_headers resp) = Some (digest_to_string d)"
    by (simp add: serve_local_blob_def Let_def)
qed

lemma get_manifest_verified:
  assumes i: "reg_inv V R" and r: "route (ev_upstreams V) repo = None"
    and a: "get_manifest V ck repo reference True R = (resp, R')" and b: "rp_body resp = Full b"
  shows "\<exists>d. hdr_get ''docker-content-digest'' (rp_headers resp) = Some (digest_to_string d) \<and> ev_sha V b = hex d \<and>
    (\<forall>e. digest_parse reference = Inr e \<longrightarrow> e = d)"
proof (cases "digest_parse_ok reference")
  case None
  then have n: "\<nexists>e. digest_parse reference = Inr e" by (auto simp: digest_parse_ok_Some [symmetric])
  show ?thesis
  proof (cases "Option.bind (tags_get (rg_tags R) repo reference) (\<lambda>m. digest_parse_ok (tag_digest m))")
    case (Some d)
    then have "wf_digest d" by (auto simp: Option.bind_eq_Some_conv)
    moreover from a None Some have "serve_local_manifest V ck repo d reference True R = (resp, R')" by (simp add: get_manifest_def)
    ultimately show ?thesis using local_manifest_verified [OF i _ _ b] n by blast
  next
    case nl: None
    obtain x R1 where c: "serve_cached_tag V ck repo reference True R = (x, R1)" by fastforce
    from a None nl c r b have x: "x = Some resp" by (auto simp: get_manifest_def split: option.splits)
    from c x r obtain d where d: "tcache_lookup (inst ck) (rg_cache R) repo reference \<in> {Fresh d, Stale d}"
      "serve_if_local V ck repo d reference True R = (Some resp, R1)"
      by (auto simp: serve_cached_tag_def split: tag_cache_state.splits)
    have "wf_digest d"
      using d(1) i by (auto simp: tcache_lookup_def reg_inv_def dest: tcache_ok_get split: option.splits if_splits)
    from if_local_verified [OF i this d(2) b] n show ?thesis by blast
  qed
next
  case (Some d)
  then have e: "digest_parse reference = Inr d" by (simp add: digest_parse_ok_Some)
  obtain x R1 where m: "reg_blob_meta ck repo d R = (x, R1)" by fastforce
  have i1: "reg_inv V R1" using reg_inv_evolves [OF i] evolves_blob_meta [OF m] by blast
  from a b Some m r have "serve_local_manifest V ck repo d reference True R1 = (resp, R')"
    by (auto simp: get_manifest_def split: sum.splits option.splits)
  from local_manifest_verified [OF i1 digest_parse_wf [OF e] this b] e show ?thesis by auto
qed


section \<open>Upstream manifests are passed on unverified\<close>

text \<open>
  C33. A manifest fetched from an upstream is served as it came: for a digest-addressed request that misses
  the local store, the client gets status 200 with the upstream's bytes, whatever they hash to and whatever
  digest was asked for; bytes that do not hash to the digest the upstream reports are not stored, but they
  are served.
\<close>

theorem upstream_manifest_unverified:
  assumes d: "digest_parse reference = Inr d" and miss: "reg_blob_meta ck repo d R = (Inr None, R1)"
    and u: "route (ev_upstreams V) repo = Some u"
    and m: "cl_get_manifest (ue_client u) (inst ck) repo reference (rg_net R1) = (Inr m, w)"
  shows "\<exists>R'. get_manifest V ck repo reference True R =
      (build_manifest_response (mr_bytes m) (mr_content_type m) (mr_digest m) True, R') \<and>
    (ev_sha V (mr_bytes m) \<noteq> hex (mr_digest m) \<longrightarrow> rg_fs R' = rg_fs R)"
proof -
  have ok: "digest_parse_ok reference = Some d" using d by (simp add: digest_parse_ok_Some)
  obtain x S f where p: "put_blob_buffered (ev_sha V) ck repo (mr_digest m) (mr_bytes m) (rg_storage R1) (rg_fs R1) = (x, S, f)"
    by (metis prod_cases3)
  have "get_manifest V ck repo reference True R = fetch_and_serve_upstream_manifest V ck u repo reference True R1"
    by (simp add: get_manifest_def ok miss u)
  also have "\<dots> = (build_manifest_response (mr_bytes m) (mr_content_type m) (mr_digest m) True,
      R1\<lparr>rg_net := w, rg_storage := S, rg_fs := f\<rparr>)"
    by (simp add: fetch_and_serve_upstream_manifest_def m p ok)
  finally have g: "get_manifest V ck repo reference True R = (build_manifest_response (mr_bytes m) (mr_content_type m) (mr_digest m) True,
      R1\<lparr>rg_net := w, rg_storage := S, rg_fs := f\<rparr>)" .
  have "f = rg_fs R" if "ev_sha V (mr_bytes m) \<noteq> hex (mr_digest m)"
    using p that evolves_blob_meta [OF miss, of V] by (simp add: put_blob_buffered_def)
  with g show ?thesis by auto
qed

section \<open>Pushing a manifest\<close>

lemma blob_meta_found:
  assumes "no_faults f" and "file_at f (resolve (blob_path (layout S) repo d)) = Some b"
  shows "\<exists>m S'. blob_meta_of ck repo d f S = (Inr (Some m), S')"
proof (cases rule: blob_meta_cases [of ck S repo d f])
  case (error e)
  from assms(2) obtain t where "lookup f (resolve (blob_path (layout S) repo d)) = Some (FFile b t)" by (auto simp: file_at_Some)
  with assms(1) error show ?thesis by (simp add: blob_meta_of_def fs_metadata_def node_at_def Let_def)
qed (use assms in auto)

lemma first_missing_none:
  assumes "no_faults (rg_fs R)"
    and "\<forall>s \<in> set ss. \<exists>d b. digest_parse s = Inr d \<and> file_at (rg_fs R) (resolve (blob_path (layout (rg_storage R)) repo d)) = Some b"
  shows "\<exists>R1. first_missing ck repo ss R = (None, R1) \<and> reg_evolves V R R1 \<and> rg_fs R1 = rg_fs R \<and> rg_tags R1 = rg_tags R"
  using assms
proof (induction ck repo ss R rule: first_missing.induct)
  case (2 ck repo s ss R)
  from 2(3) obtain d b where d: "digest_parse s = Inr d" and b: "file_at (rg_fs R) (resolve (blob_path (layout (rg_storage R)) repo d)) = Some b"
    by auto
  from blob_meta_found [OF 2(2) b, of ck] obtain m S' where m: "blob_meta_of ck repo d (rg_fs R) (rg_storage R) = (Inr (Some m), S')" by blast
  let ?R1 = "R\<lparr>rg_storage := S'\<rparr>"
  have r: "reg_blob_meta ck repo d R = (Inr (Some m), ?R1)" by (simp add: reg_blob_meta_def m)
  have e: "reg_evolves V R ?R1" using evolves_blob_meta [OF r] by blast
  then have l: "layout (rg_storage ?R1) = layout (rg_storage R)" by (simp add: reg_evolves_def)
  have "\<exists>R1. first_missing ck repo ss ?R1 = (None, R1) \<and> reg_evolves V ?R1 R1 \<and> rg_fs R1 = rg_fs ?R1 \<and> rg_tags R1 = rg_tags ?R1"
    by (rule 2(1) [OF d r [symmetric] refl refl]) (use 2(2,3) l in simp_all)
  with d r e show ?case by (auto intro: evolves_trans)
qed simp

lemma put_manifest_created:
  assumes put: "put_manifest V ck repo reference headers body R = (resp, R')" and st: "rp_status resp = 201"
    and b: "collect_body body max_manifest_body = Inr b" and sha: "sha_ok (ev_sha V)"
  defines "d \<equiv> sha256_digest (ev_sha V b)"
  obtains f R1 m S g where "ensure_repo repo (rg_storage R) (rg_fs R) = (Inr (), f)"
    and "check_manifest_blobs_present V ck repo b (R\<lparr>rg_fs := f\<rparr>) = (None, R1)"
    and "put_blob_buffered (ev_sha V) ck repo d b (rg_storage R1) (rg_fs R1) = (Inr m, S, g)"
    and "digest_parse reference = Inr d \<and> R' = R1\<lparr>rg_storage := S, rg_fs := g\<rparr> \<or>
      digest_parse_ok reference = None \<and> (\<exists>T h. tags_set (ev_tags_codec V) ck repo reference d (rg_tags R1) g = (Inr (), T, h) \<and>
         R' = R1\<lparr>rg_storage := S, rg_fs := h, rg_tags := T\<rparr>)"
proof -
  have nd: "rp_status (internal_err s) \<noteq> 201" "rp_status (error_new 400 c s) \<noteq> 201" for s c
    by (simp_all add: internal_err_def error_new_def registry_error_response_def)
  have d: "digest_parse (''sha256:'' @ ev_sha V b) = Inr d"
    using sha digest_parse_prefix [of "ev_sha V b"] by (simp add: d_def)
  obtain x f where e: "ensure_repo repo (rg_storage R) (rg_fs R) = (x, f)" by fastforce
  obtain y R1 where c: "check_manifest_blobs_present V ck repo b (R\<lparr>rg_fs := f\<rparr>) = (y, R1)" by fastforce
  from put st e c d b have x: "x = Inr ()" "y = None" and r: "digest_parse_ok reference = None \<or> digest_parse_ok reference = Some d"
    and s: "store_manifest V ck repo reference headers d b R1 = (resp, R')"
    by (auto simp: put_manifest_def Let_def nd split: sum.splits option.splits if_splits prod.splits)
  obtain z S g where p: "put_blob_buffered (ev_sha V) ck repo d b (rg_storage R1) (rg_fs R1) = (z, S, g)" by (metis prod_cases3)
  obtain w T h where t: "tags_set (ev_tags_codec V) ck repo reference d (rg_tags R1) g = (w, T, h)" by (metis prod_cases3)
  from s st p t obtain m where m: "z = Inr m" 
    and r': "digest_parse_ok reference = Some d \<and> R' = R1\<lparr>rg_storage := S, rg_fs := g\<rparr> \<or>
      digest_parse_ok reference = None \<and> w = Inr () \<and> R' = R1\<lparr>rg_storage := S, rg_fs := h, rg_tags := T\<rparr>"
    using r by (cases z; cases w) (auto simp: store_manifest_def Let_def nd split: if_splits)
  show thesis
    by (rule that [OF e [unfolded x(1)] c [unfolded x(2)] p [unfolded m]]) (use r' t in \<open>auto simp: digest_parse_ok_Some\<close>)
qed

lemma first_missing_tags: "first_missing ck repo ss R = (r, R') \<Longrightarrow> rg_tags R' = rg_tags R"
  by (induction ck repo ss R rule: first_missing.induct)
    (fastforce simp: reg_blob_meta_def split: sum.splits prod.splits option.splits)+

lemma check_tags: "check_manifest_blobs_present V ck repo b R = (r, R') \<Longrightarrow> rg_tags R' = rg_tags R"
  using first_missing_tags by (auto simp: check_manifest_blobs_present_def split: option.splits)

lemma reg_blob_meta_sound:
  assumes "meta_sound (rg_storage R) (rg_fs R)" and "reg_blob_meta ck repo d R = (Inr x, R')"
  shows "meta_sound (rg_storage R') (rg_fs R')" and "layout (rg_storage R') = layout (rg_storage R)" and "rg_fs R' = rg_fs R"
    and "x \<noteq> None \<Longrightarrow> file_at (rg_fs R) (resolve (blob_path (layout (rg_storage R)) repo d)) \<noteq> None"
proof -
  obtain y S where m: "blob_meta_of ck repo d (rg_fs R) (rg_storage R) = (y, S)" by fastforce
  with assms(2) have R': "R' = R\<lparr>rg_storage := S\<rparr>" "y = Inr x" by (simp_all add: reg_blob_meta_def)
  have "meta_sound S (rg_fs R) \<and> (x \<noteq> None \<longrightarrow> file_at (rg_fs R) (resolve (blob_path (layout (rg_storage R)) repo d)) \<noteq> None)"
    using blob_meta_of_exact [OF assms(1) m] R'(2) by (cases x) auto
  with R' blob_meta_of_layout [OF m] show "meta_sound (rg_storage R') (rg_fs R')" "layout (rg_storage R') = layout (rg_storage R)" "rg_fs R' = rg_fs R"
    "x \<noteq> None \<Longrightarrow> file_at (rg_fs R) (resolve (blob_path (layout (rg_storage R)) repo d)) \<noteq> None"
    by simp_all
qed

lemma first_missing_sound:
  assumes "first_missing ck repo ss R = (None, R')" and "meta_sound (rg_storage R) (rg_fs R)" and "s \<in> set ss"
  shows "\<exists>d. digest_parse s = Inr d \<and> file_at (rg_fs R) (resolve (blob_path (layout (rg_storage R)) repo d)) \<noteq> None"
  using assms
proof (induction ck repo ss R rule: first_missing.induct)
  case (2 ck repo t ss R)
  from 2(2) obtain d m R1 where d: "digest_parse t = Inr d" and r: "reg_blob_meta ck repo d R = (Inr (Some m), R1)"
    and n: "first_missing ck repo ss R1 = (None, R')"
    by (auto split: sum.splits prod.splits option.splits)
  note p = reg_blob_meta_sound [OF 2(3) r]
  show ?case
  proof (cases "s = t")
    case True with d p(4) show ?thesis by auto
  next
    case False
    with 2(4) have "s \<in> set ss" by simp
    from 2(1) [OF d r [symmetric] refl refl n p(1) this] show ?thesis by (simp add: p(2,3))
  qed
qed simp

lemma tags_set_slot:
  assumes "tags_set C ck repo tag d T f = (r, T', f')" and "is_slot q"
  shows "file_at f' q = file_at f q"
proof -
  from assms obtain v where w: "write_atomic C (wall ck) (local_tags_path (lt_layout T) repo) v f = (r, f')"
    by (auto simp: tags_set_def Let_def split: prod.splits)
  have "q \<notin> {resolve (local_tags_path (lt_layout T) repo), resolve (with_extension (local_tags_path (lt_layout T) repo) ''json.tmp'')}"
    using assms(2) by (auto simp: path_simps)
  with fs_call.frame [OF write_atomic_call, of q "local_tags_path (lt_layout T) repo" C "wall ck" v f] w show ?thesis by (simp add: path_simps)
qed

lemma tags_set_get: "tags_set C ck repo tag d T f = (r, T', f') \<Longrightarrow> tags_get T' repo tag = Some \<lparr>tag_digest = digest_to_string d, pushed_at = wall ck\<rparr>"
  by (auto simp: tags_set_def tags_get_def Let_def split: prod.splits)

lemma put_blob_stored:
  assumes "wf_digest d" and "put_blob_buffered sha ck repo d b S f = (Inr m, S', f')"
  shows "file_at f' (slot (rdir (layout S) repo) (hex d)) = Some b" and "layout S' = layout S"
    and "hex64 h \<Longrightarrow> file_at f (slot p h) \<noteq> None \<Longrightarrow> file_at f' (slot p h) \<noteq> None"
proof -
  show "file_at f' (slot (rdir (layout S) repo) (hex d)) = Some b" "layout S' = layout S"
    using assms(2) by (cases rule: put_blob_cases [of sha b d ck repo S f];
      use assms(1) in \<open>auto simp: resolve_blob_path dest!: write_via_tempfile_Inr\<close>)+
  show "hex64 h \<Longrightarrow> file_at f (slot p h) \<noteq> None \<Longrightarrow> file_at f' (slot p h) \<noteq> None"
    using buffered.commit_keeps_blobs [where f = f and h = h and p = p and d = d and sha = sha and ck = ck and repo = repo and bs = b and S = S] assms
    by (simp add: paired_def)
qed

lemma ensure_repo_files: "ensure_repo repo S f = (r, f') \<Longrightarrow> file_at f' = file_at f"
  using sys_mkdir.frame
  by (auto simp: ensure_repo_def ensure_repo_dirs_def fun_eq_iff split: prod.splits sum.splits) (metis snd_conv emptyE)+

lemma manifest_stored:
  assumes sha: "sha_ok (ev_sha V)" and b: "collect_body body max_manifest_body = Inr b"
    and put: "put_manifest V ck repo reference headers body R = (resp, R')" and st: "rp_status resp = 201"
  defines "d \<equiv> sha256_digest (ev_sha V b)"
  shows "file_at (rg_fs R') (slot (rdir (layout (rg_storage R)) repo) (hex d)) = Some b"
    and "digest_parse reference = Inr d \<or>
      digest_parse_ok reference = None \<and> Option.bind (tags_get (rg_tags R') repo reference) (\<lambda>m. digest_parse_ok (tag_digest m)) = Some d"
    and "meta_sound (rg_storage R) (rg_fs R) \<Longrightarrow> ev_json V b = Some j \<Longrightarrow> s \<in> set (required_blobs j) \<Longrightarrow>
       \<exists>e. digest_parse s = Inr e \<and> file_at (rg_fs R') (resolve (blob_path (layout (rg_storage R)) repo e)) \<noteq> None"
proof -
  have wf: "wf_digest d" using sha by (simp add: d_def)
  obtain f R1 m S g where e: "ensure_repo repo (rg_storage R) (rg_fs R) = (Inr (), f)"
    and c: "check_manifest_blobs_present V ck repo b (R\<lparr>rg_fs := f\<rparr>) = (None, R1)"
    and p: "put_blob_buffered (ev_sha V) ck repo d b (rg_storage R1) (rg_fs R1) = (Inr m, S, g)"
    and r: "digest_parse reference = Inr d \<and> R' = R1\<lparr>rg_storage := S, rg_fs := g\<rparr> \<or>
      digest_parse_ok reference = None \<and> (\<exists>T h. tags_set (ev_tags_codec V) ck repo reference d (rg_tags R1) g = (Inr (), T, h) \<and>
         R' = R1\<lparr>rg_storage := S, rg_fs := h, rg_tags := T\<rparr>)"
    unfolding d_def by (rule put_manifest_created [OF put st b sha])
  have slots: "file_at (rg_fs R') q = file_at g q" if "is_slot q" for q
    using r that by (auto dest: tags_set_slot)
  have l: "layout (rg_storage R1) = layout (rg_storage R)" and f1: "rg_fs R1 = f"
    using evolves_check [OF c, of V] by (simp_all add: reg_evolves_def)
  show "file_at (rg_fs R') (slot (rdir (layout (rg_storage R)) repo) (hex d)) = Some b"
    using put_blob_stored(1) [OF wf p] slots wf by (simp add: l wf_digest_def)
  have "digest_parse_ok (digest_to_string d) = Some d" using wf by (simp add: digest_parse_ok_Some digest_parse_to_string)
  with r show "digest_parse reference = Inr d \<or>
      digest_parse_ok reference = None \<and> Option.bind (tags_get (rg_tags R') repo reference) (\<lambda>m. digest_parse_ok (tag_digest m)) = Some d"
    by (auto dest!: tags_set_get)
  assume ms: "meta_sound (rg_storage R) (rg_fs R)" and j: "ev_json V b = Some j" and s: "s \<in> set (required_blobs j)"
  have fa: "file_at f = file_at (rg_fs R)" using ensure_repo_files [OF e] .
  with ms have "meta_sound (rg_storage R) f" by (simp add: meta_sound_def)
  with c j s obtain e where e: "digest_parse s = Inr e" "file_at f (resolve (blob_path (layout (rg_storage R)) repo e)) \<noteq> None"
    using first_missing_sound [of ck repo "required_blobs j" "R\<lparr>rg_fs := f\<rparr>" R1 s] by (auto simp: check_manifest_blobs_present_def)
  moreover from digest_parse_wf [OF e(1)] have w: "wf_digest e" "hex64 (hex e)" by (simp_all add: wf_digest_def)
  ultimately show "\<exists>e. digest_parse s = Inr e \<and> file_at (rg_fs R') (resolve (blob_path (layout (rg_storage R)) repo e)) \<noteq> None"
    using put_blob_stored(3) [OF wf p w(2)] slots by (auto simp: resolve_blob_path f1)
qed

lemma serve_local_stored:
  assumes nf: "no_faults (rg_fs R)" and mp: "meta_paths (rg_storage R)" and wf: "wf_digest d"
    and b: "file_at (rg_fs R) (slot (rdir (layout (rg_storage R)) repo) (hex d)) = Some b"
  shows "\<exists>S. serve_local_manifest V ck repo d reference wb R =
      (build_manifest_response b (sniff_manifest_content_type (ev_json V) b) d wb, R\<lparr>rg_storage := S\<rparr>)"
proof -
  have f: "file_at (rg_fs R) (resolve (blob_path (layout (rg_storage R)) repo d)) = Some b" using b wf by (simp add: resolve_blob_path)
  from blob_meta_found [OF nf f] obtain m S where m: "blob_meta_of ck repo d (rg_fs R) (rg_storage R) = (Inr (Some m), S)" by blast
  have "open_blob m (rg_fs R) = Inr b"
    using read_ok [OF nf f] blob_meta_path [OF mp m] by (simp add: open_blob_def)
  then show ?thesis by (auto simp: serve_local_manifest_def reg_blob_meta_def m read_blob_to_bytes_def)
qed

lemma get_manifest_digest:
  assumes nf: "no_faults (rg_fs R)" and mp: "meta_paths (rg_storage R)" and d: "digest_parse reference = Inr d"
    and b: "file_at (rg_fs R) (slot (rdir (layout (rg_storage R)) repo) (hex d)) = Some b"
  shows "\<exists>S. get_manifest V ck repo reference True R =
      (build_manifest_response b (sniff_manifest_content_type (ev_json V) b) d True, R\<lparr>rg_storage := S\<rparr>)"
proof -
  have wf: "wf_digest d" by (rule digest_parse_wf [OF d])
  have ok: "digest_parse_ok reference = Some d" using d by (simp add: digest_parse_ok_Some)
  have f: "file_at (rg_fs R) (resolve (blob_path (layout (rg_storage R)) repo d)) = Some b" using b wf by (simp add: resolve_blob_path)
  from blob_meta_found [OF nf f] obtain m S where m: "blob_meta_of ck repo d (rg_fs R) (rg_storage R) = (Inr (Some m), S)" by blast
  then have r: "reg_blob_meta ck repo d R = (Inr (Some m), R\<lparr>rg_storage := S\<rparr>)" by (simp add: reg_blob_meta_def)
  have "\<exists>S'. serve_local_manifest V ck repo d reference True (R\<lparr>rg_storage := S\<rparr>) =
      (build_manifest_response b (sniff_manifest_content_type (ev_json V) b) d True, R\<lparr>rg_storage := S, rg_storage := S'\<rparr>)"
    by (rule serve_local_stored)
      (use nf b wf blob_meta_of_layout [OF m] meta_paths_blob_meta [OF m mp] in simp_all)
  then show ?thesis by (simp add: get_manifest_def ok r)
qed


text \<open>
  C7. Push and pull: after a push that is answered with 201, a pull of the same reference, and of the
  manifest's digest, at any later time, is answered with 200, exactly the pushed bytes, their digest and
  their media type; only when the media type in the manifest has a control character does the pull panic.
  The pull by reference asks no upstream.
\<close>

theorem manifest_push_pull:
  assumes i: "reg_inv V R" and sha: "sha_ok (ev_sha V)" and b: "collect_body body max_manifest_body = Inr b"
    and put: "put_manifest V ck repo reference headers body R = (resp, R')" and st: "rp_status resp = 201"
  shows "let d = sha256_digest (ev_sha V b); media_type = sniff_manifest_content_type (ev_json V) b;
      answer = (if header_value_ok media_type
        then \<lparr>rp_status = 200, rp_headers = [(''content-length'', dec (length b)), (''docker-content-digest'', digest_to_string d),
                (''content-type'', media_type)], rp_body = Full b\<rparr>
        else panicked) in
    fst (get_manifest V ck' repo reference True R') = answer \<and>
    fst (get_manifest V ck' repo (digest_to_string d) True R') = answer \<and>
    rg_net (snd (get_manifest V ck' repo reference True R')) = rg_net R'"
proof -
  let ?d = "sha256_digest (ev_sha V b)" and ?a = "build_manifest_response b (sniff_manifest_content_type (ev_json V) b) (sha256_digest (ev_sha V b)) True"
  have e: "reg_evolves V R R'" by (rule evolves_put_manifest [OF put])
  from reg_inv_evolves [OF i e] have nf: "no_faults (rg_fs R')" and mp: "meta_paths (rg_storage R')" by (simp_all add: reg_inv_def)
  have wf: "wf_digest ?d" using sha by simp
  have s: "file_at (rg_fs R') (slot (rdir (layout (rg_storage R')) repo) (hex ?d)) = Some b"
    using manifest_stored(1) [OF sha b put st] e by (simp add: reg_evolves_def)
  have dg: "\<exists>S. get_manifest V ck' repo r True R' = (?a, R'\<lparr>rg_storage := S\<rparr>)" if "digest_parse r = Inr ?d" for r
    by (rule get_manifest_digest [OF nf mp that s])
  have "\<exists>S. get_manifest V ck' repo reference True R' = (?a, R'\<lparr>rg_storage := S\<rparr>)"
    using manifest_stored(2) [OF sha b put st]
  proof
    assume "digest_parse_ok reference = None \<and>
      Option.bind (tags_get (rg_tags R') repo reference) (\<lambda>m. digest_parse_ok (tag_digest m)) = Some ?d"
    then show ?thesis using serve_local_stored [OF nf mp wf s, of V ck' reference] by (simp add: get_manifest_def)
  qed (rule dg)
  with dg [OF digest_parse_to_string [OF wf]] show ?thesis by (auto simp: Let_def manifest_response [OF wf])
qed

text \<open>On a repository whose directories and files are not in the way, a push succeeds.\<close>

lemma write_via_tempfile_dirs:
  assumes w: "write_via_tempfile now tmp final bs f = (Inr u, f')" and q: "lookup f' q = Some FDir"
  shows "lookup f q = Some FDir \<or> prefix q (resolve (butlast final)) \<or> prefix q (resolve (butlast tmp))"
proof (rule ccontr)
  assume n: "\<not> ?thesis"
  from w obtain f1 f2 f3 f4 where m: "fs_create_dir_all (butlast final) f = (Inr (), f1)" "fs_create_dir_all (butlast tmp) f1 = (Inr (), f2)"
    and c: "fs_create now tmp f2 = (Inr (), f3)" and a: "fs_append now tmp bs f3 = (Inr (), f4)" and r: "fs_rename tmp final f4 = (Inr u, f')"
    by (auto simp: write_via_tempfile_def split: prod.splits sum.splits)
  obtain d t where r': "lookup f4 (resolve tmp) = Some (FFile d t)" "lookup f' (resolve final) = Some (FFile d t)"
    "resolve tmp \<noteq> resolve final \<Longrightarrow> lookup f' (resolve tmp) = None"
    and o4: "\<And>q. q \<noteq> resolve tmp \<Longrightarrow> q \<noteq> resolve final \<Longrightarrow> lookup f' q = lookup f4 q"
    using rename_Inr [OF r] by metis
  have t: "q \<noteq> resolve tmp" "q \<noteq> resolve final" using q r' by (cases "resolve tmp = resolve final"; auto)+
  have "lookup f q = Some FDir"
    using q o4 [OF t] append_lookup_other [OF t(1), of now bs f3] create_Inr(2) [OF c t(1)]
      create_dir_all_lookup_other [of q "butlast final" f] create_dir_all_lookup_other [of q "butlast tmp" f1] n m a by simp
  with n show False by simp
qed

lemma ensure_repo_ok:
  assumes "repo_clear (layout S) repo f"
  shows "\<exists>f'. ensure_repo repo S f = (Inr (), f') \<and> repo_clear (layout S) repo f' \<and> file_at f' = file_at f \<and>
    (\<forall>q. lookup f' q = Some FDir \<longrightarrow> lookup f q = Some FDir \<or>
      prefix q (rdir (layout S) repo @ [''blobs'', ''sha256'']) \<or> prefix q (rdir (layout S) repo @ [''_uploads'']))"
proof -
  let ?L = "layout S" let ?D = "rdir ?L repo"
  define b u where bu: "b = path_join (path_join (repo_dir ?L repo) ''blobs'') ''sha256''" "u = path_join (repo_dir ?L repo) ''_uploads''"
  have r: "resolve b = ?D @ [''blobs'', ''sha256'']" "resolve u = ?D @ [''_uploads'']"
    by (simp_all add: bu path_simps rdir_def)
  from assms have nf: "no_faults f" and cl: "dir_clear f (resolve b)" "dir_clear f (resolve u)" by (simp_all add: repo_clear_def r)
  obtain f1 where f1: "fs_create_dir_all b f = (Inr (), f1)" "file_at f1 = file_at f" "no_faults f1"
    and o1: "\<And>q. \<not> prefix q (resolve b) \<Longrightarrow> lookup f1 q = lookup f q"
    using create_dir_all_ok [OF nf cl(1)] by metis
  have c1: "dir_clear f1 (resolve u)" using cl(2) f1(2) by (simp add: dir_clear_file_at)
  obtain f2 where f2: "fs_create_dir_all u f1 = (Inr (), f2)" "file_at f2 = file_at f1" "no_faults f2"
    and o2: "\<And>q. \<not> prefix q (resolve u) \<Longrightarrow> lookup f2 q = lookup f1 q"
    using create_dir_all_ok [OF f1(3) c1] by metis
  have "lookup f q = Some FDir \<or> prefix q (resolve b) \<or> prefix q (resolve u)" if "lookup f2 q = Some FDir" for q
    using that o1 o2 by metis
  moreover have "ensure_repo repo S f = (Inr (), f2)" by (simp add: ensure_repo_def ensure_repo_dirs_def bu [symmetric] f1(1) f2(1))
  moreover have "repo_clear ?L repo f2" using assms f1 f2 by (simp add: repo_clear_def dir_clear_file_at)
  moreover have "file_at f2 = file_at f" using f1 f2 by simp
  ultimately show ?thesis unfolding r by blast
qed

lemma dir_clear_append: "dir_clear f (p @ q) \<Longrightarrow> k \<le> length p \<Longrightarrow> file_at f (take k p) = None"
  unfolding dir_clear_file_at by (drule spec [of _ k]) simp

lemma check_present_ok:
  assumes "no_faults (rg_fs R)"
    and "\<And>j s. ev_json V b = Some j \<Longrightarrow> s \<in> set (required_blobs j) \<Longrightarrow>
      \<exists>e c. digest_parse s = Inr e \<and> file_at (rg_fs R) (resolve (blob_path (layout (rg_storage R)) repo e)) = Some c"
  shows "\<exists>R1. check_manifest_blobs_present V ck repo b R = (None, R1) \<and> rg_fs R1 = rg_fs R \<and> rg_tags R1 = rg_tags R \<and>
    layout (rg_storage R1) = layout (rg_storage R)"
proof (cases "ev_json V b")
  case (Some j)
  have "\<exists>R1. first_missing ck repo (required_blobs j) R = (None, R1) \<and> reg_evolves V R R1 \<and> rg_fs R1 = rg_fs R \<and> rg_tags R1 = rg_tags R"
    by (rule first_missing_none [OF assms(1)]) (use assms(2) [OF Some] in blast)
  with Some show ?thesis by (auto simp: check_manifest_blobs_present_def reg_evolves_def)
qed (simp add: check_manifest_blobs_present_def)

text \<open>A stored blob leaves the directory of its repository, and the names of the tag file in it, usable.\<close>

lemma put_blob_leaves_clear:
  assumes p: "put_blob_buffered sha ck repo d b S f = (Inr m, S', g)" and wf: "wf_digest d" and rc: "repo_clear (layout S) repo f"
  defines "D \<equiv> rdir (layout S) repo"
  shows "no_faults g" and "dir_clear g D"
    and "lookup f (D @ [t]) \<noteq> Some FDir \<Longrightarrow> t \<notin> {''blobs'', ''_uploads''} \<Longrightarrow> lookup g (D @ [t]) \<noteq> Some FDir"
proof -
  let ?L = "layout S"
  from p have w: "write_via_tempfile (wall ck) (tempfile_path ck ?L repo) (blob_path ?L repo d) b f = (Inr (), g)"
    by (cases rule: put_blob_cases [of sha b d ck repo S f]) auto
  show "no_faults g" using safe_put_blob [OF wf p] rc by (simp add: safe_change_def repo_clear_def no_faults_def)
  have "file_at g (take k D) = None" if "k \<le> length D" for k
  proof -
    have "length (take k D) < length (resolve (tempfile_path ck ?L repo))" "length (take k D) < length (resolve (blob_path ?L repo d))"
      using wf that by (simp_all add: path_simps slot_def D_def)
    then have "take k D \<notin> {resolve (tempfile_path ck ?L repo), resolve (blob_path ?L repo d)}" by (metis insertE less_irrefl singletonD)
    from fs_call.frame [OF write_via_tempfile_call this, of "wall ck" b f] w have "file_at g (take k D) = file_at f (take k D)" by simp
    also have "\<dots> = None" using rc that by (auto simp: repo_clear_def D_def dest: dir_clear_append)
    finally show ?thesis .
  qed
  then show "dir_clear g D" by (simp add: dir_clear_file_at)
  show "lookup g (D @ [t]) \<noteq> Some FDir" if "lookup f (D @ [t]) \<noteq> Some FDir" "t \<notin> {''blobs'', ''_uploads''}"
    using write_via_tempfile_dirs [OF w, of "D @ [t]"] that wf by (auto simp: path_simps slot_def D_def)
qed

lemma store_manifest_answer:
  assumes "header_value_ok repo" and "wf_digest d" and "digest_parse_ok reference = None"
    and "put_blob_buffered (ev_sha V) ck repo d b (rg_storage R) (rg_fs R) = (Inr m, S, g)"
    and "tags_set (ev_tags_codec V) ck repo reference d (rg_tags R) g = (Inr (), T, h)"
  shows "rp_status (fst (store_manifest V ck repo reference headers d b R)) = 201"
  using assms created_built [OF assms(1,2), of headers] by (simp add: store_manifest_def Let_def)

lemma manifest_push_succeeds:
  assumes clear: "repo_clear (layout (rg_storage R)) repo (rg_fs R)" and sha: "sha_ok (ev_sha V)"
    and b: "collect_body body max_manifest_body = Inr b" and tag: "digest_parse_ok reference = None"
    and L: "lt_layout (rg_tags R) = layout (rg_storage R)" and codec: "\<And>v. to_vec_pretty (ev_tags_codec V) v \<noteq> None"
    and name: "header_value_ok repo"
    and present: "\<And>j s. ev_json V b = Some j \<Longrightarrow> s \<in> set (required_blobs j) \<Longrightarrow>
      \<exists>e c. digest_parse s = Inr e \<and> file_at (rg_fs R) (resolve (blob_path (layout (rg_storage R)) repo e)) = Some c"
    and free: "\<And>q. q \<in> {resolve (tempfile_path ck (layout (rg_storage R)) repo),
        resolve (blob_path (layout (rg_storage R)) repo (sha256_digest (ev_sha V b))),
        rdir (layout (rg_storage R)) repo @ [''_local_tags.json''], rdir (layout (rg_storage R)) repo @ [''_local_tags.json.tmp'']} \<Longrightarrow>
      lookup (rg_fs R) q \<noteq> Some FDir"
  shows "rp_status (fst (put_manifest V ck repo reference headers body R)) = 201"
proof -
  let ?S = "rg_storage R" and ?d = "sha256_digest (ev_sha V b)"
  let ?L = "layout ?S" let ?D = "rdir ?L repo"
  define Q where "Q = {resolve (tempfile_path ck ?L repo), resolve (blob_path ?L repo ?d), ?D @ [''_local_tags.json''], ?D @ [''_local_tags.json.tmp'']}"
  have wf: "wf_digest ?d" using sha by simp
  obtain f where e: "ensure_repo repo ?S (rg_fs R) = (Inr (), f)" and rc: "repo_clear ?L repo f" and fa: "file_at f = file_at (rg_fs R)"
    and ed: "\<And>q. lookup f q = Some FDir \<Longrightarrow> lookup (rg_fs R) q = Some FDir \<or>
      prefix q (?D @ [''blobs'', ''sha256'']) \<or> prefix q (?D @ [''_uploads''])"
    using ensure_repo_ok [OF clear] by blast
  have "\<not> prefix q (?D @ [''blobs'', ''sha256''])" "\<not> prefix q (?D @ [''_uploads''])" if "q \<in> Q" for q
    using that wf by (auto simp: Q_def path_simps slot_def)
  with ed free have free1: "lookup f q \<noteq> Some FDir" if "q \<in> Q" for q using that by (metis Q_def)
  obtain R1 where c: "check_manifest_blobs_present V ck repo b (R\<lparr>rg_fs := f\<rparr>) = (None, R1)"
    and R1: "rg_fs R1 = f" "layout (rg_storage R1) = ?L" "rg_tags R1 = rg_tags R"
    using check_present_ok [of "R\<lparr>rg_fs := f\<rparr>" V b repo ck] rc present fa by (auto simp: repo_clear_def)
  obtain m S g where p: "put_blob_buffered (ev_sha V) ck repo ?d b (rg_storage R1) f = (Inr m, S, g)"
    using put_blob_succeeds [of "rg_storage R1" repo f ?d "ev_sha V" b ck] rc wf free1 R1 by (auto simp: Q_def)
  note g = put_blob_leaves_clear [OF p wf, unfolded R1, OF rc]
  have t: "lookup g (?D @ [''_local_tags.json'']) \<noteq> Some FDir" "lookup g (?D @ [''_local_tags.json.tmp'']) \<noteq> Some FDir"
    by (rule g(3); use free1 in \<open>simp add: Q_def\<close>)+
  have "\<exists>T h. tags_set (ev_tags_codec V) ck repo reference ?d (rg_tags R1) g = (Inr (), T, h)"
    using write_atomic_ok [OF g(1,2) t codec] by (auto simp: tags_set_def Let_def R1 L split: prod.splits) (metis prod.inject)
  then obtain T h where ts: "tags_set (ev_tags_codec V) ck repo reference ?d (rg_tags R1) g = (Inr (), T, h)" by blast
  have "rp_status (fst (store_manifest V ck repo reference headers ?d b R1)) = 201"
    by (rule store_manifest_answer [OF name wf tag _ ts]) (simp add: R1 p)
  then show ?thesis using e c digest_parse_prefix [OF sha_okD [OF sha]] tag b by (simp add: put_manifest_def Let_def)
qed

text \<open>A first push to the demonstration registry.\<close>

lemma demo_reg_simps [simp]: "layout (rg_storage demo_reg) = \<lparr>root = [''q'']\<rparr>" "rg_fs demo_reg = demo_fs"
  "lt_layout (rg_tags demo_reg) = \<lparr>root = [''q'']\<rparr>" "meta_sound (rg_storage demo_reg) demo_fs" "ev_sha demo_env = demo_sha"
  "ev_json demo_env b = None" "ev_upstreams demo_env = []" "reg_inv demo_env demo_reg"
  using inv_start [of demo_env demo_fs "tcache_new 300 (Some \<lparr>root = [''q'']\<rparr>)"]
  by (simp_all add: demo_reg_def reg_start_def storage_new_def tags_new_def demo_env_def meta_sound_def cache_new_def tcache_ok_new)

lemma demo_tag: "digest_parse_ok ''v1'' = None"
  by code_simp

lemma demo_body: "collect_body [Inr [1, 2]] max_manifest_body = Inr [1, 2]"
  by (simp add: collect_body_def max_manifest_body_def)

lemma demo_push: "\<exists>resp R. put_manifest demo_env demo_clock ''a/b'' ''v1'' [] [Inr [1, 2]] demo_reg = (resp, R) \<and> rp_status resp = 201"
proof -
  have "rp_status (fst (put_manifest demo_env demo_clock ''a/b'' ''v1'' [] [Inr [1, 2]] demo_reg)) = 201"
    by (rule manifest_push_succeeds [OF _ _ demo_body demo_tag])
      (auto simp: path_simps slot_def demo_env_def demo_codec_def header_simps)
  then show ?thesis by (metis prod.collapse)
qed

lemma default_media_type: "header_value_ok (sniff_manifest_content_type (ev_json demo_env) b)"
  by (simp add: sniff_manifest_content_type_def header_simps)


theorem manifest_push_pull_witness:
  "\<exists>resp R. put_manifest demo_env demo_clock ''a/b'' ''v1'' [] [Inr [1, 2]] demo_reg = (resp, R) \<and> rp_status resp = 201 \<and>
     rp_body (fst (get_manifest demo_env demo_clock ''a/b'' ''v1'' True R)) = Full [1, 2]"
proof -
  obtain resp R where p: "put_manifest demo_env demo_clock ''a/b'' ''v1'' [] [Inr [1, 2]] demo_reg = (resp, R)" and st: "rp_status resp = 201"
    using demo_push by blast
  from manifest_push_pull [OF _ _ demo_body p st, of demo_clock] p st show ?thesis  by (auto simp: Let_def default_media_type)
qed


text \<open>An upstream whose manifests do not have the digest it reports.\<close>

definition lying_upstream :: "unit upstream_entry" where
  "lying_upstream =
     \<lparr>ue_config = \<lparr>uc_name = ''u'', uc_url = ''h'', uc_kind = Generic, uc_repo_prefix = ''a'', uc_auth = None\<rparr>,
      ue_client = \<lparr>cl_resolve_tag = (\<lambda>n r t w. (Inl UpMissingDigest, w)),
        cl_get_manifest = (\<lambda>n r t w. (Inr \<lparr>mr_bytes = [1], mr_content_type = ''x'', mr_digest = sha256_digest (demo_sha [1, 2])\<rparr>, w)),
        cl_stream_blob = (\<lambda>n r d w. (Inr [], w)), cl_list_tags = (\<lambda>n r w. (Inr [], w))\<rparr>\<rparr>"

definition lying_env :: "unit reg_env" where
  "lying_env = demo_env\<lparr>ev_upstreams := [lying_upstream]\<rparr>"

theorem upstream_manifest_unverified_witness:
  "\<exists>R'. get_manifest lying_env demo_clock ''a/b'' (digest_to_string (sha256_digest (demo_sha [1, 2]))) True demo_reg =
      (build_manifest_response [1] ''x'' (sha256_digest (demo_sha [1, 2])) True, R') \<and> demo_sha [1] \<noteq> demo_sha [1, 2] \<and> rg_fs R' = demo_fs"
proof -
  let ?d = "sha256_digest (demo_sha [1, 2])"
  have dp: "digest_parse (digest_to_string ?d) = Inr ?d" by (simp add: digest_parse_to_string)
  have "blob_meta_of demo_clock ''a/b'' ?d demo_fs (rg_storage demo_reg) = (Inr None, rg_storage demo_reg)"
    by (simp add: blob_meta_of_def demo_reg_def reg_start_def storage_new_def cache_new_def cache_get_def fs_metadata_def node_at_def
        demo_fs_def lookup_def missing_err_def failing_def path_simps list_ex_iff Let_def)
  then have m: "reg_blob_meta demo_clock ''a/b'' ?d demo_reg = (Inr None, demo_reg)" by (simp add: reg_blob_meta_def)
  have ne: "demo_sha [1] \<noteq> demo_sha [1, 2]" by (simp add: demo_sha_def hex_digit_def)
  have r: "route (ev_upstreams lying_env) ''a/b'' = Some lying_upstream"
    by (simp add: lying_env_def lying_upstream_def route_def starts_with_def)
  from upstream_manifest_unverified [OF dp m r] ne show ?thesis
    by (auto simp: lying_upstream_def lying_env_def)
qed

section \<open>Routing\<close>

text \<open>The path of an action, below \<^verbatim>\<open>/v2/<repo>\<close>, and the segments that can stand in it.\<close>

fun action_path :: "action \<Rightarrow> string" where
  "action_path (Blob d) = ''/blobs/'' @ d"
| "action_path (Manifest r) = ''/manifests/'' @ r"
| "action_path TagsList = ''/tags/list''"
| "action_path UploadInit = ''/blobs/uploads/''"
| "action_path (UploadSession s) = ''/blobs/uploads/'' @ s"
| "action_path UnknownAction = []"

fun action_ok :: "action \<Rightarrow> bool" where
  "action_ok (Blob d) \<longleftrightarrow> d \<noteq> [] \<and> CHR ''/'' \<notin> set d \<and> d \<noteq> ''uploads''"
| "action_ok (Manifest r) \<longleftrightarrow> r \<noteq> [] \<and> CHR ''/'' \<notin> set r"
| "action_ok (UploadSession s) \<longleftrightarrow> s \<noteq> [] \<and> CHR ''/'' \<notin> set s"
| "action_ok UnknownAction \<longleftrightarrow> False"
| "action_ok _ \<longleftrightarrow> True"

lemma last_segment_unique:
  assumes "a @ c # s = b @ c # t" and "c \<notin> set s" "c \<notin> set t"
  shows "a = b \<and> s = t"
proof -
  have "Some (a, s) = rsplit_once [c] (a @ c # s)" using rsplit_once_char [OF assms(2)] by (rule sym)
  also have "\<dots> = Some (b, t)" unfolding assms(1) by (rule rsplit_once_char [OF assms(3)])
  finally show ?thesis by simp
qed

lemma rsplit_segment_Some:
  assumes p: "p = p0 @ ''/''"
  shows "rsplit_segment p rest = Some (repo, s) \<longleftrightarrow> rest = repo @ p @ s \<and> s \<noteq> [] \<and> CHR ''/'' \<notin> set s"
proof
  assume "rsplit_segment p rest = Some (repo, s)"
  then show "rest = repo @ p @ s \<and> s \<noteq> [] \<and> CHR ''/'' \<notin> set s"
    by (auto simp: rsplit_segment_def dest: rsplit_once_SomeD split: option.splits if_splits)
next
  assume r: "rest = repo @ p @ s \<and> s \<noteq> [] \<and> CHR ''/'' \<notin> set s"
  then obtain a b where ab: "rsplit_once p rest = Some (a, b)"
    using rsplit_once_None [of p rest] by (cases "rsplit_once p rest") auto
  have l: "length repo \<le> length a" by (rule rsplit_once_last [OF ab]) (use r in simp)
  from rsplit_once_SomeD [OF ab] r have e: "a @ p @ b = repo @ p @ s" by simp
  then have "drop (length (a @ p)) (repo @ p @ s) = b" by (metis append.assoc append_eq_conv_conj)
  then have "set b \<subseteq> set s" using l set_drop_subset [of _ s] by auto
  with r have "CHR ''/'' \<notin> set b" by auto
  with e r have "a @ p0 = repo @ p0 \<and> b = s" using last_segment_unique [of "a @ p0" "CHR ''/''" b "repo @ p0" s] by (simp add: p)
  with ab r show "rsplit_segment p rest = Some (repo, s)" by (simp add: rsplit_segment_def)
qed

lemma segments_Some:
  "rsplit_segment ''/blobs/uploads/'' rest = Some (repo, s) \<longleftrightarrow> rest = repo @ ''/blobs/uploads/'' @ s \<and> s \<noteq> [] \<and> CHR ''/'' \<notin> set s"
  "rsplit_segment ''/blobs/'' rest = Some (repo, s) \<longleftrightarrow> rest = repo @ ''/blobs/'' @ s \<and> s \<noteq> [] \<and> CHR ''/'' \<notin> set s"
  "rsplit_segment ''/manifests/'' rest = Some (repo, s) \<longleftrightarrow> rest = repo @ ''/manifests/'' @ s \<and> s \<noteq> [] \<and> CHR ''/'' \<notin> set s"
  by (rule rsplit_segment_Some [of _ "''/blobs/uploads''"] rsplit_segment_Some [of _ "''/blobs''"] rsplit_segment_Some [of _ "''/manifests''"]; simp)+

lemma segments_None:
  assumes "p = p0 @ CHR ''/'' # q @ ''/''" and "CHR ''/'' \<notin> set q" "CHR ''/'' \<notin> set t" "CHR ''/'' \<notin> set u" and "q \<noteq> t"
  shows "rsplit_segment p (repo @ CHR ''/'' # t @ CHR ''/'' # u) = None"
proof (rule ccontr)
  assume "\<not> ?thesis"
  then obtain a s where "rsplit_segment p (repo @ CHR ''/'' # t @ CHR ''/'' # u) = Some (a, s)" by auto
  then have e: "repo @ CHR ''/'' # t @ CHR ''/'' # u = a @ p @ s" and s: "CHR ''/'' \<notin> set s"
    using rsplit_segment_Some [of p "p0 @ CHR ''/'' # q"] assms(1) by auto
  then have "repo @ CHR ''/'' # t = a @ p0 @ CHR ''/'' # q"
    using last_segment_unique [of "repo @ CHR ''/'' # t" "CHR ''/''" u "a @ p0 @ CHR ''/'' # q" s] assms by simp
  with last_segment_unique [of repo "CHR ''/''" t "a @ p0" q] assms show False by simp
qed

lemma suffix_None:
  assumes "p = p0 @ CHR ''/'' # q" and "CHR ''/'' \<notin> set q" "CHR ''/'' \<notin> set t" and "q \<noteq> t"
  shows "strip_suffix_str p (repo @ CHR ''/'' # t) = None"
proof (rule ccontr)
  assume "\<not> ?thesis"
  then obtain a where "repo @ CHR ''/'' # t = a @ p" by auto
  with last_segment_unique [of repo "CHR ''/''" t "a @ p0" q] assms show False by simp
qed


lemma suffix2_None:
  assumes "p = p0 @ CHR ''/'' # q @ CHR ''/'' # v" and "CHR ''/'' \<notin> set q" "CHR ''/'' \<notin> set v" "CHR ''/'' \<notin> set t" "CHR ''/'' \<notin> set u" and "q \<noteq> t"
  shows "strip_suffix_str p (repo @ CHR ''/'' # t @ CHR ''/'' # u) = None"
proof (rule ccontr)
  assume "\<not> ?thesis"
  then obtain a where "repo @ CHR ''/'' # t @ CHR ''/'' # u = a @ p" by auto
  then have "repo @ CHR ''/'' # t = a @ p0 @ CHR ''/'' # q"
    using last_segment_unique [of "repo @ CHR ''/'' # t" "CHR ''/''" u "a @ p0 @ CHR ''/'' # q" v] assms by simp
  with last_segment_unique [of repo "CHR ''/''" t "a @ p0" q] assms show False by simp
qed

text \<open>A path that ends in two segments \<open>t\<close> and \<open>u\<close> matches only the pattern of \<open>t\<close>.\<close>

lemma two_segments:
  fixes repo t u :: string
  assumes t: "CHR ''/'' \<notin> set t" and u: "CHR ''/'' \<notin> set u" "u \<noteq> []"
  defines "p \<equiv> repo @ CHR ''/'' # t @ CHR ''/'' # u"
  shows "strip_suffix_str ''/blobs/uploads/'' p = None"
    and "t \<noteq> ''blobs'' \<or> u \<noteq> ''uploads'' \<Longrightarrow> strip_suffix_str ''/blobs/uploads'' p = None"
    and "t \<noteq> ''uploads'' \<Longrightarrow> rsplit_segment ''/blobs/uploads/'' p = None"
    and "t \<noteq> ''blobs'' \<Longrightarrow> rsplit_segment ''/blobs/'' p = None"
    and "t \<noteq> ''manifests'' \<Longrightarrow> rsplit_segment ''/manifests/'' p = None"
proof -
  show "strip_suffix_str ''/blobs/uploads/'' p = None"
    using suffix_None [of "''/blobs/uploads/''" "''/blobs/uploads''" "[]" u "repo @ CHR ''/'' # t"] u by (simp add: p_def)
  show "strip_suffix_str ''/blobs/uploads'' p = None" if "t \<noteq> ''blobs'' \<or> u \<noteq> ''uploads''"
    using suffix2_None [of "''/blobs/uploads''" "[]" "''blobs''" "''uploads''" t u repo]
      suffix_None [of "''/blobs/uploads''" "''/blobs''" "''uploads''" u "repo @ CHR ''/'' # t"] t u that by (auto simp: p_def)
  show "rsplit_segment ''/blobs/uploads/'' p = None" if "t \<noteq> ''uploads''"
    using segments_None [of "''/blobs/uploads/''" "''/blobs''" "''uploads''" t u repo] t u that by (simp add: p_def)
  show "rsplit_segment ''/blobs/'' p = None" if "t \<noteq> ''blobs''"
    using segments_None [of "''/blobs/''" "[]" "''blobs''" t u repo] t u that by (simp add: p_def)
  show "rsplit_segment ''/manifests/'' p = None" if "t \<noteq> ''manifests''"
    using segments_None [of "''/manifests/''" "[]" "''manifests''" t u repo] t u that by (simp add: p_def)
qed

lemma split_path_inverse:
  assumes "action_ok a"
  shows "split_path (repo @ action_path a) = (repo, a)"
proof (cases a)
  case (Blob d)
  with assms have d: "CHR ''/'' \<notin> set d" "d \<noteq> []" "d \<noteq> ''uploads''" by auto
  have "rsplit_segment ''/blobs/'' (repo @ ''/blobs/'' @ d) = Some (repo, d)" using d by (simp add: segments_Some)
  with two_segments [of "''blobs''" d repo] d Blob show ?thesis by (simp add: split_path_def)
next
  case (Manifest r)
  with assms have r: "CHR ''/'' \<notin> set r" "r \<noteq> []" by auto
  have "rsplit_segment ''/manifests/'' (repo @ ''/manifests/'' @ r) = Some (repo, r)" using r by (simp add: segments_Some)
  with two_segments [of "''manifests''" r repo] r Manifest show ?thesis by (simp add: split_path_def)
next
  case TagsList
  have "strip_suffix_str ''/tags/list'' (repo @ ''/tags/list'') = Some repo" by simp
  with two_segments [of "''tags''" "''list''" repo] TagsList show ?thesis by (simp add: split_path_def del: strip_suffix_str_Some)
next
  case UploadInit
  moreover have "strip_suffix_str ''/blobs/uploads/'' (repo @ ''/blobs/uploads/'') = Some repo" by simp
  ultimately show ?thesis by (simp add: split_path_def del: strip_suffix_str_Some)
next
  case (UploadSession s)
  with assms have s: "CHR ''/'' \<notin> set s" "s \<noteq> []" by auto
  have "rsplit_segment ''/blobs/uploads/'' (repo @ ''/blobs/uploads/'' @ s) = Some (repo, s)" using s by (simp add: segments_Some)
  with two_segments [of "''uploads''" s "repo @ ''/blobs''"] s UploadSession show ?thesis by (simp add: split_path_def)
qed (use assms in simp)

lemma split_path_sound:
  assumes s: "split_path rest = (repo, b)" and n: "b \<noteq> UnknownAction"
  shows "action_ok b" and "rest = repo @ action_path b \<or> b = UploadInit \<and> rest = repo @ ''/blobs/uploads''"
proof -
  have u: "d \<noteq> ''uploads''" if "strip_suffix_str ''/blobs/uploads'' (repo @ ''/blobs/'' @ d) = None" for d
    using that strip_suffix_str_Some [of "''/blobs/uploads''" "repo @ ''/blobs/'' @ d" repo] by auto
  from s n u show "action_ok b" "rest = repo @ action_path b \<or> b = UploadInit \<and> rest = repo @ ''/blobs/uploads''"
    by (auto simp: split_path_def segments_Some split: option.splits)
qed

text \<open>
  C35. Paths are routed as the distribution API prescribes: the path of every action is parsed back to the
  repository, whatever its name, and the action, when the last segment is not empty and has no slash and a
  blob is not called \<^verbatim>\<open>uploads\<close>; and a path that is recognised is the path of the action found, or the
  form of an upload start without its trailing slash.
\<close>

theorem split_path_roundtrip:
  "(action_ok a \<longrightarrow> split_path (repo @ action_path a) = (repo, a)) \<and>
   (split_path rest = (repo, b) \<longrightarrow> b \<noteq> UnknownAction \<longrightarrow>
      action_ok b \<and> (rest = repo @ action_path b \<or> b = UploadInit \<and> rest = repo @ ''/blobs/uploads''))"
  using split_path_inverse split_path_sound by blast

theorem split_path_roundtrip_witness:
  "split_path ''a/b/blobs/sha256:00'' = (''a/b'', Blob ''sha256:00'') \<and> action_ok (Blob ''sha256:00'')"
  using split_path_roundtrip [of "Blob ''sha256:00''" "''a/b''" "[]" UnknownAction] by simp

end
