(* ===== verification/Registry_Types.thy ===== *)
theory Registry_Types
  imports Registry
begin

text \<open>
  The type of the registry's answers: for every method the status codes of success, and for every error
  the JSON envelope with a status and a code that belong together; and when a handler panics instead.
\<close>

section \<open>Well-typed answers\<close>

fun success_codes :: "http_method \<Rightarrow> nat list" where
  "success_codes GET = [200, 304]"
| "success_codes HEAD = [200, 304]"
| "success_codes POST = [202]"
| "success_codes PATCH = [202]"
| "success_codes PUT = [201]"
| "success_codes DELETE = [202]"
| "success_codes (OtherMethod m) = []"

definition success_typed :: "http_method \<Rightarrow> response \<Rightarrow> bool" where
  "success_typed m r \<longleftrightarrow> rp_status r \<in> set (success_codes m) \<and> (m \<noteq> GET \<longrightarrow> rp_body r = NoBody)"

definition error_table :: "(nat \<times> registry_error_code) list" where
  "error_table =
     [(400, Unknown), (400, DigestInvalid), (400, ManifestInvalid),
      (404, NameUnknown), (404, BlobUnknown), (404, ManifestUnknown), (404, BlobUploadUnknown),
      (405, Unsupported), (413, SizeInvalid), (500, Unknown)]"

definition error_typed :: "response \<Rightarrow> bool" where
  "error_typed r \<longleftrightarrow> (\<exists>(s, c) \<in> set error_table. \<exists>message. r = error_new s c message)"

definition typed :: "http_method \<Rightarrow> response \<Rightarrow> bool" where
  "typed m r \<longleftrightarrow> success_typed m r \<or> error_typed r \<or> r = panicked"

lemma error_new_typed [simp]: "(s, c) \<in> set error_table \<Longrightarrow> typed m (error_new s c message)"
  by (auto simp: typed_def error_typed_def)

lemma error_typed [simp]:
  "typed m (internal_err x)" "typed m (blob_unknown x)" "typed m (manifest_unknown x)" "typed m (name_unknown x)"
  "typed m (digest_invalid x)" "typed m upload_unknown" "typed m unsupported"
  by (simp_all add: internal_err_def blob_unknown_def manifest_unknown_def name_unknown_def digest_invalid_def
      upload_unknown_def unsupported_def error_table_def)

lemma success_typed [simp]:
  "s \<in> set (success_codes m) \<Longrightarrow> m = GET \<or> b = NoBody \<Longrightarrow> typed m \<lparr>rp_status = s, rp_headers = hs, rp_body = b\<rparr>"
  by (auto simp: typed_def success_typed_def)

lemma typed_expect_built [simp]: "typed m r \<Longrightarrow> typed m (expect_built r)"
  using expect_built_cases [of r] by (auto simp: typed_def)

lemma body_error_typed: "collect_body body n = Inl r \<Longrightarrow> typed m r"
  by (auto simp: collect_body_def error_table_def split: sum.splits if_splits)

section \<open>The handlers\<close>

lemma typed_serve_local_blob: "b \<longleftrightarrow> m = GET \<Longrightarrow> m = GET \<or> m = HEAD \<Longrightarrow> typed m (serve_local_blob V x d b f)"
  by (auto simp: serve_local_blob_def Let_def split: sum.splits)

definition reply_typed :: "http_method \<Rightarrow> reply \<Rightarrow> bool" where
  "reply_typed m rep \<longleftrightarrow> (case rep of Ready r \<Rightarrow> typed m r | AwaitEntry i d \<Rightarrow> m = HEAD \<and> (\<forall>out. typed m (head_reply d out)))"

lemma reply_typed_Ready [simp]: "reply_typed m (Ready r) = typed m r"
  by (simp add: reply_typed_def)

lemma typed_head_reply: "typed HEAD (head_reply d out)"
  by (auto simp: head_reply_def split: option.splits producer_outcome.splits)

lemma typed_pullthrough:
  "b \<longleftrightarrow> m = GET \<Longrightarrow> m = GET \<or> m = HEAD \<Longrightarrow> reply_typed m (fst (serve_blob_via_pullthrough u repo d b R))"
  by (auto simp: serve_blob_via_pullthrough_def Let_def reply_typed_def typed_head_reply split: prod.splits)

lemma typed_get_blob: "b \<longleftrightarrow> m = GET \<Longrightarrow> m = GET \<or> m = HEAD \<Longrightarrow> reply_typed m (fst (get_blob V ck repo d b R))"
  using typed_pullthrough [of b m] typed_serve_local_blob [of b m]
  by (auto simp: get_blob_def split: sum.splits prod.splits option.splits)

lemma typed_build: "b \<longleftrightarrow> m = GET \<Longrightarrow> m = GET \<or> m = HEAD \<Longrightarrow> typed m (build_manifest_response x ct d b)"
  by (auto simp: build_manifest_response_def)

lemma typed_local_manifest:
  "b \<longleftrightarrow> m = GET \<Longrightarrow> m = GET \<or> m = HEAD \<Longrightarrow> typed m (fst (serve_local_manifest V ck repo d reference b R))"
  using typed_build [of b m] by (auto simp: serve_local_manifest_def split: sum.splits prod.splits option.splits)

lemma typed_fetch:
  "b \<longleftrightarrow> m = GET \<Longrightarrow> m = GET \<or> m = HEAD \<Longrightarrow> typed m (fst (fetch_and_serve_upstream_manifest V ck u repo reference b R))"
  using typed_build [of b m] by (auto simp: fetch_and_serve_upstream_manifest_def Let_def split: sum.splits prod.splits)

lemma typed_if_local:
  "b \<longleftrightarrow> m = GET \<Longrightarrow> m = GET \<or> m = HEAD \<Longrightarrow> serve_if_local V ck repo d reference b R = (Some r, R') \<Longrightarrow> typed m r"
  using typed_local_manifest [of b m V ck repo d reference]
  by (auto simp: serve_if_local_def split: sum.splits prod.splits option.splits) (metis fst_conv)+

lemma typed_cached_tag:
  assumes "b \<longleftrightarrow> m = GET" and "m = GET \<or> m = HEAD" and "serve_cached_tag V ck repo reference b R = (Some r, R')"
  shows "typed m r"
  using assms(3) typed_if_local [OF assms(1,2)]
  by (auto simp: serve_cached_tag_def split: tag_cache_state.splits option.splits sum.splits prod.splits if_splits)

lemma typed_get_manifest:
  "b \<longleftrightarrow> m = GET \<Longrightarrow> m = GET \<or> m = HEAD \<Longrightarrow> typed m (fst (get_manifest V ck repo reference b R))"
  using typed_local_manifest [of b m] typed_fetch [of b m] typed_cached_tag [of b m V ck repo reference R]
  by (auto simp: get_manifest_def split: sum.splits prod.splits option.splits)

lemma typed_if_none_match: "m = GET \<or> m = HEAD \<Longrightarrow> typed m r \<Longrightarrow> typed m (apply_if_none_match hs r)"
  by (auto simp: apply_if_none_match_def split: option.splits)

lemma typed_reg_delete_blob: "typed DELETE (fst (reg_delete_blob V repo d R))"
  by (auto simp: reg_delete_blob_def split: sum.splits prod.splits storage_error.splits)

lemma typed_delete_manifest: "typed DELETE (fst (delete_manifest V ck repo reference R))"
  by (auto simp: delete_manifest_def Let_def split: sum.splits prod.splits storage_error.splits option.splits bool.splits)

lemma typed_list_tags: "typed GET (fst (list_tags V ck repo R))"
  by (auto simp: list_tags_def Let_def json_ok_def split: sum.splits prod.splits option.splits)

lemma typed_catalog: "typed GET (catalog V R)"
  by (auto simp: catalog_def json_ok_def split: sum.splits)

lemma typed_upload_init: "typed POST (fst (upload_init V ck repo R))"
  by (auto simp: upload_init_def split: sum.splits prod.splits)

lemma typed_upload_patch: "typed PATCH (fst (upload_patch V ck repo s body R))"
  by (auto simp: upload_patch_def split: sum.splits prod.splits upload_error.splits dest: body_error_typed)

lemma typed_upload_put: "typed PUT (fst (upload_put V ck repo s query body R))"
  by (auto simp: upload_put_def error_table_def split: sum.splits prod.splits upload_error.splits option.splits
      dest: body_error_typed)

lemma typed_store_manifest: "typed PUT (fst (store_manifest V ck repo reference hs d b R))"
  by (auto simp: store_manifest_def Let_def split: sum.splits prod.splits)

lemma typed_put_manifest: "typed PUT (fst (put_manifest V ck repo reference hs body R))"
  using typed_store_manifest
  by (auto simp: put_manifest_def Let_def error_table_def split: sum.splits prod.splits option.splits dest: body_error_typed)

lemma typed_ready [simp]: "reply_typed m (fst (ready x)) = typed m (fst x)"
  by (simp add: ready_def)

lemma typed_dispatch:
  assumes "rest \<noteq> ''_catalog''"
  shows "reply_typed (hq_method q) (fst (dispatch V ck rest q R))"
proof -
  obtain repo act where s: "split_path rest = (repo, act)" by fastforce
  note handlers = typed_get_blob typed_get_manifest typed_if_none_match typed_reg_delete_blob typed_delete_manifest typed_list_tags
    typed_upload_init typed_upload_patch typed_upload_put typed_put_manifest
  show ?thesis
    using assms by (cases "hq_method q"; cases act) (simp_all add: dispatch_def s handlers split_def)
qed


end
