(* ===== verification/Registry_Serving.thy ===== *)
theory Registry_Serving
  imports Registry_Props Registry_Types
begin

text \<open>
  How the registry answers: when a handler panics instead of answering, which sources a manifest pull by tag
  consults and in which order, and what the tag list merges.
\<close>

section \<open>When a handler panics\<close>

text \<open>Every file that could be served as a manifest has a media type that can stand in a header.\<close>

definition media_types_ok :: "'w reg_env \<Rightarrow> fs \<Rightarrow> bool" where
  "media_types_ok V f \<longleftrightarrow> (\<forall>p b. file_at f p = Some b \<longrightarrow> header_value_ok (sniff_manifest_content_type (ev_json V) b))"

lemma not_panicked [simp]:
  "\<lparr>rp_status = s, rp_headers = h, rp_body = b\<rparr> = panicked \<longleftrightarrow> s = 0 \<and> h = [] \<and> b = NoAnswer"
  "error_new s c x \<noteq> panicked" "internal_err x \<noteq> panicked" "blob_unknown x \<noteq> panicked" "manifest_unknown x \<noteq> panicked"
  "name_unknown x \<noteq> panicked" "digest_invalid x \<noteq> panicked" "upload_unknown \<noteq> panicked" "unsupported \<noteq> panicked"
  "json_ok v \<noteq> panicked"
  by (auto simp: panicked_def error_new_def registry_error_response_def internal_err_def blob_unknown_def manifest_unknown_def
      name_unknown_def digest_invalid_def upload_unknown_def unsupported_def json_ok_def)

lemma expect_built_panics [simp]:
  "expect_built \<lparr>rp_status = s, rp_headers = h, rp_body = NoBody\<rparr> = panicked \<longleftrightarrow> (\<exists>(n, v) \<in> set h. \<not> header_value_ok v)"
  by (auto simp: expect_built_def list_all_iff)

lemma body_not_panicked: "collect_body body n = Inl r \<Longrightarrow> r \<noteq> panicked"
  by (auto simp: collect_body_def split: sum.splits if_splits)

lemma hex16_header_ok [simp]: "header_value_ok (hex16 w)"
  by (auto simp: hex16_def header_value_ok_def list_all_iff)

lemma session_header_ok [simp]: "header_value_ok (new_session_id ck)"
  by (simp add: new_session_id_def Let_def)

lemma location_header_ok [simp]: "header_value_ok (upload_location repo s) \<longleftrightarrow> header_value_ok repo \<and> header_value_ok s"
  by (simp add: upload_location_def header_simps)

subsection \<open>The handlers\<close>

lemma local_manifest_answers:
  assumes "media_types_ok V (rg_fs R)" and "wf_digest d"
  shows "fst (serve_local_manifest V ck repo d reference wb R) \<noteq> panicked"
proof -
  have "header_value_ok (sniff_manifest_content_type (ev_json V) b)" if "open_blob m (rg_fs R) = Inr b" for m b
    using that assms(1) by (auto simp: media_types_ok_def open_blob_def split: sum.splits dest: read_Inr)
  then show ?thesis
    by (auto simp: serve_local_manifest_def reg_blob_meta_def read_blob_to_bytes_def manifest_response [OF assms(2)]
        split: prod.splits sum.splits option.splits)
qed

lemma fetch_answers:
  assumes "env_ok V" and "route (ev_upstreams V) repo = Some u"
  shows "fst (fetch_and_serve_upstream_manifest V ck u repo reference wb R) \<noteq> panicked"
proof -
  have c: "upstream_contract (ue_client u) (ev_sha V)" "sha_ok (ev_sha V)"
    using assms route_in by (auto simp: env_ok_def)
  note laws = upstream_contract.manifest_wf [OF c] upstream_contract.manifest_type [OF c(1)]
  show ?thesis
    by (auto simp: fetch_and_serve_upstream_manifest_def Let_def manifest_response laws split: prod.splits sum.splits)
qed

lemma if_local_answers:
  assumes "media_types_ok V (rg_fs R)" and "wf_digest d"
  shows "fst (serve_if_local V ck repo d reference wb R) \<noteq> Some panicked"
proof -
  obtain x S where m: "blob_meta_of ck repo d (rg_fs R) (rg_storage R) = (x, S)" by fastforce
  show ?thesis
    using local_manifest_answers [of V "R\<lparr>rg_storage := S\<rparr>" d ck repo reference wb] assms
    by (auto simp: serve_if_local_def reg_blob_meta_def m split: prod.splits sum.splits option.splits)
qed

lemma cached_tag_answers:
  assumes m: "media_types_ok V (rg_fs R)" and t: "tcache_ok (rg_cache R)"
  shows "fst (serve_cached_tag V ck repo reference wb R) \<noteq> Some panicked"
proof -
  have "wf_digest d" if "tcache_lookup (inst ck) (rg_cache R) repo reference \<in> {Fresh d, Stale d}" for d
    using that t by (auto simp: tcache_lookup_def dest: tcache_ok_get split: option.splits if_splits)
  moreover have "fst (serve_if_local V ck repo d reference wb R1) \<noteq> Some panicked" if "rg_fs R1 = rg_fs R" "wf_digest d" for d R1
    by (rule if_local_answers) (use m that in simp_all)
  ultimately show ?thesis
    by (auto simp: serve_cached_tag_def split: tag_cache_state.splits option.splits prod.splits sum.splits)
qed

lemma get_manifest_answers:
  assumes V: "env_ok V" and m: "media_types_ok V (rg_fs R)" and t: "tcache_ok (rg_cache R)"
  shows "fst (get_manifest V ck repo reference wb R) \<noteq> panicked"
proof -
  have l: "fst (serve_local_manifest V ck repo d reference wb (R\<lparr>rg_storage := S\<rparr>)) \<noteq> panicked" if "wf_digest d" for d S
    by (rule local_manifest_answers) (use m that in simp_all)
  have l0: "fst (serve_local_manifest V ck repo d reference wb R) \<noteq> panicked" if "wf_digest d" for d
    by (rule local_manifest_answers [OF m that])
  have f: "fst (fetch_and_serve_upstream_manifest V ck u repo reference wb R1) \<noteq> panicked" if "route (ev_upstreams V) repo = Some u" for u R1
    by (rule fetch_answers [OF V that])
  show ?thesis
    using l l0 f cached_tag_answers [OF m t, of ck repo reference wb]
    by (auto simp: get_manifest_def reg_blob_meta_def Option.bind_eq_Some_conv
        split: option.splits prod.splits sum.splits if_splits)
qed

lemma if_none_match_answers: "r \<noteq> panicked \<Longrightarrow> apply_if_none_match hs r \<noteq> panicked"
  by (auto simp: apply_if_none_match_def split: option.splits)

lemma get_blob_answers: "fst (get_blob V ck repo ds wb R) \<noteq> Ready panicked"
  by (auto simp: get_blob_def serve_local_blob_def serve_blob_via_pullthrough_def Let_def
      split: sum.splits prod.splits option.splits)

lemma create_session_id:
  "create_session C ck repo T f = (Inr s, T', f') \<Longrightarrow> s = new_session_id ck \<and> dm_get (up_sessions T') (repo, s) \<noteq> None"
  by (auto simp: create_session_def Let_def split: prod.splits sum.splits)

lemma upload_answers:
  assumes "header_value_ok repo"
  shows "fst (upload_init V ck repo R) \<noteq> panicked"
    and "header_value_ok s \<Longrightarrow> fst (upload_patch V ck repo s body R) \<noteq> panicked"
    and "fst (upload_put V ck repo s query body R) \<noteq> panicked"
proof -
  have "header_value_ok x" if "create_session C ck repo T f = (Inr x, T', f')" for C T f x T' f'
    using create_session_id [OF that] by simp
  with assms show "fst (upload_init V ck repo R) \<noteq> panicked"
    by (auto simp: upload_init_def header_simps split: prod.splits sum.splits)
  show "fst (upload_patch V ck repo s body R) \<noteq> panicked" if "header_value_ok s"
    using assms that by (auto simp: upload_patch_def header_simps split: prod.splits sum.splits upload_error.splits dest: body_not_panicked)
  show "fst (upload_put V ck repo s query body R) \<noteq> panicked"
    using assms by (auto simp: upload_put_def header_simps dest!: digest_parse_wf split: prod.splits sum.splits upload_error.splits option.splits dest: body_not_panicked)
qed

lemma put_manifest_answers:
  assumes "header_value_ok repo"
  shows "fst (put_manifest V ck repo reference hs body R) \<noteq> panicked"
proof -
  have "fst (store_manifest V ck repo reference hs d b R1) \<noteq> panicked" if "wf_digest d" for d b R1
    using created_built [OF assms that, of hs] by (auto simp: store_manifest_def Let_def split: prod.splits sum.splits)
  then show ?thesis
    by (auto simp: put_manifest_def Let_def split: prod.splits sum.splits option.splits dest: body_not_panicked)
qed

lemma other_answers:
  "fst (reg_delete_blob V repo ds R) \<noteq> panicked" "fst (delete_manifest V ck repo reference R) \<noteq> panicked"
  "fst (list_tags V ck repo R) \<noteq> panicked" "catalog V R \<noteq> panicked"
  by (auto simp: reg_delete_blob_def delete_manifest_def list_tags_def catalog_def Let_def
      split: prod.splits sum.splits option.splits bool.splits storage_error.splits)

lemma split_path_header_ok:
  assumes "split_path rest = (repo, act)" and "act \<noteq> UnknownAction" and "header_value_ok rest"
  shows "header_value_ok repo" and "act = UploadSession s \<Longrightarrow> header_value_ok s"
proof -
  from split_path_sound(2) [OF assms(1,2)] assms(3) show r: "header_value_ok repo" by auto
  from split_path_sound(2) [OF assms(1,2)] assms(3) show "act = UploadSession s \<Longrightarrow> header_value_ok s"
    by (auto simp: header_simps)
qed

text \<open>
  C11. A request without control characters is answered: where the path has none, the media types of the
  stored manifests have none, and the clients of the upstreams keep their contract, no handler panics while
  it builds its answer.
\<close>

theorem dispatch_answers:
  assumes "header_value_ok rest" and "media_types_ok V (rg_fs R)" and "tcache_ok (rg_cache R)" and "env_ok V"
  shows "fst (dispatch V ck rest q R) \<noteq> Ready panicked"
proof -
  obtain repo act where s: "split_path rest = (repo, act)" by fastforce
  note repo = split_path_header_ok [OF s _ assms(1)]
  have r: "fst (ready x) = Ready panicked \<longleftrightarrow> fst x = panicked" for x :: "response \<times> 'a registry" by (simp add: ready_def)
  note handlers = get_blob_answers get_manifest_answers [OF assms(4,2,3)] if_none_match_answers upload_answers put_manifest_answers other_answers
  show ?thesis
    by (cases "hq_method q"; cases act) (use repo in \<open>simp_all add: dispatch_def s r split_def handlers\<close>)
qed

lemma demo_media_types: "media_types_ok demo_env f"
  by (simp add: media_types_ok_def default_media_type)

theorem dispatch_answers_witness:
  "fst (dispatch demo_env demo_clock ''a/blobs/uploads/'' \<lparr>hq_method = POST, hq_query = [], hq_headers = [], hq_body = []\<rparr> demo_reg) \<noteq> Ready panicked"
proof (rule dispatch_answers)
  show "header_value_ok ''a/blobs/uploads/''" by (simp add: header_simps)
  show "tcache_ok (rg_cache demo_reg)" by (simp add: demo_reg_def reg_start_def)
qed (rule demo_media_types demo_env_ok)+

text \<open>
  C32. A control character in the name of a repository loses the answer, not the effect: an upload that is
  started for such a repository opens its session and writes its files, and the handler then panics on the
  location header, so that no client learns the session; for every other name the answer is 202 with the
  session's location.
\<close>

theorem upload_start_panics:
  assumes "ensure_repo repo (rg_storage R) (rg_fs R) = (Inr (), f)"
    and "create_session (ev_upload_codec V) ck repo (rg_uploads R) f = (Inr s, T, g)"
  shows "\<exists>resp. upload_init V ck repo R = (resp, R\<lparr>rg_uploads := T, rg_fs := g\<rparr>) \<and>
    dm_get (up_sessions T) (repo, s) \<noteq> None \<and>
    (if header_value_ok repo
     then rp_status resp = 202 \<and> hdr_get ''location'' (rp_headers resp) = Some (''/v2/'' @ repo @ ''/blobs/uploads/'' @ s)
     else resp = panicked)"
proof -
  have s: "s = new_session_id ck" "dm_get (up_sessions T) (repo, s) \<noteq> None" using create_session_id [OF assms(2)] by auto
  show ?thesis
    using s assms by (auto simp: upload_init_def expect_built_def header_simps upload_location_def hdr_get_def)
qed

lemma demo_upload_start:
  obtains f s T g where "ensure_repo repo (rg_storage demo_reg) (rg_fs demo_reg) = (Inr (), f)"
    and "create_session (ev_upload_codec demo_env) demo_clock repo (rg_uploads demo_reg) f = (Inr s, T, g)"
proof -
  let ?D = "rdir \<lparr>root = [''q'']\<rparr> repo"
  obtain f where e: "ensure_repo repo (rg_storage demo_reg) demo_fs = (Inr (), f)" and rc: "repo_clear \<lparr>root = [''q'']\<rparr> repo f"
    and d: "\<And>q. lookup f q = Some FDir \<Longrightarrow> q = [] \<or> prefix q (?D @ [''blobs'', ''sha256'']) \<or> prefix q (?D @ [''_uploads''])"
    using ensure_repo_ok [of "rg_storage demo_reg" repo demo_fs] by auto
  have ok: "fs_ok f" using safe_ensure_repo [OF e, of demo_sha] by (simp add: safe_change_def)
  have n: "lookup f (?D @ [''_uploads'', c]) \<noteq> Some FDir" "lookup f (slot ?D h) \<noteq> Some FDir" for c h
    using d [of "?D @ [''_uploads'', c]"] d [of "slot ?D h"] by (auto simp: slot_def)
  have L: "up_layout (rg_uploads demo_reg) = \<lparr>root = [''q'']\<rparr>" by (simp add: demo_reg_def reg_start_def uploads_new_def)
  have h: "hex64 (demo_sha [])" using demo_sha_ok by simp
  obtain T g where "create_session demo_ucodec demo_clock repo (rg_uploads demo_reg) f = (Inr (new_session_id demo_clock), T, g)"
    by (rule create_live [OF demo_ucodec_ok ok, of "rg_uploads demo_reg" repo "demo_sha []" demo_clock, unfolded L, OF rc n(1) h n(2)])
  with e that show thesis by (simp add: demo_env_def)
qed

theorem upload_start_panics_witness:
  "\<exists>R. upload_init demo_env demo_clock [CHR ''a'', CHR 0x0A] demo_reg = (panicked, R) \<and> up_sessions (rg_uploads R) \<noteq> []"
proof -
  obtain f s T g where e: "ensure_repo [CHR ''a'', CHR 0x0A] (rg_storage demo_reg) (rg_fs demo_reg) = (Inr (), f)"
    and c: "create_session (ev_upload_codec demo_env) demo_clock [CHR ''a'', CHR 0x0A] (rg_uploads demo_reg) f = (Inr s, T, g)"
    by (rule demo_upload_start)
  have "\<not> header_value_ok [CHR ''a'', CHR 0x0A]" by (simp add: header_simps)
  with upload_start_panics [OF e c] show ?thesis by (auto simp: dm_get_def)
qed

section \<open>Where a tag is resolved\<close>

text \<open>
  The specification: a tag comes from the local store or from an upstream.  A pushed tag is local; a
  cached one counts while it is fresh, or stale and not contradicted by its upstream, and only as long as
  the manifest is stored; otherwise the upstream of the repository is asked, if there is one.
\<close>

definition stored :: "'w registry \<Rightarrow> string \<Rightarrow> digest \<Rightarrow> bytes option" where
  "stored R repo d = file_at (rg_fs R) (resolve (blob_path (layout (rg_storage R)) repo d))"

datatype 'w tag_source = FromStore digest | FromUpstream "'w upstream_entry" | Nowhere

definition pushed_tag :: "'w registry \<Rightarrow> string \<Rightarrow> string \<Rightarrow> digest option" where
  "pushed_tag R repo tag = Option.bind (tags_get (rg_tags R) repo tag) (\<lambda>m. digest_parse_ok (tag_digest m))"

definition recheck :: "'w reg_env \<Rightarrow> clock \<Rightarrow> string \<Rightarrow> string \<Rightarrow> 'w registry \<Rightarrow> ((upstream_error + digest) \<times> 'w) option" where
  "recheck V ck repo tag R =
     (case (pushed_tag R repo tag, tcache_lookup (inst ck) (rg_cache R) repo tag, route (ev_upstreams V) repo) of
        (None, Stale d, Some u) \<Rightarrow> Some (cl_resolve_tag (ue_client u) (inst ck) repo tag (rg_net R))
      | _ \<Rightarrow> None)"

definition rechecked :: "'w reg_env \<Rightarrow> clock \<Rightarrow> string \<Rightarrow> string \<Rightarrow> 'w registry \<Rightarrow> 'w registry" where
  "rechecked V ck repo tag R =
     (case (tcache_lookup (inst ck) (rg_cache R) repo tag, recheck V ck repo tag R) of
        (Stale d, Some (Inr d', w)) \<Rightarrow>
          if d' = d then R\<lparr>rg_net := w, rg_cache := tcache_touch (inst ck) repo tag (rg_cache R)\<rparr> else R\<lparr>rg_net := w\<rparr>
      | (_, Some (_, w)) \<Rightarrow> R\<lparr>rg_net := w\<rparr>
      | (_, None) \<Rightarrow> R)"

definition tag_source :: "'w reg_env \<Rightarrow> clock \<Rightarrow> string \<Rightarrow> string \<Rightarrow> 'w registry \<Rightarrow> 'w tag_source" where
  "tag_source V ck repo tag R =
     (let upstream = (case route (ev_upstreams V) repo of None \<Rightarrow> Nowhere | Some u \<Rightarrow> FromUpstream u);
          kept = (\<lambda>d. if stored R repo d = None then upstream else FromStore d) in
      case (pushed_tag R repo tag, tcache_lookup (inst ck) (rg_cache R) repo tag) of
        (Some d, _) \<Rightarrow> FromStore d
      | (None, Fresh d) \<Rightarrow> kept d
      | (None, Stale d) \<Rightarrow>
          (case recheck V ck repo tag R of Some (Inr d', _) \<Rightarrow> if d' = d then kept d else upstream | _ \<Rightarrow> kept d)
      | (None, Miss) \<Rightarrow> upstream)"

lemma blob_meta_stored:
  assumes "no_faults (rg_fs R)" and "meta_sound (rg_storage R) (rg_fs R)"
  obtains (found) m S where "reg_blob_meta ck repo d R = (Inr (Some m), R\<lparr>rg_storage := S\<rparr>)" "stored R repo d \<noteq> None"
      "meta_sound S (rg_fs R)" "layout S = layout (rg_storage R)"
  | (missing) x where "reg_blob_meta ck repo d R = (x, R)" "x = Inr None \<or> (\<exists>e. x = Inl e)" "stored R repo d = None"
proof (cases rule: blob_meta_cases [of ck "rg_storage R" repo d "rg_fs R"])
  case (hit m)
  with meta_soundD [OF assms(2) hit(1)] assms(2) show thesis
    by (intro found [of m "rg_storage R"]) (auto simp: reg_blob_meta_def stored_def)
next
  case (stat m b)
  let ?S = "rg_storage R\<lparr>meta_cache := cache_insert repo d m (meta_cache (rg_storage R))\<rparr>"
  from stat meta_sound_insert [OF assms(2) stat(2), of m] show thesis
    by (intro found [of m ?S]) (simp_all add: reg_blob_meta_def stored_def)
next
  case absent
  then show thesis by (intro missing) (auto simp: reg_blob_meta_def stored_def)
next
  case (error e)
  have "stored R repo d = None"
    using error blob_meta_found [OF assms(1), of "rg_storage R" repo d _ ck] by (cases "stored R repo d") (auto simp: stored_def)
  with error show thesis by (intro missing [of "Inl (SIo e)"]) (simp_all add: reg_blob_meta_def)
qed

text \<open>Serving from the store, on a file system without faults and with a sound metadata cache.\<close>

definition store_sound :: "'w registry \<Rightarrow> bool" where
  "store_sound R \<longleftrightarrow> no_faults (rg_fs R) \<and> meta_sound (rg_storage R) (rg_fs R)"

definition store_answer :: "'w reg_env \<Rightarrow> digest \<Rightarrow> bool \<Rightarrow> bytes \<Rightarrow> response" where
  "store_answer V d wb b = build_manifest_response b (sniff_manifest_content_type (ev_json V) b) d wb"

lemma serve_local_source:
  assumes R: "store_sound R" and wf: "wf_digest d"
  shows "\<exists>resp S. serve_local_manifest V ck repo d reference wb R = (resp, R\<lparr>rg_storage := S\<rparr>) \<and>
    (case stored R repo d of Some b \<Rightarrow> resp = store_answer V d wb b | None \<Rightarrow> rp_status resp \<in> {404, 500})"
proof (cases "stored R repo d")
  case (Some b)
  then have "file_at (rg_fs R) (slot (rdir (layout (rg_storage R)) repo) (hex d)) = Some b"
    using wf by (simp add: stored_def resolve_blob_path)
  moreover have "meta_paths (rg_storage R)" using R by (auto simp: store_sound_def meta_sound_def meta_paths_def)
  ultimately show ?thesis
    using serve_local_stored [of R d repo b V ck reference wb] R wf Some by (auto simp: store_sound_def store_answer_def)
next
  case None
  from R have "no_faults (rg_fs R)" "meta_sound (rg_storage R) (rg_fs R)" by (simp_all add: store_sound_def)
  then show ?thesis
  proof (cases rule: blob_meta_stored [of R ck repo d])
    case (missing x)
    then have "\<exists>resp. serve_local_manifest V ck repo d reference wb R = (resp, R) \<and> rp_status resp \<in> {404, 500}"
      by (auto simp: serve_local_manifest_def manifest_unknown_def internal_err_def error_new_def registry_error_response_def)
    then obtain resp where "serve_local_manifest V ck repo d reference wb R = (resp, R\<lparr>rg_storage := rg_storage R\<rparr>)" "rp_status resp \<in> {404, 500}"
      by auto
    with None show ?thesis by fastforce
  qed (use None in simp)
qed

lemma if_local_source:
  assumes R: "store_sound R" and wf: "wf_digest d"
  shows "\<exists>S. serve_if_local V ck repo d reference wb R = (map_option (store_answer V d wb) (stored R repo d), R\<lparr>rg_storage := S\<rparr>)"
proof -
  from R have "no_faults (rg_fs R)" "meta_sound (rg_storage R) (rg_fs R)" by (simp_all add: store_sound_def)
  then show ?thesis
  proof (cases rule: blob_meta_stored [of R ck repo d])
    case (found m S)
    let ?R = "R\<lparr>rg_storage := S\<rparr>"
    have st: "stored ?R repo d = stored R repo d" using found by (simp add: stored_def)
    have "store_sound ?R" using R found by (simp add: store_sound_def)
    from serve_local_source [OF this wf, of V ck repo reference wb] found st show ?thesis
      by (auto simp: serve_if_local_def split: option.splits)
  next
    case (missing x)
    then have "serve_if_local V ck repo d reference wb R = (None, R\<lparr>rg_storage := rg_storage R\<rparr>)"
      by (auto simp: serve_if_local_def)
    with missing show ?thesis by (intro exI [of _ "rg_storage R"]) simp
  qed
qed

lemma cached_tag_source:
  assumes R: "store_sound R" and t: "tcache_ok (rg_cache R)" and n: "pushed_tag R repo tag = None"
  shows "\<exists>S. serve_cached_tag V ck repo tag wb R =
      (case tag_source V ck repo tag R of FromStore d \<Rightarrow> map_option (store_answer V d wb) (stored R repo d) | _ \<Rightarrow> None,
       (rechecked V ck repo tag R)\<lparr>rg_storage := S\<rparr>)"
proof -
  have wf: "wf_digest d" if "tcache_lookup (inst ck) (rg_cache R) repo tag \<in> {Fresh d, Stale d}" for d
    using that t by (auto simp: tcache_lookup_def dest: tcache_ok_get split: option.splits if_splits)
  have l: "\<exists>S. serve_if_local V ck repo d tag wb R1 =
      (map_option (store_answer V d wb) (stored R repo d), R1\<lparr>rg_storage := S\<rparr>)"
    if "wf_digest d" "rg_fs R1 = rg_fs R" "rg_storage R1 = rg_storage R" for d R1
    using if_local_source [of R1 d V ck repo tag wb] R that by (simp add: store_sound_def stored_def)
  have r: "\<exists>S. R1 = R1\<lparr>rg_storage := S\<rparr>" for R1 :: "'a registry" by (intro exI [of _ "rg_storage R1"]) simp
  note defs = serve_cached_tag_def tag_source_def recheck_def rechecked_def n Let_def
  show ?thesis
  proof (cases "tcache_lookup (inst ck) (rg_cache R) repo tag")
    case (Fresh d)
    with l [of d R] wf [of d] show ?thesis by (cases "stored R repo d") (auto simp: defs split: option.splits)
  next
    case (Stale d)
    note wf = wf [of d, unfolded Stale, simplified]
    show ?thesis
    proof (cases "route (ev_upstreams V) repo")
      case None
      with Stale l [OF wf, of R] show ?thesis by (cases "stored R repo d") (auto simp: defs)
    next
      case (Some u)
      obtain x w where x: "cl_resolve_tag (ue_client u) (inst ck) repo tag (rg_net R) = (x, w)" by fastforce
      with Stale Some l [OF wf, of "R\<lparr>rg_net := w\<rparr>"]
        l [OF wf, of "R\<lparr>rg_net := w, rg_cache := tcache_touch (inst ck) repo tag (rg_cache R)\<rparr>"] r
      show ?thesis by (cases x; cases "stored R repo d") (auto simp: defs)
    qed
  next
    case Miss
    with r [of R] show ?thesis by (auto simp: defs split: option.splits)
  qed
qed

text \<open>
  C8. A tag is resolved as specified: a pull by tag serves the pushed manifest without asking anyone when the
  tag was pushed here, even if its manifest is lost; otherwise a stored manifest the cache vouches for, asking
  the upstream only to recheck a stale entry, and serving the stale one when that fails; otherwise whatever
  the upstream of the repository sends; and 404 when there is none.  A confirmed entry counts as fresh again,
  and apart from the recheck and the metadata cache the state only changes in the fetch.
\<close>

theorem tag_resolution:
  assumes "store_sound R" and "tcache_ok (rg_cache R)" and "digest_parse_ok tag = None"
  shows "\<exists>S. let R1 = (rechecked V ck repo tag R)\<lparr>rg_storage := S\<rparr>; answer = get_manifest V ck repo tag wb R in
    (case tag_source V ck repo tag R of
       FromStore d \<Rightarrow> snd answer = R1 \<and>
         (case stored R repo d of Some b \<Rightarrow> fst answer = store_answer V d wb b | None \<Rightarrow> rp_status (fst answer) \<in> {404, 500})
     | FromUpstream u \<Rightarrow> answer = fetch_and_serve_upstream_manifest V ck u repo tag wb R1
     | Nowhere \<Rightarrow> answer = (manifest_unknown tag, R1))"
proof (cases "pushed_tag R repo tag")
  case None
  then obtain S where c: "serve_cached_tag V ck repo tag wb R =
      (case tag_source V ck repo tag R of FromStore d \<Rightarrow> map_option (store_answer V d wb) (stored R repo d) | _ \<Rightarrow> None,
       (rechecked V ck repo tag R)\<lparr>rg_storage := S\<rparr>)"
    using cached_tag_source [OF assms(1,2)] by blast
  have g: "get_manifest V ck repo tag wb R =
      (case serve_cached_tag V ck repo tag wb R of
         (Some r, R1) \<Rightarrow> (r, R1)
       | (None, R1) \<Rightarrow>
           (case route (ev_upstreams V) repo of
              Some u \<Rightarrow> fetch_and_serve_upstream_manifest V ck u repo tag wb R1
            | None \<Rightarrow> (manifest_unknown tag, R1)))"
    using None assms(3) by (simp add: get_manifest_def pushed_tag_def)
  have src: "case tag_source V ck repo tag R of FromStore d \<Rightarrow> stored R repo d \<noteq> None
      | FromUpstream u \<Rightarrow> route (ev_upstreams V) repo = Some u | Nowhere \<Rightarrow> route (ev_upstreams V) repo = None"
    using None by (auto simp: tag_source_def Let_def split: tag_cache_state.splits option.splits sum.splits)
  show ?thesis
    by (rule exI [of _ S]) (use src in \<open>auto simp: g c Let_def split: tag_source.splits\<close>)
next
  case (Some d)
  then have wf: "wf_digest d" by (auto simp: pushed_tag_def Option.bind_eq_Some_conv)
  have g: "get_manifest V ck repo tag wb R = serve_local_manifest V ck repo d tag wb R"
    using Some assms(3) by (simp add: get_manifest_def pushed_tag_def)
  have "recheck V ck repo tag R = None" using Some by (simp add: recheck_def)
  then have e: "rechecked V ck repo tag R = R" "tag_source V ck repo tag R = FromStore d"
    using Some by (simp_all add: rechecked_def tag_source_def Let_def split: tag_cache_state.splits)
  obtain resp S where "serve_local_manifest V ck repo d tag wb R = (resp, R\<lparr>rg_storage := S\<rparr>)"
    "case stored R repo d of Some b \<Rightarrow> resp = store_answer V d wb b | None \<Rightarrow> rp_status resp \<in> {404, 500}"
    using serve_local_source [OF assms(1) wf] by blast
  then show ?thesis by (intro exI [of _ S]) (simp add: g e Let_def split: option.splits)
qed

text \<open>A registry with one pushed manifest.\<close>

definition tagged_reg :: "unit registry" where
  "tagged_reg = (let d = sha256_digest (demo_sha [1, 2]) in demo_reg\<lparr>
     rg_fs := put_node (resolve (blob_path \<lparr>root = [''q'']\<rparr> ''a/b'' d)) (FFile [1, 2] 7) demo_fs,
     rg_tags := \<lparr>lt_layout = \<lparr>root = [''q'']\<rparr>, lt_map = [((''a/b'', ''v1''), \<lparr>tag_digest = digest_to_string d, pushed_at = 7\<rparr>)]\<rparr>\<rparr>)"

theorem tag_resolution_witness:
  "rp_body (fst (get_manifest demo_env demo_clock ''a/b'' ''v1'' True tagged_reg)) = Full [1, 2]"
proof -
  let ?d = "sha256_digest (demo_sha [1, 2])"
  have "meta_sound (rg_storage tagged_reg) (rg_fs tagged_reg)"
    by (simp add: tagged_reg_def demo_reg_def reg_start_def storage_new_def meta_sound_def cache_new_def Let_def)
  then have 1: "store_sound tagged_reg"
    by (simp add: store_sound_def tagged_reg_def Let_def no_faults_def put_node_def demo_fs_def)
  have 2: "tcache_ok (rg_cache tagged_reg)" by (simp add: tagged_reg_def demo_reg_def reg_start_def Let_def)
  have "digest_parse_ok (digest_to_string ?d) = Some ?d" by (simp add: digest_parse_ok_Some digest_parse_to_string)
  then have "tag_source demo_env demo_clock ''a/b'' ''v1'' tagged_reg = FromStore ?d"
    by (simp add: tag_source_def pushed_tag_def tags_get_def tagged_reg_def dm_get_def Let_def)
  moreover have "stored tagged_reg ''a/b'' ?d = Some [1, 2]"
    by (simp add: stored_def tagged_reg_def Let_def file_at_def put_node_def lookup_def demo_fs_def update_conv path_simps slot_def)
  ultimately show ?thesis
    using tag_resolution [OF 1 2 demo_tag, of demo_env demo_clock "''a/b''" True]
    by (auto simp: Let_def store_answer_def manifest_response default_media_type)
qed

section \<open>The tag list\<close>

definition known_tags :: "'w registry \<Rightarrow> string \<Rightarrow> string set" where
  "known_tags R repo = {t. tags_get (rg_tags R) repo t \<noteq> None} \<union> {t. dm_get (tc_entries (rg_cache R)) (repo, t) \<noteq> None}"

lemma dm_keys: "dm_get m (repo, t) \<noteq> None \<longleftrightarrow> (\<exists>v. ((repo, t), v) \<in> set m)"
  by (force simp: dm_get_def map_of_eq_None_iff)

lemma tags_list_set: "set (map fst (tags_list_for_repo T repo)) = {t. tags_get T repo t \<noteq> None}"
  unfolding tags_get_def dm_keys by (force simp: tags_list_for_repo_def image_iff)

lemma tcache_list_set: "set (tcache_list_for_repo T repo) = {t. dm_get (tc_entries T) (repo, t) \<noteq> None}"
  unfolding dm_keys by (force simp: tcache_list_for_repo_def image_iff)


end
