(* ===== verification/Registry_Refine.thy ===== *)
theory Registry_Refine
  imports Registry_Props
begin

text \<open>
  What the registry promises about blobs, stated without files: a map from repositories and digests to
  contents, into which a step may store one content under its digest, or, for a \<^verbatim>\<open>DELETE\<close> request,
  from which it may drop one.  Every request and every spawned task of the registry is such a step.
\<close>

section \<open>The abstract store\<close>

type_synonym blob_store = "path \<times> string \<Rightarrow> bytes option"

inductive store_step :: "(bytes \<Rightarrow> string) \<Rightarrow> bool \<Rightarrow> blob_store \<Rightarrow> blob_store \<Rightarrow> bool" for sha deleting where
  keep: "store_step sha deleting B B"
| store: "sha b = h \<Longrightarrow> store_step sha deleting B (B((p, h) \<mapsto> b))"
| drop: "deleting \<Longrightarrow> store_step sha deleting B (B((p, h) := None))"

text \<open>The store a file system holds: the files at the blob paths.\<close>

definition blobs_of :: "fs \<Rightarrow> blob_store" where
  "blobs_of f = (\<lambda>(p, h). if hex64 h then file_at f (slot p h) else None)"

lemma blobs_of_blob: "wf_digest d \<Longrightarrow> blobs_of f (rdir L repo, hex d) = file_at f (resolve (blob_path L repo d))"
  by (simp add: blobs_of_def resolve_blob_path wf_digest_def)

lemma blobs_same: "(\<And>q. is_slot q \<Longrightarrow> file_at f' q = file_at f q) \<Longrightarrow> blobs_of f' = blobs_of f"
  by (auto simp: blobs_of_def fun_eq_iff)

lemma blobs_call: "fs_call call T \<Longrightarrow> \<forall>q \<in> T. \<not> is_slot q \<Longrightarrow> blobs_of (snd (call f)) = blobs_of f"
  by (rule blobs_same) (metis fs_call.frame)

context cas_commit
begin

lemma commit_step:
  assumes r: "ready f"
  shows "store_step sha deleting (blobs_of f) (blobs_of (snd (commit f)))"
proof -
  have h: "hex64 name" "target = slot dir name" using target_slot [OF r] by simp_all
  have up: "blobs_of (snd (commit f)) = (blobs_of f)((dir, name) := file_at (snd (commit f)) target)"
    using other_slots [OF r] h by (auto simp: blobs_of_def fun_eq_iff)
  show ?thesis
  proof (cases "finished (fst (commit f))")
    case True
    with commit_done [OF r] up show ?thesis by (auto intro: store)
  next
    case False
    with commit_failed [OF r] h have "blobs_of (snd (commit f)) = blobs_of f"
      unfolding up by (auto simp: blobs_of_def fun_eq_iff)
    then show ?thesis by (simp add: keep)
  qed
qed

end

section \<open>The operations of the storage\<close>

lemma step_put_blob: "wf_digest d \<Longrightarrow> put_blob_buffered sha ck repo d bs S f = (r, S', f') \<Longrightarrow> store_step sha del (blobs_of f) (blobs_of f')"
  using buffered.commit_step [of d sha del f ck repo bs S] by (simp add: paired_def)

lemma step_delete_blob:
  assumes wf: "wf_digest d" and del: "delete_blob repo d S f = (r, S', f')"
  shows "store_step sha True (blobs_of f) (blobs_of f')"
proof -
  let ?p = "blob_path (layout S) repo d"
  have q: "resolve ?p = slot (rdir (layout S) repo) (hex d)" "hex64 (hex d)" using wf by (simp_all add: resolve_blob_path wf_digest_def)
  obtain x g where x: "fs_remove_file ?p f = (x, g)" by fastforce
  have f': "f' = g" using del x by (auto simp: delete_blob_def Let_def split: sum.splits io_error.splits)
  show ?thesis
  proof (cases x)
    case (Inl e)
    with x f' remove_Inl [of ?p f e g] show ?thesis by (simp add: keep)
  next
    case (Inr u)
    have "blobs_of f' = (blobs_of f)((rdir (layout S) repo, hex d) := None)"
      using remove_Inr(2,3) [OF x [unfolded Inr]] q by (auto simp: blobs_of_def fun_eq_iff file_at_def f')
    then show ?thesis by (simp add: drop)
  qed
qed

lemma blobs_ensure_repo: "ensure_repo repo S f = (r, f') \<Longrightarrow> blobs_of f' = blobs_of f"
  by (rule blobs_same) (simp add: ensure_repo_files)

lemma blobs_write_atomic: "blobs_of (snd (write_atomic C now (local_tags_path L repo) v f)) = blobs_of f"
  by (rule blobs_call [OF write_atomic_call]) (simp add: path_simps)

lemma blobs_tags_set: "tags_set C ck repo tag d T f = (r, T', f') \<Longrightarrow> blobs_of f' = blobs_of f"
  by (rule blobs_same) (simp add: tags_set_slot)

lemma blobs_tags_remove: "tags_remove C ck repo tag T f = (r, T', f') \<Longrightarrow> blobs_of f' = blobs_of f"
  using blobs_write_atomic [of C "wall ck" "lt_layout T" repo _ f]
  by (auto simp: tags_remove_def Let_def split: prod.splits sum.splits if_splits) (metis snd_conv)+

lemma blobs_remove_tags: "remove_tags C ck repo ts T f = (T', f') \<Longrightarrow> blobs_of f' = blobs_of f"
proof (induction C ck repo ts T f rule: remove_tags.induct)
  case (2 C ck repo t ts T f)
  obtain x T1 f1 where t: "tags_remove C ck repo t T f = (x, T1, f1)" by (metis prod_cases3)
  with 2 have "blobs_of f' = blobs_of f1" by auto
  with blobs_tags_remove [OF t] show ?case by simp
qed simp

lemma blobs_tcache_insert:
  assumes "tcache_insert C ck repo tag d T f = (T', f')"
  shows "blobs_of f' = blobs_of f"
proof (cases "tc_layout T")
  case None
  with assms show ?thesis by (auto simp: tcache_insert_def tcache_persist_repo_def Let_def)
next
  case (Some L)
  then have f': "f' = snd (persist_file C (wall ck) L repo (tcache_snapshot T' repo) f)"
    using assms by (auto simp: tcache_insert_def tcache_persist_repo_def Let_def split: prod.splits)
  show ?thesis unfolding f' by (rule blobs_call [OF persist_file_call]) (auto simp: upstream_files_def)
qed

lemma blobs_create_session: "create_session C ck repo T f = (r, T', f') \<Longrightarrow> blobs_of f' = blobs_of f"
  using blobs_call [OF create_call, of T repo ck C f] by (auto simp: paired_def)

lemma blobs_append:
  assumes "uploads_inv T f" and "upload_append C ck repo s c T f = (r, T', f')"
  shows "blobs_of f' = blobs_of f"
  using blobs_call [OF append_call, of T repo s C ck c f] session_files_no_slot [OF assms(1)] assms(2) by (simp add: paired_def)

lemma step_finalize:
  assumes "uploads_inv T f" and "wf_digest d" and "upload_finalize C sha ck repo s lc d T f = (r, T', f')"
  shows "store_step sha del (blobs_of f) (blobs_of f')"
  using session.commit_step [of d T repo s f sha del C ck lc] uploads_inv_synced [OF assms(1)] assms(2,3) by (simp add: paired_def)


section \<open>The handlers\<close>

abbreviation store_of :: "'w registry \<Rightarrow> blob_store" where
  "store_of R \<equiv> blobs_of (rg_fs R)"

lemma step_fetch:
  assumes V: "env_ok V" "u \<in> set (ev_upstreams V)"
    and a: "fetch_and_serve_upstream_manifest V ck u repo reference b R = (r, R')"
  shows "store_step (ev_sha V) del (store_of R) (store_of R')"
proof -
  obtain x w where g: "cl_get_manifest (ue_client u) (inst ck) repo reference (rg_net R) = (x, w)" by fastforce
  show ?thesis
  proof (cases x)
    case (Inl e)
    with a g show ?thesis by (auto simp: fetch_and_serve_upstream_manifest_def keep)
  next
    case (Inr m)
    from V have c: "upstream_contract (ue_client u) (ev_sha V)" "sha_ok (ev_sha V)" by (auto simp: env_ok_def)
    have wf: "wf_digest (mr_digest m)"
      using upstream_contract.manifest_wf [OF c(1,2) g [unfolded Inr]] .
    obtain y S f where put: "put_blob_buffered (ev_sha V) ck repo (mr_digest m) (mr_bytes m) (rg_storage R) (rg_fs R) = (y, S, f)"
      by (metis prod_cases3)
    let ?R1 = "R\<lparr>rg_net := w, rg_storage := S, rg_fs := f\<rparr>"
    obtain T f2 where t: "tcache_insert (ev_map_codec V) ck repo reference (mr_digest m) (rg_cache ?R1) (rg_fs ?R1) = (T, f2)" by fastforce
    from a g Inr put t have "R' = ?R1 \<or> R' = ?R1\<lparr>rg_cache := T, rg_fs := f2\<rparr>"
      by (auto simp: fetch_and_serve_upstream_manifest_def Let_def split: if_splits)
    with step_put_blob [OF wf put, of del] blobs_tcache_insert [OF t] show ?thesis by auto
  qed
qed

lemma files_cached_tag: "serve_cached_tag V ck repo reference b R = (r, R') \<Longrightarrow> rg_fs R' = rg_fs R"
proof -
  assume a: "serve_cached_tag V ck repo reference b R = (r, R')"
  consider (local) R1 d where "serve_if_local V ck repo d reference b R1 = (r, R')" "rg_fs R1 = rg_fs R" | (other) "rg_fs R' = rg_fs R"
    using a by (auto simp: serve_cached_tag_def split: tag_cache_state.splits option.splits prod.splits sum.splits if_splits)
  then show ?thesis by cases (auto dest: evolves_if_local)
qed

lemma step_get_manifest:
  assumes V: "env_ok V" and a: "get_manifest V ck repo reference b R = (r, R')"
  shows "store_step (ev_sha V) del (store_of R) (store_of R')"
proof -
  have meta: "rg_fs R1 = rg_fs R" if "reg_blob_meta ck repo d R = (x, R1)" for d x R1
    using evolves_blob_meta [OF that] by blast
  consider (local) R1 d where "serve_local_manifest V ck repo d reference b R1 = (r, R')" "rg_fs R1 = rg_fs R"
    | (up) u R1 where "u \<in> set (ev_upstreams V)" "fetch_and_serve_upstream_manifest V ck u repo reference b R1 = (r, R')" "rg_fs R1 = rg_fs R"
    | (stop) "rg_fs R' = rg_fs R"
    using a meta files_cached_tag [of V ck repo reference b R]
    unfolding get_manifest_def
    by (auto split: option.splits prod.splits sum.splits if_splits dest: route_in)
  then show ?thesis
  proof cases
    case local
    with evolves_local_manifest [OF local(1)] show ?thesis by (simp add: keep)
  next
    case up
    with step_fetch [OF V up(1,2), of del] show ?thesis by simp
  qed (simp add: keep)
qed

lemma step_store_manifest:
  assumes wf: "wf_digest d" and a: "store_manifest V ck repo reference headers d b R = (r, R')"
  shows "store_step (ev_sha V) del (store_of R) (store_of R')"
proof -
  obtain x S f where put: "put_blob_buffered (ev_sha V) ck repo d b (rg_storage R) (rg_fs R) = (x, S, f)" by (metis prod_cases3)
  obtain y T f2 where t: "tags_set (ev_tags_codec V) ck repo reference d (rg_tags R) f = (y, T, f2)" by (metis prod_cases3)
  have "rg_fs R' = f \<or> rg_fs R' = f2"
    using a put t by (cases x; cases y) (auto simp: store_manifest_def Let_def split: if_splits)
  with step_put_blob [OF wf put, of del] blobs_tags_set [OF t] show ?thesis by auto
qed

lemma step_put_manifest:
  assumes a: "put_manifest V ck repo reference headers body R = (r, R')"
  shows "store_step (ev_sha V) del (store_of R) (store_of R')"
proof -
  obtain x f where e: "ensure_repo repo (rg_storage R) (rg_fs R) = (x, f)" by fastforce
  let ?R0 = "R\<lparr>rg_fs := f\<rparr>"
  have e0: "store_of ?R0 = store_of R" using blobs_ensure_repo [OF e] by simp
  consider (stop) "R' = ?R0"
    | (missing) b m where "check_manifest_blobs_present V ck repo b ?R0 = (m, R')"
    | (go) b d R1 where "check_manifest_blobs_present V ck repo b ?R0 = (None, R1)" "wf_digest d"
        "store_manifest V ck repo reference headers d b R1 = (r, R')"
    using a e unfolding put_manifest_def
    by (cases x) (auto simp: Let_def split: sum.splits option.splits if_splits prod.splits, (blast dest: digest_parse_wf)+)
  then show ?thesis
  proof cases
    case stop
    with e0 show ?thesis by (simp add: keep)
  next
    case missing
    then show ?thesis using evolves_check [OF missing] e0 by (simp add: keep)
  next
    case go
    with evolves_check [OF go(1)] step_store_manifest [OF go(2,3), of del] e0 show ?thesis by simp
  qed
qed

lemma step_reg_delete_blob: "reg_delete_blob V repo d R = (r, R') \<Longrightarrow> store_step sha True (store_of R) (store_of R')"
proof (cases "digest_parse d")
  case (Inr p)
  obtain x S f where del: "delete_blob repo p (rg_storage R) (rg_fs R) = (x, S, f)" by (metis prod_cases3)
  assume "reg_delete_blob V repo d R = (r, R')"
  with Inr del have "R' = R\<lparr>rg_storage := S, rg_fs := f\<rparr>" by (auto simp: reg_delete_blob_def)
  with step_delete_blob [OF digest_parse_wf [OF Inr] del] show ?thesis by simp
qed (simp add: reg_delete_blob_def keep)

lemma step_delete_manifest:
  assumes a: "delete_manifest V ck repo reference R = (r, R')"
  shows "store_step sha True (store_of R) (store_of R')"
proof (cases "digest_parse_ok reference")
  case None
  obtain x T f where t: "tags_remove (ev_tags_codec V) ck repo reference (rg_tags R) (rg_fs R) = (x, T, f)" by (metis prod_cases3)
  with a None have "rg_fs R' = f" by (auto simp: delete_manifest_def Let_def)
  with blobs_tags_remove [OF t] show ?thesis by (simp add: keep)
next
  case (Some d)
  let ?ts = "map fst (filter (\<lambda>(t, m). tag_digest m = digest_to_string d) (tags_list_for_repo (rg_tags R) repo))"
  obtain T f where t: "remove_tags (ev_tags_codec V) ck repo ?ts (rg_tags R) (rg_fs R) = (T, f)" by fastforce
  obtain x S f2 where del: "delete_blob repo d (rg_storage R) f = (x, S, f2)" by (metis prod_cases3)
  from a Some t del have "rg_fs R' = f2" by (auto simp: delete_manifest_def Let_def)
  moreover have "wf_digest d" using Some by auto
  ultimately show ?thesis using blobs_remove_tags [OF t] step_delete_blob [OF _ del, of sha] by simp
qed

lemma files_list_tags: "list_tags V ck repo R = (r, R') \<Longrightarrow> rg_fs R' = rg_fs R"
  by (auto simp: list_tags_def Let_def split: if_splits option.splits prod.splits sum.splits)

lemma files_get_blob: "get_blob V ck repo d b R = (r, R') \<Longrightarrow> rg_fs R' = rg_fs R"
  by (auto simp: get_blob_def reg_blob_meta_def serve_blob_via_pullthrough_def Let_def
      split: sum.splits option.splits prod.splits if_splits)

lemma blobs_upload_init: "upload_init V ck repo R = (r, R') \<Longrightarrow> store_of R' = store_of R"
proof -
  assume a: "upload_init V ck repo R = (r, R')"
  obtain x f where e: "ensure_repo repo (rg_storage R) (rg_fs R) = (x, f)" by fastforce
  obtain y T f2 where c: "create_session (ev_upload_codec V) ck repo (rg_uploads R) f = (y, T, f2)" by (metis prod_cases3)
  have "rg_fs R' = f \<or> rg_fs R' = f2"
    using a e c by (cases x; cases y) (auto simp: upload_init_def)
  with blobs_ensure_repo [OF e] blobs_create_session [OF c] show ?thesis by auto
qed

lemma blobs_upload_patch:
  assumes i: "reg_inv V R" and a: "upload_patch V ck repo s body R = (r, R')"
  shows "store_of R' = store_of R"
proof (cases "collect_body body max_upload_body")
  case (Inl e)
  with a show ?thesis by (simp add: upload_patch_def)
next
  case (Inr bs)
  obtain x T f where u: "upload_append (ev_upload_codec V) ck repo s bs (rg_uploads R) (rg_fs R) = (x, T, f)" by (metis prod_cases3)
  with a Inr have "rg_fs R' = f" by (auto simp: upload_patch_def)
  then show ?thesis using blobs_append [OF _ u] i by (simp add: reg_inv_def)
qed

lemma step_upload_put:
  assumes i: "reg_inv V R" and a: "upload_put V ck repo s query body R = (r, R')"
  shows "store_step (ev_sha V) del (store_of R) (store_of R')"
proof (cases rule: upload_put_cases [OF a, case_names same fin])
  case (fin lc d x T f)
  with step_finalize [OF _ fin(1,2)] i show ?thesis by (simp add: reg_inv_def)
qed (simp add: keep)

lemma step_producer_task:
  assumes i: "reg_inv V R" and ts: "rg_tasks R = ts @ k # us"
  shows "store_step (ev_sha V) del (store_of R) (store_of (producer_task V ck k (R\<lparr>rg_tasks := ts @ us\<rparr>)))"
proof -
  let ?e = "rg_entries R ! pk_entry k" and ?L = "layout (rg_storage R)"
  have fl: "flight_inv R" and "k \<in> set (rg_tasks R)" using i ts by (simp_all add: reg_inv_def)
  note k = flight_task(2-4,6) [OF this]
  obtain x w where c: "cl_stream_blob (pk_client k) (inst ck) (pk_repo k) (pk_digest k) (rg_net R) = (x, w)" by fastforce
  show ?thesis
  proof (cases x)
    case (Inl er)
    with c show ?thesis by (simp add: producer_task_def keep)
  next
    case (Inr items)
    obtain r e' f where run: "run_producer (ev_sha V) (wall ck) (pk_final k) items ?e (rg_fs R) = (r, e', f)" by (metis prod_cases3)
    have "\<not> is_slot (resolve (pe_tempfile_path ?e))" using k by (simp add: resolve_pt_tempfile)
    then have "store_step (ev_sha V) del (store_of R) (blobs_of f)"
      using pull.commit_step [of ?e "ev_sha V" del "rg_fs R" "wall ck" ?L "pk_repo k" items] k run by (simp add: paired_def)
    with Inr c run show ?thesis by (cases r) (simp_all add: producer_task_def Let_def)
  qed
qed

lemma step_dispatch:
  assumes V: "env_ok V" and i: "reg_inv V R" and a: "dispatch V ck rest q R = (rep, R')"
  shows "store_step (ev_sha V) (hq_method q = DELETE) (store_of R) (store_of R')"
proof -
  obtain repo act where sp: "split_path rest = (repo, act)" by fastforce
  consider (same) "store_of R' = store_of R"
    | (delete) "hq_method q = DELETE" "store_step (ev_sha V) True (store_of R) (store_of R')"
    | (get) ref b r where "get_manifest V ck repo ref b R = (r, R')"
    | (put) ref hs b r where "put_manifest V ck repo ref hs b R = (r, R')"
    | (upload) s qu b r where "upload_put V ck repo s qu b R = (r, R')"
  proof (cases "rest = ''_catalog'' \<or> repo = []")
    case True
    with a sp have "R' = R" by (cases "rest = ''_catalog''") (simp_all add: dispatch_def)
    then show thesis by (intro same) simp
  next
    case False
    from False a sp show thesis
      unfolding dispatch_def
      by (cases "hq_method q"; cases act)
        (auto dest!: readyD split: prod.splits intro: get put upload delete [OF _ step_reg_delete_blob] delete [OF _ step_delete_manifest]
          same same [OF arg_cong [OF files_list_tags]] same [OF arg_cong [OF files_get_blob]] same [OF blobs_upload_init] same [OF blobs_upload_patch [OF i]])
  qed
  then show ?thesis
  proof cases
    case same
    then show ?thesis by (simp add: keep)
  next
    case get
    then show ?thesis by (rule step_get_manifest [OF V])
  next
    case put
    then show ?thesis by (rule step_put_manifest)
  next
    case upload
    then show ?thesis by (rule step_upload_put [OF i])
  qed simp
qed



end
