(* ===== verification/Gc.thy ===== *)
theory Gc
  imports Local_Tags Json "HOL-Library.Multiset"
begin

text \<open>
  \<^verbatim>\<open>crates/quill-storage/src/gc.rs\<close>: the mark-and-sweep collector.  \<open>traverse\<close> is shown to compute
  reachability along the references of the manifests, and a run to remove exactly the unreachable
  blobs of the repositories it discovers and nothing else.
\<close>

section \<open>Data\<close>

datatype gc_error = GIo io_error | GDigest digest_error | GLocalTags local_tags_error

record gc_report =
  repos_scanned :: nat
  roots :: nat
  reachable_blobs :: nat
  on_disk_blobs :: nat
  deleted :: nat
  bytes_freed :: u64
  errors :: "(path \<times> io_error) list"

definition gc_report_default :: gc_report where
  "gc_report_default = \<lparr>repos_scanned = 0, roots = 0, reachable_blobs = 0, on_disk_blobs = 0,
     deleted = 0, bytes_freed = 0, errors = []\<rparr>"

section \<open>Operations\<close>

text \<open>The digest of a reference object, \<^verbatim>\<open>x.get("digest").as_str()\<close> parsed, if there is one.\<close>

definition ref_digest :: "json \<Rightarrow> digest option" where
  "ref_digest v =
     (case json_get ''digest'' v of
        None \<Rightarrow> None
      | Some d \<Rightarrow> (case as_str d of None \<Rightarrow> None | Some s \<Rightarrow> digest_parse_ok s))"

definition array_refs :: "string \<Rightarrow> json \<Rightarrow> digest list" where
  "array_refs k v =
     (case json_get k v of
        None \<Rightarrow> []
      | Some l \<Rightarrow> (case as_array l of None \<Rightarrow> [] | Some xs \<Rightarrow> List.map_filter ref_digest xs))"

text \<open>The digests pushed for one manifest, in the order of the pushes.\<close>

definition manifest_refs :: "json \<Rightarrow> digest list" where
  "manifest_refs v =
     (case json_get ''config'' v of
        None \<Rightarrow> []
      | Some c \<Rightarrow> (case ref_digest c of None \<Rightarrow> [] | Some p \<Rightarrow> [p])) @
     array_refs ''layers'' v @ array_refs ''manifests'' v"

definition blob_refs :: "(bytes \<Rightarrow> json option) \<Rightarrow> cas_layout \<Rightarrow> fs \<Rightarrow> string \<Rightarrow> digest \<Rightarrow> digest list" where
  "blob_refs from_slice L f repo d =
     (case fs_read (blob_path L repo d) f of
        Inl _ \<Rightarrow> []
      | Inr body \<Rightarrow> (case from_slice body of None \<Rightarrow> [] | Some v \<Rightarrow> manifest_refs v))"

lemma ref_digest_wf: "ref_digest v = Some d \<Longrightarrow> wf_digest d"
  by (auto simp: ref_digest_def split: option.splits)

lemma manifest_refs_wf: "d \<in> set (manifest_refs v) \<Longrightarrow> wf_digest d"
  by (auto simp: manifest_refs_def array_refs_def map_filter_def split: option.splits intro: ref_digest_wf)

lemma blob_refs_wf: "d \<in> set (blob_refs fs L f repo e) \<Longrightarrow> wf_digest d"
  by (auto simp: blob_refs_def split: sum.splits option.splits intro: manifest_refs_wf)

text \<open>The work left: digests not yet visited whose file can be read.\<close>

definition unvisited :: "cas_layout \<Rightarrow> fs \<Rightarrow> string \<Rightarrow> (string \<times> digest) list \<Rightarrow> digest set" where
  "unvisited L f repo reachable =
     {d. wf_digest d \<and> file_at f (resolve (blob_path L repo d)) \<noteq> None \<and> (repo, d) \<notin> set reachable}"

lemma finite_unvisited: "finite (unvisited L f repo R)"
proof -
  have "(\<lambda>d. slot (rdir L repo) (hex d)) ` unvisited L f repo R \<subseteq> fst ` set (nodes f)"
  proof clarify
    fix d assume "d \<in> unvisited L f repo R"
    then obtain b where "file_at f (slot (rdir L repo) (hex d)) = Some b"
      by (auto simp: unvisited_def path_simps)
    then obtain t where "map_of (nodes f) (slot (rdir L repo) (hex d)) = Some (FFile b t)"
      by (auto simp: file_at_Some lookup_def)
    then show "slot (rdir L repo) (hex d) \<in> fst ` set (nodes f)" by (force dest: map_of_SomeD)
  qed
  then have "finite ((\<lambda>d. slot (rdir L repo) (hex d)) ` unvisited L f repo R)"
    by (rule finite_subset) simp
  moreover have "inj_on (\<lambda>d. slot (rdir L repo) (hex d)) (unvisited L f repo R)"
    by (auto simp: unvisited_def intro!: inj_onI wf_digest_eqI)
  ultimately show ?thesis by (rule finite_imageD)
qed

text \<open>\<^verbatim>\<open>traverse\<close>: the top of the stack is the head of the list.\<close>

function (sequential) traverse :: "(bytes \<Rightarrow> json option) \<Rightarrow> cas_layout \<Rightarrow> fs \<Rightarrow> string \<Rightarrow> digest list \<Rightarrow>
    (string \<times> digest) list \<Rightarrow> (string \<times> digest) list" where
  "traverse from_slice L f repo [] reachable = reachable"
| "traverse from_slice L f repo (d # stack) reachable =
     (if (repo, d) \<in> set reachable then traverse from_slice L f repo stack reachable
      else traverse from_slice L f repo (rev (blob_refs from_slice L f repo d) @ stack) ((repo, d) # reachable))"
  by pat_completeness auto

lemma traverse_decreases:
  assumes "(repo, d) \<notin> set R" and "wf_digest d" and "blob_refs fs L f repo d \<noteq> []"
  shows "card (unvisited L f repo ((repo, d) # R)) < card (unvisited L f repo R)"
proof (rule psubset_card_mono [OF finite_unvisited])
  from assms(3) have "file_at f (resolve (blob_path L repo d)) \<noteq> None"
    by (auto simp: blob_refs_def split: sum.splits dest!: read_Inr)
  with assms(1,2) have "d \<in> unvisited L f repo R" by (simp add: unvisited_def)
  then show "unvisited L f repo ((repo, d) # R) \<subset> unvisited L f repo R" by (auto simp: unvisited_def)
qed

termination traverse
proof (relation "measures [\<lambda>(fs, L, f, repo, stack, R). length (filter (\<lambda>d. \<not> wf_digest d) stack),
    \<lambda>(fs, L, f, repo, stack, R). card (unvisited L f repo R), \<lambda>(fs, L, f, repo, stack, R). length stack]", goal_cases)
  case (3 fs L f repo d stack R)
  have "filter (\<lambda>d. \<not> wf_digest d) (rev (blob_refs fs L f repo d)) = []"
    by (auto simp: filter_empty_conv dest: blob_refs_wf)
  moreover have "card (unvisited L f repo ((repo, d) # R)) \<le> card (unvisited L f repo R)"
    by (rule card_mono [OF finite_unvisited]) (auto simp: unvisited_def)
  ultimately show ?case
    using traverse_decreases [OF 3, of fs L f] by (cases "blob_refs fs L f repo d") (auto simp: order_less_le)
qed auto

fun mark_roots :: "(bytes \<Rightarrow> json option) \<Rightarrow> cas_layout \<Rightarrow> fs \<Rightarrow> string \<Rightarrow> digest list \<Rightarrow>
    (string \<times> digest) list \<Rightarrow> (string \<times> digest) list" where
  "mark_roots from_slice L f repo [] reachable = reachable"
| "mark_roots from_slice L f repo (r # rs) reachable =
     mark_roots from_slice L f repo rs (traverse from_slice L f repo [r] reachable)"

text \<open>The roots of one repository: its local tags, loaded from disk, and the extra roots.\<close>

definition repo_roots :: "tags_codec \<Rightarrow> cas_layout \<Rightarrow> digest list \<Rightarrow> fs \<Rightarrow> string \<Rightarrow> local_tags_error + digest list" where
  "repo_roots C L extra_roots f repo =
     (case tags_load_repo C repo f (tags_new L) of
        (Inl e, _) \<Rightarrow> Inl e
      | (Inr _, store) \<Rightarrow>
          Inr (List.map_filter (\<lambda>(_, m). digest_parse_ok (tag_digest m)) (tags_list_for_repo store repo) @ extra_roots))"

fun mark_repos :: "tags_codec \<Rightarrow> (bytes \<Rightarrow> json option) \<Rightarrow> cas_layout \<Rightarrow> digest list \<Rightarrow> fs \<Rightarrow> string list \<Rightarrow>
    (string \<times> digest) list \<Rightarrow> nat \<Rightarrow> gc_error + (string \<times> digest) list \<times> nat" where
  "mark_repos C from_slice L extra f [] reachable n = Inr (reachable, n)"
| "mark_repos C from_slice L extra f (repo # repos) reachable n =
     (case repo_roots C L extra f repo of
        Inl e \<Rightarrow> Inl (GLocalTags e)
      | Inr rs \<Rightarrow> mark_repos C from_slice L extra f repos (mark_roots from_slice L f repo rs reachable) (n + length rs))"

text \<open>The sweep over the entries of one \<^verbatim>\<open>blobs/sha256\<close> directory.\<close>

fun gc_sweep_entries :: "bool \<Rightarrow> (string \<times> digest) list \<Rightarrow> string \<Rightarrow> path \<Rightarrow> (string \<times> fnode) list \<Rightarrow> bool \<Rightarrow>
    gc_report \<Rightarrow> fs \<Rightarrow> (gc_error + gc_report) \<times> fs" where
  "gc_sweep_entries dry reachable repo dir [] bad rep f =
     ((if bad then Inl (GIo EOther) else Inr rep), f)"
| "gc_sweep_entries dry reachable repo dir ((name, _) # es) bad rep f =
     (let p = dir @ [name] in
      case fs_metadata p f of
        Inl e \<Rightarrow> (Inl (GIo e), f)
      | Inr FDir \<Rightarrow> gc_sweep_entries dry reachable repo dir es bad rep f
      | Inr (FFile b t) \<Rightarrow>
          (case digest_parse (''sha256:'' @ name) of
             Inl _ \<Rightarrow> gc_sweep_entries dry reachable repo dir es bad rep f
           | Inr d \<Rightarrow>
               (let rep1 = rep\<lparr>on_disk_blobs := on_disk_blobs rep + 1\<rparr> in
                if (repo, d) \<in> set reachable \<or> dry
                then gc_sweep_entries dry reachable repo dir es bad rep1 f
                else case fs_remove_file p f of
                  (Inr _, f1) \<Rightarrow>
                    gc_sweep_entries dry reachable repo dir es bad
                      (rep1\<lparr>deleted := deleted rep1 + 1, bytes_freed := sat_add (bytes_freed rep1) (len_u64 b)\<rparr>) f1
                | (Inl e, f1) \<Rightarrow>
                    gc_sweep_entries dry reachable repo dir es bad (rep1\<lparr>errors := errors rep1 @ [(p, e)]\<rparr>) f1)))"

definition sha256_dir :: "cas_layout \<Rightarrow> string \<Rightarrow> path" where
  "sha256_dir L repo = path_join (path_join (repo_dir L repo) ''blobs'') ''sha256''"

fun gc_sweep_repos :: "bool \<Rightarrow> (string \<times> digest) list \<Rightarrow> cas_layout \<Rightarrow> string list \<Rightarrow> gc_report \<Rightarrow> fs \<Rightarrow>
    (gc_error + gc_report) \<times> fs" where
  "gc_sweep_repos dry reachable L [] rep f = (Inr rep, f)"
| "gc_sweep_repos dry reachable L (repo # repos) rep f =
     (let dir = sha256_dir L repo in
      if \<not> fs_exists dir f then gc_sweep_repos dry reachable L repos rep f
      else case fs_read_dir dir f of
             Inl e \<Rightarrow> (Inl (GIo e), f)
           | Inr (es, bad) \<Rightarrow>
               (case gc_sweep_entries dry reachable repo dir es bad rep f of
                  (Inl e, f1) \<Rightarrow> (Inl e, f1)
                | (Inr rep1, f1) \<Rightarrow> gc_sweep_repos dry reachable L repos rep1 f1))"

text \<open>One directory of \<^verbatim>\<open>discover_repos\<close>: its subdirectories to visit and whether it has \<^verbatim>\<open>blobs\<close>.\<close>

fun scan_dir :: "fs \<Rightarrow> path \<Rightarrow> (string \<times> fnode) list \<Rightarrow> path list \<Rightarrow> bool \<Rightarrow> path list \<times> bool" where
  "scan_dir f dir [] subdirs has_blobs = (subdirs, has_blobs)"
| "scan_dir f dir ((name, _) # es) subdirs has_blobs =
     (let p = dir @ [name] in
      if \<not> fs_is_dir p f then scan_dir f dir es subdirs has_blobs
      else if name = ''blobs'' then scan_dir f dir es subdirs True
      else if name = ''_uploads'' \<or> name = ''_quill'' then scan_dir f dir es subdirs has_blobs
      else scan_dir f dir es (subdirs @ [p]) has_blobs)"

function (sequential) discover_loop :: "cas_layout \<Rightarrow> fs \<Rightarrow> path list \<Rightarrow> string list \<Rightarrow> gc_error + string list" where
  "discover_loop L f [] repos = Inr repos"
| "discover_loop L f (dir # stack) repos =
     (case fs_read_dir dir f of
        Inl _ \<Rightarrow> discover_loop L f stack repos
      | Inr (es, bad) \<Rightarrow>
          if bad then Inl (GIo EOther)
          else case scan_dir f dir es [] False of
                 (subdirs, has_blobs) \<Rightarrow>
                   if has_blobs
                   then discover_loop L f stack
                     (case strip_prefix_str (root L) dir of
                        None \<Rightarrow> repos
                      | Some rel \<Rightarrow> let s = path_str rel in if s = [] then repos else repos @ [s])
                   else discover_loop L f (rev subdirs @ stack) repos)"
  by pat_completeness auto

lemma scan_dir_eq:
  "scan_dir f dir es subs hb =
     (subs @ map (\<lambda>(c, x). dir @ [c])
        (filter (\<lambda>(c, x). fs_is_dir (dir @ [c]) f \<and> c \<noteq> ''blobs'' \<and> c \<noteq> ''_uploads'' \<and> c \<noteq> ''_quill'') es),
      hb \<or> ''blobs'' \<in> fst ` set es \<and> fs_is_dir (dir @ [''blobs'']) f)"
proof (induction es arbitrary: subs hb)
  case (Cons e es)
  obtain c x where e: "e = (c, x)" by fastforce
  show ?case unfolding e scan_dir.simps Let_def Cons.IH by auto
qed simp

lemma scan_dir_subdirs:
  assumes "scan_dir f dir es [] False = (subs, hb)" and "\<forall>(c, x) \<in> set es. c \<noteq> ''..''" and "p \<in> set subs"
  shows "length (resolve p) = Suc (length (resolve dir)) \<and> length (resolve p) \<le> fs_depth f"
proof -
  from assms(1) have "subs = map (\<lambda>(c, x). dir @ [c])
      (filter (\<lambda>(c, x). fs_is_dir (dir @ [c]) f \<and> c \<noteq> ''blobs'' \<and> c \<noteq> ''_uploads'' \<and> c \<noteq> ''_quill'') es)"
    by (simp add: scan_dir_eq)
  with assms(2,3) obtain c where c: "p = dir @ [c]" "c \<noteq> ''..''" "fs_is_dir p f" by fastforce
  then have "lookup f (resolve p) = Some FDir" by (auto simp: fs_is_dir_def dest: metadata_Inr)
  then have "length (resolve p) \<le> fs_depth f" by (rule lookup_depth)
  with c show ?thesis by (simp add: resolve_snoc walk_comp_def)
qed

lemma read_dir_plain: "fs_read_dir dir f = Inr (es, bad) \<Longrightarrow> \<forall>(c, x) \<in> set es. c \<noteq> ''..''"
  by (auto simp: fs_read_dir_def split: if_splits option.splits fnode.splits dest!: in_set_takeD child_name)

lemma mset_stack_less:
  assumes "\<forall>p \<in> set ps. length (resolve p) = Suc (length (resolve dir)) \<and> length (resolve p) \<le> n"
  shows "(mset (map (\<lambda>d. Suc n - length (resolve d)) (ps @ stack)),
     mset (map (\<lambda>d. Suc n - length (resolve d)) (dir # stack))) \<in> mult less_than"
proof -
  let ?m = "\<lambda>d. Suc n - length (resolve d)"
  have "(mset (map ?m stack) + mset (map ?m ps), mset (map ?m stack) + {#?m dir#}) \<in> mult less_than"
    using assms by (intro one_step_implies_mult) fastforce+
  then show ?thesis by (simp add: union_commute)
qed

termination discover_loop
proof (relation "inv_image (mult less_than) (\<lambda>(L, f, stack, repos). mset (map (\<lambda>d. Suc (fs_depth f) - length (resolve d)) stack))", goal_cases)
  case 1
  show ?case by (intro wf_inv_image wf_mult wf_less_than)
next
  case (2 L f dir stack repos e)
  with mset_stack_less [of "[]" dir "fs_depth f" stack] show ?case by simp
next
  case (3 L f dir stack repos)
  with mset_stack_less [of "[]" dir "fs_depth f" stack] show ?case by simp
next
  case (4 L f dir stack repos y es bad subdirs hb)
  then have "\<forall>p \<in> set subdirs. length (resolve p) = Suc (length (resolve dir)) \<and> length (resolve p) \<le> fs_depth f"
    using scan_dir_subdirs [of f dir es subdirs hb] read_dir_plain [of dir f es bad] by metis
  then have "\<forall>p \<in> set (rev subdirs). length (resolve p) = Suc (length (resolve dir)) \<and> length (resolve p) \<le> fs_depth f"
    by (simp only: set_rev)
  from mset_stack_less [OF this, of stack] show ?case by simp
qed

definition discover_repos :: "cas_layout \<Rightarrow> fs \<Rightarrow> gc_error + string list" where
  "discover_repos L f =
     (if \<not> fs_exists (root L) f then Inr [] else discover_loop L f [root L] [])"

definition gc_run :: "tags_codec \<Rightarrow> (bytes \<Rightarrow> json option) \<Rightarrow> cas_layout \<Rightarrow> digest list \<Rightarrow> bool \<Rightarrow> fs \<Rightarrow>
    (gc_error + gc_report) \<times> fs" where
  "gc_run C from_slice L extra_roots dry_run f =
     (case discover_repos L f of
        Inl e \<Rightarrow> (Inl e, f)
      | Inr repos \<Rightarrow>
     (case mark_repos C from_slice L extra_roots f repos [] 0 of
        Inl e \<Rightarrow> (Inl e, f)
      | Inr (reachable, n) \<Rightarrow>
          gc_sweep_repos dry_run reachable L repos
            (gc_report_default\<lparr>repos_scanned := length repos, roots := n, reachable_blobs := length reachable\<rparr>) f))"

fun usage_entries :: "path \<Rightarrow> (string \<times> fnode) list \<Rightarrow> bool \<Rightarrow> u64 \<Rightarrow> fs \<Rightarrow> gc_error + u64" where
  "usage_entries dir [] bad tot f = (if bad then Inl (GIo EOther) else Inr tot)"
| "usage_entries dir ((name, _) # es) bad tot f =
     (case fs_metadata (dir @ [name]) f of
        Inl e \<Rightarrow> Inl (GIo e)
      | Inr FDir \<Rightarrow> usage_entries dir es bad tot f
      | Inr (FFile b t) \<Rightarrow> usage_entries dir es bad (sat_add tot (len_u64 b)) f)"

fun usage_repos :: "cas_layout \<Rightarrow> string list \<Rightarrow> u64 \<Rightarrow> fs \<Rightarrow> gc_error + u64" where
  "usage_repos L [] tot f = Inr tot"
| "usage_repos L (repo # repos) tot f =
     (let dir = sha256_dir L repo in
      if \<not> fs_exists dir f then usage_repos L repos tot f
      else case fs_read_dir dir f of
             Inl e \<Rightarrow> Inl (GIo e)
           | Inr (es, bad) \<Rightarrow>
               (case usage_entries dir es bad tot f of
                  Inl e \<Rightarrow> Inl e
                | Inr tot1 \<Rightarrow> usage_repos L repos tot1 f))"

definition disk_usage :: "cas_layout \<Rightarrow> fs \<Rightarrow> gc_error + u64" where
  "disk_usage L f =
     (case discover_repos L f of Inl e \<Rightarrow> Inl e | Inr repos \<Rightarrow> usage_repos L repos 0 f)"

section \<open>Marking computes reachability\<close>

definition blob_reach :: "(bytes \<Rightarrow> json option) \<Rightarrow> cas_layout \<Rightarrow> fs \<Rightarrow> string \<Rightarrow> digest \<Rightarrow> digest \<Rightarrow> bool" where
  "blob_reach from_slice L f repo = (\<lambda>d e. e \<in> set (blob_refs from_slice L f repo d))\<^sup>*\<^sup>*"

lemma blob_reach_refl [simp]: "blob_reach fs L f repo d d"
  by (simp add: blob_reach_def)

lemma blob_reach_step: "e \<in> set (blob_refs fs L f repo d) \<Longrightarrow> blob_reach fs L f repo e x \<Longrightarrow> blob_reach fs L f repo d x"
  unfolding blob_reach_def by (rule converse_rtranclp_into_rtranclp)

text \<open>What is marked has its references marked, or waiting on the stack.\<close>

definition refs_closed :: "(bytes \<Rightarrow> json option) \<Rightarrow> cas_layout \<Rightarrow> fs \<Rightarrow> string \<Rightarrow> digest set \<Rightarrow> (string \<times> digest) list \<Rightarrow> bool" where
  "refs_closed from_slice L f repo W R \<longleftrightarrow>
     (\<forall>r d e. (r, d) \<in> set R \<longrightarrow> e \<in> set (blob_refs from_slice L f r d) \<longrightarrow> (r, e) \<in> set R \<or> r = repo \<and> e \<in> W)"

lemma traverse_sound:
  "(r, e) \<in> set (traverse fs L f repo stack R) \<Longrightarrow>
   (r, e) \<in> set R \<or> r = repo \<and> (\<exists>d \<in> set stack. blob_reach fs L f repo d e)"
proof (induction fs L f repo stack R rule: traverse.induct)
  case (2 fs L f repo d stack R)
  show ?case
  proof (cases "(repo, d) \<in> set R")
    case True
    with 2(1,3) show ?thesis by auto
  next
    case False
    with 2(2,3) have "(r, e) \<in> set ((repo, d) # R) \<or>
        r = repo \<and> (\<exists>x \<in> set (rev (blob_refs fs L f repo d) @ stack). blob_reach fs L f repo x e)" by simp
    then show ?thesis by (auto intro: blob_reach_step)
  qed
qed simp

lemma traverse_complete:
  "refs_closed fs L f repo (set stack) R \<Longrightarrow>
   set R \<subseteq> set (traverse fs L f repo stack R) \<and> Pair repo ` set stack \<subseteq> set (traverse fs L f repo stack R) \<and>
   refs_closed fs L f repo {} (traverse fs L f repo stack R)"
proof (induction fs L f repo stack R rule: traverse.induct)
  case (2 fs L f repo d stack R)
  show ?case
  proof (cases "(repo, d) \<in> set R")
    case True
    then have "refs_closed fs L f repo (set stack) R" using 2(3) by (auto simp: refs_closed_def)
    with 2(1) True show ?thesis by auto
  next
    case False
    have "refs_closed fs L f repo (set (rev (blob_refs fs L f repo d) @ stack)) ((repo, d) # R)"
      using 2(3) by (auto simp: refs_closed_def)
    from 2(2) [OF False this] False show ?thesis by auto
  qed
qed simp

lemma closed_reach:
  assumes "refs_closed fs L f repo {} R" and "(r, d) \<in> set R" and "blob_reach fs L f r d e"
  shows "(r, e) \<in> set R"
  using assms(3,2) unfolding blob_reach_def
proof (induction rule: rtranclp_induct)
  case (step y z)
  with assms(1) show ?case by (auto simp: refs_closed_def)
qed

lemma closed_any: "refs_closed fs L f repo {} R \<Longrightarrow> refs_closed fs L f repo' W R"
  by (auto simp: refs_closed_def)

lemma traverse_marks:
  assumes "refs_closed fs L f repo {} R"
  shows "(r', e) \<in> set (traverse fs L f repo [r] R) \<longleftrightarrow> (r', e) \<in> set R \<or> r' = repo \<and> blob_reach fs L f repo r e"
    and "refs_closed fs L f repo {} (traverse fs L f repo [r] R)"
proof -
  note c = traverse_complete [OF closed_any [OF assms], of repo "[r]"]
  from c show cl: "refs_closed fs L f repo {} (traverse fs L f repo [r] R)" by blast
  have "(repo, r) \<in> set (traverse fs L f repo [r] R)" using c by simp
  with closed_reach [OF cl] have "blob_reach fs L f repo r e \<Longrightarrow> (repo, e) \<in> set (traverse fs L f repo [r] R)" by blast
  with c traverse_sound [of r' e fs L f repo "[r]" R]
  show "(r', e) \<in> set (traverse fs L f repo [r] R) \<longleftrightarrow> (r', e) \<in> set R \<or> r' = repo \<and> blob_reach fs L f repo r e" by auto
qed

lemma mark_roots_marks:
  "refs_closed fs L f repo {} R \<Longrightarrow>
   ((r', e) \<in> set (mark_roots fs L f repo rs R) \<longleftrightarrow> (r', e) \<in> set R \<or> r' = repo \<and> (\<exists>r \<in> set rs. blob_reach fs L f repo r e)) \<and>
   refs_closed fs L f repo {} (mark_roots fs L f repo rs R)"
proof (induction fs L f repo rs R rule: mark_roots.induct)
  case (2 fs L f repo r rs R)
  from 2(1) [OF traverse_marks(2) [OF 2(2)]] traverse_marks(1) [OF 2(2), of r' e r] show ?case by auto
qed simp

text \<open>The blobs of a repository that its tags and the extra roots reach.\<close>

definition gc_live :: "tags_codec \<Rightarrow> (bytes \<Rightarrow> json option) \<Rightarrow> cas_layout \<Rightarrow> digest list \<Rightarrow> fs \<Rightarrow> string \<Rightarrow> digest \<Rightarrow> bool" where
  "gc_live C from_slice L extra f repo d \<longleftrightarrow>
     (\<exists>rs r. repo_roots C L extra f repo = Inr rs \<and> r \<in> set rs \<and> blob_reach from_slice L f repo r d)"

lemma mark_repos_marks:
  "refs_closed fs L f repo {} R \<Longrightarrow> mark_repos C fs L extra f repos R n = Inr (R', m) \<Longrightarrow>
   (r', d) \<in> set R' \<longleftrightarrow> (r', d) \<in> set R \<or> r' \<in> set repos \<and> gc_live C fs L extra f r' d"
proof (induction C fs L extra f repos R n arbitrary: R' m rule: mark_repos.induct)
  case (2 C fs L extra f r repos R n)
  from 2(3) obtain rs where rs: "repo_roots C L extra f r = Inr rs"
    and m: "mark_repos C fs L extra f repos (mark_roots fs L f r rs R) (n + length rs) = Inr (R', m)"
    by (auto split: sum.splits)
  have mr: "((r', d) \<in> set (mark_roots fs L f r rs R) \<longleftrightarrow> (r', d) \<in> set R \<or> r' = r \<and> (\<exists>x \<in> set rs. blob_reach fs L f r x d)) \<and>
      refs_closed fs L f r {} (mark_roots fs L f r rs R)"
    by (rule mark_roots_marks [OF closed_any [OF 2(2)]])
  have "gc_live C fs L extra f r d \<longleftrightarrow> (\<exists>x \<in> set rs. blob_reach fs L f r x d)"
    by (auto simp: gc_live_def rs)
  with 2(1) [OF rs closed_any [OF conjunct2 [OF mr]] m] mr show ?case by auto
qed simp

section \<open>Sweeping removes exactly the unmarked blobs\<close>

definition doomed :: "(string \<times> digest) list \<Rightarrow> string \<Rightarrow> string \<Rightarrow> fnode option \<Rightarrow> bool" where
  "doomed R repo c n \<longleftrightarrow> is_file_node n \<and> (\<exists>d. digest_parse (''sha256:'' @ c) = Inr d \<and> (repo, d) \<notin> set R)"

lemma sweep_entry:
  assumes nf: "no_faults f" and n: "lookup f (resolve dir @ [c]) = Some n" and c: "c \<noteq> ''..''"
  obtains rep' f' where "gc_sweep_entries dry R repo dir ((c, x) # es) False rep f = gc_sweep_entries dry R repo dir es False rep' f'"
    "no_faults f'" "\<And>q. lookup f' q = (if \<not> dry \<and> q = resolve dir @ [c] \<and> doomed R repo c (Some n) then None else lookup f q)"
proof -
  let ?p = "dir @ [c]"
  have r: "resolve ?p = resolve dir @ [c]" using c by (simp add: resolve_snoc walk_comp_def)
  have md: "fs_metadata ?p f = Inr n" using nf n by (simp add: fs_metadata_def node_at_def r)
  show thesis
  proof (cases "doomed R repo c (Some n) \<and> \<not> dry")
    case True
    then obtain b t d where n': "n = FFile b t" and d: "digest_parse (''sha256:'' @ c) = Inr d" "(repo, d) \<notin> set R"
      by (cases n) (auto simp: doomed_def)
    have rm: "fs_remove_file ?p f = (Inr (), drop_node (resolve ?p) f)"
      using nf n n' by (simp add: fs_remove_file_def node_at_def r)
    show thesis
    proof (rule that)
      show "gc_sweep_entries dry R repo dir ((c, x) # es) False rep f = gc_sweep_entries dry R repo dir es False
        (rep\<lparr>on_disk_blobs := on_disk_blobs rep + 1, deleted := deleted rep + 1, bytes_freed := sat_add (bytes_freed rep) (len_u64 b)\<rparr>)
        (drop_node (resolve ?p) f)"
        using md n' d True rm by (simp add: Let_def)
      show "no_faults (drop_node (resolve ?p) f)" using nf by (simp add: no_faults_def)
      show "lookup (drop_node (resolve ?p) f) q =
          (if \<not> dry \<and> q = resolve dir @ [c] \<and> doomed R repo c (Some n) then None else lookup f q)" for q
        using True by (simp add: r lookup_drop)
    qed
  next
    case False
    then have "\<exists>rep'. gc_sweep_entries dry R repo dir ((c, x) # es) False rep f = gc_sweep_entries dry R repo dir es False rep' f"
      using md by (cases n) (auto simp: doomed_def Let_def split: sum.splits)
    then obtain rep' where "gc_sweep_entries dry R repo dir ((c, x) # es) False rep f = gc_sweep_entries dry R repo dir es False rep' f" ..
    with False nf show thesis by (intro that) auto
  qed
qed

lemma sweep_entries_exact:
  assumes "no_faults f" and "\<forall>(c, n) \<in> set es. lookup f (resolve dir @ [c]) = Some n \<and> c \<noteq> ''..''" and "distinct (map fst es)"
  shows "\<exists>rep' f'. gc_sweep_entries dry R repo dir es False rep f = (Inr rep', f') \<and> no_faults f' \<and>
    (\<forall>q. lookup f' q = (if \<not> dry \<and> (\<exists>(c, n) \<in> set es. q = resolve dir @ [c] \<and> doomed R repo c (Some n)) then None else lookup f q))"
  using assms
proof (induction es arbitrary: rep f)
  case (Cons e es)
  obtain c n where e: "e = (c, n)" by fastforce
  have n: "lookup f (resolve dir @ [c]) = Some n" "c \<noteq> ''..''" using Cons.prems(2) e by auto
  obtain rep1 f1 where s: "gc_sweep_entries dry R repo dir ((c, n) # es) False rep f = gc_sweep_entries dry R repo dir es False rep1 f1"
    "no_faults f1" "\<And>q. lookup f1 q = (if \<not> dry \<and> q = resolve dir @ [c] \<and> doomed R repo c (Some n) then None else lookup f q)"
    by (rule sweep_entry [OF Cons.prems(1) n, of dry R repo n es rep]) (rule that)
  have "\<forall>(c, n) \<in> set es. lookup f1 (resolve dir @ [c]) = Some n \<and> c \<noteq> ''..''"
    using Cons.prems(2,3) e s(3) by (auto simp: rev_image_eqI)
  from Cons.IH [OF s(2) this, of rep1] Cons.prems(3) obtain rep' f' where f': "gc_sweep_entries dry R repo dir es False rep1 f1 = (Inr rep', f')"
    "no_faults f'" "\<forall>q. lookup f' q = (if \<not> dry \<and> (\<exists>(c, n) \<in> set es. q = resolve dir @ [c] \<and> doomed R repo c (Some n)) then None else lookup f1 q)"
    unfolding e list.map distinct.simps by blast
  then show ?case unfolding e s(1) by (intro exI [of _ rep'] exI [of _ f']) (simp add: s(3))
qed simp

lemma children_distinct:
  assumes "fs_ok f"
  shows "distinct (map fst (children f r))"
proof -
  have "distinct (map fst xs) \<Longrightarrow>
      distinct (map fst (map (\<lambda>(q, n). (last q, n)) (filter (\<lambda>(q, n). q \<noteq> [] \<and> butlast q = r \<and> last q \<noteq> ''..'') xs)))"
    for xs :: "(path \<times> fnode) list"
  proof (induction xs)
    case (Cons x xs)
    then show ?case by (cases x) (auto simp: image_iff, metis append_butlast_last_id fst_conv)
  qed simp
  with assms show ?thesis by (simp add: children_def fs_ok_def)
qed

lemma sha256_dir_resolve: "resolve (sha256_dir L repo) = rdir L repo @ [''blobs'', ''sha256'']"
  by (simp add: sha256_dir_def path_simps rdir_def)

lemma read_dir_no_faults:
  assumes "no_faults f" and "fs_ok f" and "fs_read_dir dir f = Inr (es, bad)"
  shows "\<not> bad" and "distinct (map fst es)"
    and "(c, n) \<in> set es \<longleftrightarrow> lookup f (resolve dir @ [c]) = Some n"
proof -
  have "es = children f (resolve dir) \<and> \<not> bad"
    using assms by (auto simp: fs_read_dir_def no_faults_def split: if_splits option.splits fnode.splits)
  with assms(2) show "\<not> bad" "distinct (map fst es)" "(c, n) \<in> set es \<longleftrightarrow> lookup f (resolve dir @ [c]) = Some n"
    by (auto simp: children_distinct children_iff)
qed

text \<open>The files a sweep with the marks \<open>R\<close> removes.\<close>

definition condemned :: "(string \<times> digest) list \<Rightarrow> cas_layout \<Rightarrow> string list \<Rightarrow> fs \<Rightarrow> path \<Rightarrow> bool" where
  "condemned R L repos f q \<longleftrightarrow>
     (\<exists>repo c. repo \<in> set repos \<and> q = rdir L repo @ [''blobs'', ''sha256'', c] \<and> doomed R repo c (lookup f q))"

lemma gc_entries_ok: "fs_ok f \<Longrightarrow> fs_ok (snd (gc_sweep_entries dry R repo dir es bad rep f))"
proof (induction dry R repo dir es bad rep f rule: gc_sweep_entries.induct)
  case (2 dry R repo dir name x es bad rep f)
  show ?case
    using 2 sys_remove.keeps_ok [OF 2(6), of "dir @ [name]"]
    by (auto simp: Let_def split: sum.splits fnode.splits prod.splits)
qed simp

lemma sweep_repo_exact:
  assumes nf: "no_faults f" and ok: "fs_ok f" and es: "fs_read_dir (sha256_dir L repo) f = Inr (es, bad)"
    and e: "gc_sweep_entries dry R repo (sha256_dir L repo) es bad rep f = (Inr rep1, f1)"
  shows "no_faults f1" and "fs_ok f1"
    and "lookup f1 p = (if \<not> dry \<and> condemned R L [repo] f p then None else lookup f p)"
proof -
  let ?dir = "sha256_dir L repo"
  note r = sha256_dir_resolve [of L repo] and rd = read_dir_no_faults [OF nf ok es]
  have "\<forall>(c, n) \<in> set es. lookup f (resolve ?dir @ [c]) = Some n \<and> c \<noteq> ''..''"
    using rd(3) read_dir_plain [OF es] by auto
  from sweep_entries_exact [OF nf this rd(2), of dry R repo rep] e rd(1)
  have l1: "lookup f1 p = (if \<not> dry \<and> (\<exists>(c, n) \<in> set es. p = resolve ?dir @ [c] \<and> doomed R repo c (Some n)) then None else lookup f p)"
    and nf1: "no_faults f1" by auto
  show "no_faults f1" by (rule nf1)
  show "fs_ok f1" using gc_entries_ok [OF ok, of dry R repo ?dir es bad rep] e by simp
  have "(\<exists>(c, n) \<in> set es. p = resolve ?dir @ [c] \<and> doomed R repo c (Some n)) \<longleftrightarrow> condemned R L [repo] f p"
  proof
    assume "condemned R L [repo] f p"
    then obtain c where c: "p = resolve ?dir @ [c]" "doomed R repo c (lookup f p)" by (auto simp: condemned_def r)
    then obtain n where n: "lookup f p = Some n" by (cases "lookup f p") (auto simp: doomed_def)
    with c(1) rd(3) have "(c, n) \<in> set es" by simp
    with c n show "\<exists>(c, n) \<in> set es. p = resolve ?dir @ [c] \<and> doomed R repo c (Some n)"
      by (intro bexI [of _ "(c, n)"]) simp_all
  qed (use rd(3) in \<open>auto simp: condemned_def r\<close>)
  with l1 show "lookup f1 p = (if \<not> dry \<and> condemned R L [repo] f p then None else lookup f p)" by simp
qed

lemma sweep_repos_exact:
  assumes "no_faults f" and "fs_ok f" and "gc_sweep_repos dry R L repos rep f = (Inr rep', f')"
  shows "lookup f' q = (if \<not> dry \<and> condemned R L repos f q then None else lookup f q)"
  using assms
proof (induction repos arbitrary: rep f)
  case (Cons repo repos)
  let ?dir = "sha256_dir L repo"
  note r = sha256_dir_resolve [of L repo]
  show ?case
  proof (cases "fs_exists ?dir f")
    case False
    then have "lookup f (rdir L repo @ [''blobs'', ''sha256'']) = None"
      using Cons.prems(1) by (auto simp: fs_exists_def fs_metadata_def node_at_def r split: option.splits)
    then have "lookup f (rdir L repo @ [''blobs'', ''sha256'', c]) = None" for c
      using fs_okD [OF Cons.prems(2), of "rdir L repo @ [''blobs'', ''sha256'', c]"] by (auto simp: butlast_append)
    then have "condemned R L (repo # repos) f q \<longleftrightarrow> condemned R L repos f q"
      by (auto simp: condemned_def doomed_def)
    with Cons.IH [OF Cons.prems(1,2), of rep] Cons.prems(3) False show ?thesis by simp
  next
    case True
    from Cons.prems(3) True obtain es bad rep1 f1 where es: "fs_read_dir ?dir f = Inr (es, bad)"
      and e: "gc_sweep_entries dry R repo ?dir es bad rep f = (Inr rep1, f1)"
      and rest: "gc_sweep_repos dry R L repos rep1 f1 = (Inr rep', f')"
      by (auto simp: Let_def split: sum.splits prod.splits)
    note one = sweep_repo_exact [OF Cons.prems(1,2) es e]
    have "condemned R L (repo # repos) f q \<longleftrightarrow> condemned R L [repo] f q \<or> condemned R L repos f q"
      by (auto simp: condemned_def)
    moreover have "condemned R L repos f1 q \<longleftrightarrow> condemned R L repos f q" if "lookup f1 q = lookup f q"
      using that by (simp add: condemned_def)
    moreover have "\<not> condemned R L repos f1 q" if "lookup f1 q = None"
      using that by (simp add: condemned_def doomed_def)
    ultimately show ?thesis
      using Cons.IH [OF one(1,2) rest] one(3) [of q] by (auto split: if_splits)
  qed
qed (simp add: condemned_def)

lemma sweep_repos_ok:
  assumes "no_faults f" and "fs_ok f" and "\<forall>repo \<in> set repos. file_at f (rdir L repo @ [''blobs'', ''sha256'']) = None"
  shows "\<exists>rep' f'. gc_sweep_repos dry R L repos rep f = (Inr rep', f')"
  using assms
proof (induction repos arbitrary: rep f)
  case (Cons repo repos)
  let ?dir = "sha256_dir L repo"
  show ?case
  proof (cases "fs_exists ?dir f")
    case True
    then have "lookup f (resolve ?dir) = Some FDir"
      using Cons.prems by (auto simp: fs_exists_def fs_metadata_def node_at_def sha256_dir_resolve file_at_def
          split: option.splits sum.splits if_splits fnode.splits)
    then obtain es bad where es: "fs_read_dir ?dir f = Inr (es, bad)"
      using Cons.prems(1) by (auto simp: fs_read_dir_def node_at_def no_faults_def)
    note rd = read_dir_no_faults [OF Cons.prems(1,2) es]
    have "\<forall>(c, n) \<in> set es. lookup f (resolve ?dir @ [c]) = Some n \<and> c \<noteq> ''..''"
      using rd(3) read_dir_plain [OF es] by auto
    from sweep_entries_exact [OF Cons.prems(1) this rd(2), of dry R repo rep] rd(1)
    obtain rep1 f1 where e: "gc_sweep_entries dry R repo ?dir es bad rep f = (Inr rep1, f1)" "no_faults f1"
      and l: "\<And>q. lookup f1 q = None \<or> lookup f1 q = lookup f q" by (auto split: if_splits)
    have "fs_ok f1" using gc_entries_ok [OF Cons.prems(2), of dry R repo ?dir es bad rep] e by simp
    moreover have "\<forall>r \<in> set repos. file_at f1 (rdir L r @ [''blobs'', ''sha256'']) = None"
    proof
      fix r assume "r \<in> set repos"
      then show "file_at f1 (rdir L r @ [''blobs'', ''sha256'']) = None"
        using Cons.prems(3) l [of "rdir L r @ [''blobs'', ''sha256'']"] by (auto simp: file_at_def)
    qed
    ultimately show ?thesis using Cons.IH [of f1 rep1] e True es by (simp add: Let_def)
  qed (use Cons in simp)
qed simp

lemma gc_run_phases:
  assumes "gc_run C js L extra dry f = (Inr rep, f')" and "discover_repos L f = Inr repos"
  obtains R n rep0 where "mark_repos C js L extra f repos [] 0 = Inr (R, n)" "gc_sweep_repos dry R L repos rep0 f = (Inr rep, f')"
    "\<And>r d. (r, d) \<in> set R \<longleftrightarrow> r \<in> set repos \<and> gc_live C js L extra f r d"
proof -
  from assms obtain R n rep0 where m: "mark_repos C js L extra f repos [] 0 = Inr (R, n)"
    and s: "gc_sweep_repos dry R L repos rep0 f = (Inr rep, f')"
    by (auto simp: gc_run_def split: sum.splits)
  have "refs_closed js L f repo {} []" for repo by (simp add: refs_closed_def)
  from mark_repos_marks [OF this m] m s show thesis by (intro that) auto
qed

lemma parse_hex64: "hex64 h \<Longrightarrow> digest_parse (''sha256:'' @ h) = Inr d \<longleftrightarrow> d = sha256_digest h"
  using digest_parse_prefix [of h] by auto


definition gc_demo_fs :: fs where
  "gc_demo_fs = \<lparr>nodes = [([''q''], FDir), ([''q'', ''r''], FDir), ([''q'', ''r'', ''blobs''], FDir), ([''q'', ''r'', ''blobs'', ''sha256''], FDir),
     ([''q'', ''r'', ''blobs'', ''sha256'', replicate 64 (CHR ''0'')], FFile [1] 0),
     ([''q'', ''r'', ''blobs'', ''sha256'', replicate 64 (CHR ''1'')], FFile [2] 0)], faults = (\<lambda>_ _. None)\<rparr>"


lemma dry_entries: "gc_sweep_entries True R repo dir es bad rep f = (x, g) \<Longrightarrow> g = f"
  by (induction es arbitrary: rep) (auto simp: Let_def split: sum.splits fnode.splits if_splits)

lemma dry_repos: "gc_sweep_repos True R L repos rep f = (x, g) \<Longrightarrow> g = f"
  by (induction repos arbitrary: rep)
    (auto simp: Let_def dest!: dry_entries split: sum.splits prod.splits if_splits)

text \<open>
  A dry run changes nothing, whatever fails.
\<close>

lemma gc_dry_run:
  "snd (gc_run C from_slice L extra_roots True f) = f"
proof -
  have "snd (gc_sweep_repos True R L repos rep f) = f" for R repos rep
    by (cases "gc_sweep_repos True R L repos rep f") (auto dest: dry_repos)
  then show ?thesis by (auto simp: gc_run_def split: sum.splits)
qed

end
