(* ===== verification/Startup_Scan.thy ===== *)
theory Startup_Scan
  imports Gc Tag_Cache
begin

text \<open>
  The walk of \<^verbatim>\<open>crates/quill-server/src/main.rs\<close> over the cache directory at start-up:
  \<^verbatim>\<open>load_existing_local_tags\<close> and \<^verbatim>\<open>load_existing_upstream_tags\<close> are the same loop over a stack of
  directories, for two names of sidecar files and two \<^verbatim>\<open>load_repo\<close> operations.  Which repositories are
  found, and what the stores hold afterwards.
\<close>

section \<open>The walk\<close>

text \<open>The entries of one directory: directories are pushed, a sidecar file is loaded.\<close>

fun scan_entries :: "string \<Rightarrow> (string \<Rightarrow> 'm \<Rightarrow> 'm) \<Rightarrow> fs \<Rightarrow> path \<Rightarrow> path \<Rightarrow> (string \<times> fnode) list \<Rightarrow> path list \<Rightarrow> 'm \<Rightarrow> path list \<times> 'm" where
  "scan_entries sidecar load_repo f rt dir [] stack m = (stack, m)"
| "scan_entries sidecar load_repo f rt dir ((name, _) # es) stack m =
     (let p = dir @ [name] in
      if fs_is_dir p f
      then if name = ''blobs'' \<or> name = ''_uploads''
           then scan_entries sidecar load_repo f rt dir es stack m
           else scan_entries sidecar load_repo f rt dir es (p # stack) m
      else if name = sidecar
      then (case strip_prefix_str rt dir of
              Some repo_rel \<Rightarrow> scan_entries sidecar load_repo f rt dir es stack (load_repo (path_str repo_rel) m)
            | None \<Rightarrow> scan_entries sidecar load_repo f rt dir es stack m)
      else scan_entries sidecar load_repo f rt dir es stack m)"

text \<open>What one directory contributes: the directories pushed, and the sidecar, if it is there.\<close>

definition pushed_dirs :: "fs \<Rightarrow> path \<Rightarrow> (string \<times> fnode) list \<Rightarrow> path list" where
  "pushed_dirs f dir es = map (\<lambda>(c, x). dir @ [c])
     (filter (\<lambda>(c, x). fs_is_dir (dir @ [c]) f \<and> c \<noteq> ''blobs'' \<and> c \<noteq> ''_uploads'') es)"

definition found_sidecars :: "string \<Rightarrow> fs \<Rightarrow> path \<Rightarrow> path \<Rightarrow> (string \<times> fnode) list \<Rightarrow> path list" where
  "found_sidecars sidecar f rt dir es =
     (case strip_prefix_str rt dir of
        None \<Rightarrow> []
      | Some rel \<Rightarrow> map (\<lambda>_. rel) (filter (\<lambda>(c, x). c = sidecar \<and> \<not> fs_is_dir (dir @ [c]) f) es))"

lemma scan_entries_eq:
  "scan_entries sidecar ld f rt dir es stack m =
     (rev (pushed_dirs f dir es) @ stack, fold (\<lambda>rel. ld (path_str rel)) (found_sidecars sidecar f rt dir es) m)"
proof (induction es arbitrary: stack m)
  case (Cons e es)
  obtain c x where e: "e = (c, x)" by fastforce
  show ?case unfolding e scan_entries.simps Let_def Cons.IH
    by (cases "fs_is_dir (dir @ [c]) f"; cases "c = ''blobs'' \<or> c = ''_uploads''"; cases "c = sidecar"; cases "strip_prefix_str rt dir")
      (simp_all add: pushed_dirs_def found_sidecars_def del: strip_prefix_str_Some)
qed (simp add: pushed_dirs_def found_sidecars_def split: option.splits)

lemma pushed_dirs_deeper:
  assumes "fs_read_dir dir f = Inr (es, bad)" and "p \<in> set (pushed_dirs f dir es)"
  shows "length (resolve p) = Suc (length (resolve dir)) \<and> length (resolve p) \<le> fs_depth f"
proof -
  from assms(2) read_dir_plain [OF assms(1)] obtain c where c: "p = dir @ [c]" "c \<noteq> ''..''" "fs_is_dir p f"
    by (fastforce simp: pushed_dirs_def)
  then have "lookup f (resolve p) = Some FDir" by (auto simp: fs_is_dir_def dest: metadata_Inr)
  then have "length (resolve p) \<le> fs_depth f" by (rule lookup_depth)
  with c show ?thesis by (simp add: resolve_snoc walk_comp_def)
qed

function (sequential) scan_loop :: "string \<Rightarrow> (string \<Rightarrow> 'm \<Rightarrow> 'm) \<Rightarrow> fs \<Rightarrow> path \<Rightarrow> path list \<Rightarrow> 'm \<Rightarrow> 'm" where
  "scan_loop sidecar load_repo f rt [] m = m"
| "scan_loop sidecar load_repo f rt (dir # stack) m =
     (case fs_read_dir dir f of
        Inl _ \<Rightarrow> scan_loop sidecar load_repo f rt stack m
      | Inr (es, _) \<Rightarrow>
          (case scan_entries sidecar load_repo f rt dir es stack m of
             (stack', m') \<Rightarrow> scan_loop sidecar load_repo f rt stack' m'))"
  by pat_completeness auto

definition walk_rank :: "fs \<Rightarrow> path list \<Rightarrow> nat multiset" where
  "walk_rank f stack = mset (map (\<lambda>d. Suc (fs_depth f) - length (resolve d)) stack)"

lemma walk_rank_less:
  assumes "\<And>p. p \<in> set ps \<Longrightarrow> length (resolve p) = Suc (length (resolve dir)) \<and> length (resolve p) \<le> fs_depth f"
  shows "(walk_rank f (ps @ stack), walk_rank f (dir # stack)) \<in> mult less_than"
  unfolding walk_rank_def by (rule mset_stack_less) (use assms in blast)

termination scan_loop
proof (relation "inv_image (mult less_than) (\<lambda>(s, l, f, rt, stack, m). walk_rank f stack)", goal_cases)
  case 1
  show ?case by (intro wf_inv_image wf_mult wf_less_than)
next
  case (2 s l f rt dir stack m e)
  with walk_rank_less [of "[]" dir f stack] show ?case by simp
next
  case (3 s l f rt dir stack m y es bad stack' m')
  then have "stack' = rev (pushed_dirs f dir es) @ stack" by (simp add: scan_entries_eq)
  moreover have "(walk_rank f (rev (pushed_dirs f dir es) @ stack), walk_rank f (dir # stack)) \<in> mult less_than"
    by (rule walk_rank_less) (use 3(1,2) in \<open>auto dest: pushed_dirs_deeper [of dir f es bad]\<close>)
  ultimately show ?case by simp
qed

definition load_existing_local_tags :: "tags_codec \<Rightarrow> path \<Rightarrow> fs \<Rightarrow> local_tags_store \<Rightarrow> local_tags_store" where
  "load_existing_local_tags C rt f T =
     (if \<not> fs_exists rt f then T
      else scan_loop ''_local_tags.json'' (\<lambda>repo T. snd (tags_load_repo C repo f T)) f rt [rt] T)"

definition load_existing_upstream_tags :: "map_codec \<Rightarrow> nat \<Rightarrow> path \<Rightarrow> fs \<Rightarrow> upstream_tag_cache \<Rightarrow> upstream_tag_cache" where
  "load_existing_upstream_tags C now rt f T =
     (if \<not> fs_exists rt f then T
      else scan_loop ''_upstream_tags.json'' (\<lambda>repo. tcache_load_repo C now repo f) f rt [rt] T)"

section \<open>What the walk visits\<close>

text \<open>The directories read, in order, and the sidecars found in them.\<close>

function (sequential) visited :: "fs \<Rightarrow> path list \<Rightarrow> path list" where
  "visited f [] = []"
| "visited f (dir # stack) =
     dir # (case fs_read_dir dir f of
              Inl _ \<Rightarrow> visited f stack
            | Inr (es, _) \<Rightarrow> visited f (rev (pushed_dirs f dir es) @ stack))"
  by pat_completeness auto

termination visited
proof (relation "inv_image (mult less_than) (\<lambda>(f, stack). walk_rank f stack)", goal_cases)
  case 1
  show ?case by (intro wf_inv_image wf_mult wf_less_than)
next
  case (2 f dir stack e)
  with walk_rank_less [of "[]" dir f stack] show ?case by simp
next
  case (3 f dir stack y es bad)
  have "(walk_rank f (rev (pushed_dirs f dir es) @ stack), walk_rank f (dir # stack)) \<in> mult less_than"
    by (rule walk_rank_less) (use 3 in \<open>auto dest: pushed_dirs_deeper [of dir f es bad]\<close>)
  then show ?case by simp
qed

definition sidecars_in :: "string \<Rightarrow> fs \<Rightarrow> path \<Rightarrow> path \<Rightarrow> path list" where
  "sidecars_in sidecar f rt dir =
     (case fs_read_dir dir f of Inl _ \<Rightarrow> [] | Inr (es, _) \<Rightarrow> found_sidecars sidecar f rt dir es)"

lemma scan_loop_fold:
  "scan_loop sidecar ld f rt stack m =
   fold (\<lambda>rel. ld (path_str rel)) (concat (map (sidecars_in sidecar f rt) (visited f stack))) m"
proof (induction sidecar ld f rt stack m rule: scan_loop.induct)
  case (2 sidecar ld f rt dir stack m)
  show ?case
  proof (cases "fs_read_dir dir f")
    case (Inl e)
    with 2(1) [OF Inl] show ?thesis by (simp add: sidecars_in_def)
  next
    case (Inr y)
    then obtain es bad where y: "fs_read_dir dir f = Inr (es, bad)" by (cases y) auto
    from 2(2) [OF y refl scan_entries_eq [symmetric]] y show ?thesis by (simp add: scan_entries_eq sidecars_in_def)
  qed
qed simp


text \<open>A path below the root that the walk enters: none of its components is skipped.\<close>

definition entered :: "path \<Rightarrow> bool" where
  "entered rel \<longleftrightarrow> ''blobs'' \<notin> set rel \<and> ''_uploads'' \<notin> set rel"

lemma entered_simps [simp]: "entered []" "entered (c # rel) \<longleftrightarrow> c \<noteq> ''blobs'' \<and> c \<noteq> ''_uploads'' \<and> entered rel"
  by (auto simp: entered_def)

lemma is_dir_lookup: "no_faults f \<Longrightarrow> fs_is_dir p f \<longleftrightarrow> lookup f (resolve p) = Some FDir"
  by (auto simp: fs_is_dir_def fs_metadata_def node_at_def split: option.splits)

lemma read_dir_children:
  "no_faults f \<Longrightarrow> lookup f (resolve dir) = Some FDir \<Longrightarrow> fs_read_dir dir f = Inr (children f (resolve dir), False)"
  by (simp add: fs_read_dir_def node_at_def no_faults_def failing_def)

lemma dir_chain: "fs_ok f \<Longrightarrow> lookup f (q @ rel) = Some n \<Longrightarrow> rel \<noteq> [] \<Longrightarrow> lookup f q = Some FDir"
proof (induction rel arbitrary: n rule: rev_induct)
  case (snoc c rel)
  then have "lookup f (q @ rel) = Some FDir" using fs_okD [of f "q @ rel @ [c]" n] by (simp add: butlast_append)
  with snoc show ?case by (cases "rel = []") auto
qed simp

lemma child_not_dotdot: "fs_ok f \<Longrightarrow> lookup f (q @ rel) = Some n \<Longrightarrow> ''..'' \<notin> set rel"
  using fs_ok_canonical [of f "q @ rel" n] by auto

lemma pushed_children:
  assumes "no_faults f" and "fs_ok f"
  shows "p \<in> set (pushed_dirs f dir (children f (resolve dir))) \<longleftrightarrow>
    (\<exists>c. p = dir @ [c] \<and> entered [c] \<and> lookup f (resolve dir @ [c]) = Some FDir)"
proof -
  have "p \<in> set (pushed_dirs f dir (children f (resolve dir))) \<longleftrightarrow>
      (\<exists>c x. p = dir @ [c] \<and> entered [c] \<and> (c, x) \<in> set (children f (resolve dir)) \<and> fs_is_dir (dir @ [c]) f)"
    by (auto simp: pushed_dirs_def)
  also have "\<dots> \<longleftrightarrow> (\<exists>c. p = dir @ [c] \<and> entered [c] \<and> lookup f (resolve dir @ [c]) = Some FDir)"
  proof -
    have "(\<exists>x. (c, x) \<in> set (children f (resolve dir)) \<and> fs_is_dir (dir @ [c]) f) \<longleftrightarrow> lookup f (resolve dir @ [c]) = Some FDir" for c
      using child_not_dotdot [OF assms(2), of "resolve dir" "[c]"]
      by (auto simp: children_iff [OF assms(2)] is_dir_lookup [OF assms(1)] resolve_snoc walk_comp_def)
    then show ?thesis by blast
  qed
  finally show ?thesis .
qed

lemma ex_list_cases: "(\<exists>xs. P xs) \<longleftrightarrow> P [] \<or> (\<exists>x xs. P (x # xs))"
  by (metis list.exhaust)

text \<open>The directories below the children that are pushed are those properly below the directory.\<close>

lemma below_pushed:
  fixes d dir :: path
  assumes nf: "no_faults f" and ok: "fs_ok f"
  defines "below \<equiv> \<lambda>s rel. d = s @ rel \<and> entered rel \<and> (rel = [] \<or> lookup f (resolve s @ rel) = Some FDir)"
  shows "(\<exists>s \<in> set (pushed_dirs f dir (children f (resolve dir))). \<exists>rel. below s rel) \<longleftrightarrow> (\<exists>c rel. below dir (c # rel))"
    (is "(\<exists>s \<in> set ?ps. _) \<longleftrightarrow> _")
proof
  have r: "resolve (dir @ [c]) = resolve dir @ [c]" if "lookup f (resolve dir @ [c]) = Some FDir" for c
    using child_not_dotdot [OF ok that] by (auto simp: resolve_snoc walk_comp_def)
  {
    assume "\<exists>s \<in> set ?ps. \<exists>rel. below s rel"
    then obtain s rel where sp: "s \<in> set ?ps" and sb: "below s rel" by (elim bexE exE)
    from sp obtain c where s: "s = dir @ [c]" "entered [c]" "lookup f (resolve dir @ [c]) = Some FDir"
      unfolding pushed_children [OF nf ok] by (elim exE conjE)
    from s(1) sb have d: "d = dir @ c # rel" "entered rel" "rel = [] \<or> lookup f (resolve (dir @ [c]) @ rel) = Some FDir"
      by (simp_all add: below_def)
    have "lookup f (resolve dir @ c # rel) = Some FDir" using d(3) s(3) r [OF s(3)] by (cases rel) simp_all
    with d(1,2) s(2) have "below dir (c # rel)" by (simp add: below_def)
    then show "\<exists>c rel. below dir (c # rel)" by blast
  next
    assume "\<exists>c rel. below dir (c # rel)"
    then obtain c rel where c: "d = dir @ c # rel" "entered (c # rel)" "lookup f (resolve dir @ c # rel) = Some FDir"
      unfolding below_def by blast
    then have l: "lookup f (resolve dir @ [c]) = Some FDir"
      using dir_chain [OF ok, of "resolve dir @ [c]" rel FDir] by (cases rel) auto
    have "below (dir @ [c]) rel" using c r [OF l] by (simp add: below_def)
    moreover have "dir @ [c] \<in> set ?ps" unfolding pushed_children [OF nf ok] using c(2) l by simp
    ultimately show "\<exists>s \<in> set ?ps. \<exists>rel. below s rel" by (intro bexI exI)
  }
qed

lemma visited_iff:
  assumes "no_faults f" and "fs_ok f"
  shows "d \<in> set (visited f stack) \<longleftrightarrow>
    (\<exists>s \<in> set stack. \<exists>rel. d = s @ rel \<and> entered rel \<and> (rel = [] \<or> lookup f (resolve s @ rel) = Some FDir))"
  using assms
proof (induction f stack rule: visited.induct)
  case (2 f dir stack)
  note nf = 2(3) and ok = 2(4)
  let ?below = "\<lambda>s rel. d = s @ rel \<and> entered rel \<and> (rel = [] \<or> lookup f (resolve s @ rel) = Some FDir)"
  show ?case
  proof (cases "lookup f (resolve dir) = Some FDir")
    case True
    let ?ps = "pushed_dirs f dir (children f (resolve dir))"
    note rd = read_dir_children [OF nf True]
    have a: "(\<exists>s \<in> set ?ps. \<exists>rel. ?below s rel) \<longleftrightarrow> (\<exists>c rel. ?below dir (c # rel))" by (rule below_pushed [OF nf ok])
    have b: "(\<exists>rel. ?below dir rel) \<longleftrightarrow> d = dir \<or> (\<exists>c rel. ?below dir (c # rel))"
      by (subst ex_list_cases) simp
    have "d \<in> set (visited f (dir # stack)) \<longleftrightarrow> d = dir \<or> (\<exists>s \<in> set (rev ?ps @ stack). \<exists>rel. ?below s rel)"
      using 2(2) [OF rd refl nf ok] by (simp add: rd)
    also have "\<dots> \<longleftrightarrow> (\<exists>rel. ?below dir rel) \<or> (\<exists>s \<in> set stack. \<exists>rel. ?below s rel)"
      unfolding set_append set_rev bex_Un a b by (rule disj_assoc [symmetric])
    finally show ?thesis by (simp only: list.set bex_simps)
  next
    case False
    have "\<exists>e. fs_read_dir dir f = Inl e" using False by (auto simp: fs_read_dir_def node_at_def split: option.splits fnode.splits)
    then obtain e where e: "fs_read_dir dir f = Inl e" ..
    have "(\<exists>rel. ?below dir rel) \<longleftrightarrow> d = dir" using dir_chain [OF ok, of "resolve dir"] False by auto
    with 2(1) [OF e nf ok] e show ?thesis by auto
  qed
qed simp


lemma read_dir_not_dir: "lookup f (resolve dir) \<noteq> Some FDir \<Longrightarrow> \<exists>e. fs_read_dir dir f = Inl e"
  by (auto simp: fs_read_dir_def node_at_def split: option.splits fnode.splits)

lemma sidecars_in_iff:
  assumes nf: "no_faults f" and ok: "fs_ok f" and s: "s \<noteq> ''..''"
  shows "r \<in> set (sidecars_in s f rt (rt @ rel)) \<longleftrightarrow> r = rel \<and> file_at f (resolve (rt @ rel) @ [s]) \<noteq> None"
proof (cases "lookup f (resolve (rt @ rel)) = Some FDir")
  case True
  have sp: "strip_prefix_str rt (rt @ rel) = Some rel" by simp
  have "resolve ((rt @ rel) @ [s]) = resolve (rt @ rel) @ [s]" using s resolve_snoc [of "rt @ rel" s] by (simp only: walk_comp_def) simp
  then have "\<not> fs_is_dir ((rt @ rel) @ [s]) f \<longleftrightarrow> lookup f (resolve (rt @ rel) @ [s]) \<noteq> Some FDir"
    by (simp add: is_dir_lookup [OF nf])
  moreover have "r \<in> set (sidecars_in s f rt (rt @ rel)) \<longleftrightarrow>
      r = rel \<and> (\<exists>x. lookup f (resolve (rt @ rel) @ [s]) = Some x) \<and> \<not> fs_is_dir ((rt @ rel) @ [s]) f"
    unfolding sidecars_in_def found_sidecars_def read_dir_children [OF nf True] sp
    by (auto simp: children_iff [OF ok] image_iff simp del: append.assoc)
  ultimately show ?thesis
    by (cases "lookup f (resolve (rt @ rel) @ [s])" rule: is_file_node.cases) (auto simp: file_at_def)
next
  case False
  from read_dir_not_dir [OF this] have "sidecars_in s f rt (rt @ rel) = []" by (auto simp: sidecars_in_def)
  moreover have "file_at f (resolve (rt @ rel) @ [s]) = None"
    using False dir_chain [OF ok, of "resolve (rt @ rel)" "[s]"] by (auto simp: file_at_def split: option.splits fnode.splits)
  ultimately show ?thesis by simp
qed

text \<open>The sidecars the walk finds: those below no skipped directory.\<close>

lemma scan_found:
  assumes nf: "no_faults f" and ok: "fs_ok f" and s: "s \<noteq> ''..''"
  shows "rel \<in> set (concat (map (sidecars_in s f rt) (visited f [rt]))) \<longleftrightarrow>
    entered rel \<and> file_at f (resolve rt @ rel @ [s]) \<noteq> None"
proof -
  have v: "d \<in> set (visited f [rt]) \<longleftrightarrow> (\<exists>rel. d = rt @ rel \<and> entered rel \<and> (rel = [] \<or> lookup f (resolve rt @ rel) = Some FDir))" for d
    using visited_iff [OF nf ok, of d "[rt]"] by simp
  have r: "resolve (rt @ rel) = resolve rt @ rel" if "lookup f (resolve rt @ rel) = Some n" for n rel
    using child_not_dotdot [OF ok that] by (simp add: resolve_append_plain)
  show ?thesis
  proof
    assume "rel \<in> set (concat (map (sidecars_in s f rt) (visited f [rt])))"
    then obtain dir where "dir \<in> set (visited f [rt])" "rel \<in> set (sidecars_in s f rt dir)" by (auto simp del: visited.simps)
    then obtain rel' where d: "entered rel'" "rel' = [] \<or> lookup f (resolve rt @ rel') = Some FDir" "rel \<in> set (sidecars_in s f rt (rt @ rel'))"
      unfolding v by blast
    then have "rel = rel'" "file_at f (resolve (rt @ rel) @ [s]) \<noteq> None" using sidecars_in_iff [OF nf ok s] by auto
    moreover have "resolve (rt @ rel) = resolve rt @ rel" using d(2) calculation(1) r by (cases rel) auto
    ultimately show "entered rel \<and> file_at f (resolve rt @ rel @ [s]) \<noteq> None" using d(1) by simp
  next
    assume a: "entered rel \<and> file_at f (resolve rt @ rel @ [s]) \<noteq> None"
    then obtain n where n: "lookup f ((resolve rt @ rel) @ [s]) = Some n" by (auto simp: file_at_Some)
    then have l: "lookup f (resolve rt @ rel) = Some FDir" using dir_chain [OF ok n] by simp
    have "rt @ rel \<in> set (visited f [rt])" using v l a by blast
    moreover have "rel \<in> set (sidecars_in s f rt (rt @ rel))" using sidecars_in_iff [OF nf ok s] a r [OF l] by simp
    ultimately show "rel \<in> set (concat (map (sidecars_in s f rt) (visited f [rt])))" by (auto simp del: visited.simps)
  qed
qed

section \<open>The contract of \<^verbatim>\<open>load_repo\<close>\<close>

text \<open>Loading a repository overlays the tags of its sidecar and touches no other repository.\<close>

locale sidecar_loader =
  fixes load :: "string \<Rightarrow> 'm \<Rightarrow> 'm"
    and good :: "'m \<Rightarrow> bool"
    and tag_of :: "'m \<Rightarrow> string \<Rightarrow> string \<Rightarrow> 'v option"
    and content :: "string \<Rightarrow> string \<Rightarrow> 'v option"
  assumes load_good: "good m \<Longrightarrow> good (load r m)"
    and load_tag: "good m \<Longrightarrow> tag_of (load r m) r' t = (if r' = r \<and> content r t \<noteq> None then content r t else tag_of m r' t)"
begin

lemma fold_load:
  "good m \<Longrightarrow> good (fold (\<lambda>rel. load (path_str rel)) rels m) \<and>
   tag_of (fold (\<lambda>rel. load (path_str rel)) rels m) r t =
     (if (\<exists>rel \<in> set rels. r = path_str rel) \<and> content r t \<noteq> None then content r t else tag_of m r t)"
  by (induction rels arbitrary: m) (auto simp: load_good load_tag)

lemma scan_tag:
  assumes "no_faults f" and "fs_ok f" and "sidecar \<noteq> ''..''" and "good m"
  shows "tag_of (scan_loop sidecar load f rt [rt] m) r t =
    (if (\<exists>rel. r = path_str rel \<and> entered rel \<and> file_at f (resolve rt @ rel @ [sidecar]) \<noteq> None) \<and> content r t \<noteq> None
     then content r t else tag_of m r t)"
  unfolding scan_loop_fold fold_load [OF assms(4), THEN conjunct2]
  using scan_found [OF assms(1-3), of _ rt] by (simp only: Bex_def) (simp add: conj_commute)

end


section \<open>The two stores\<close>

text \<open>What loading a repository alone gives.\<close>

definition local_content :: "tags_codec \<Rightarrow> cas_layout \<Rightarrow> fs \<Rightarrow> string \<Rightarrow> string \<Rightarrow> local_tag_meta option" where
  "local_content C L f repo t = tags_get (snd (tags_load_repo C repo f (tags_new L))) repo t"

definition upstream_content :: "map_codec \<Rightarrow> nat \<Rightarrow> cas_layout \<Rightarrow> fs \<Rightarrow> string \<Rightarrow> string \<Rightarrow> (digest \<times> nat) option" where
  "upstream_content C now L f repo t = dm_get (tc_entries (tcache_load_repo C now repo f (tcache_new 0 (Some L)))) (repo, t)"

interpretation local_loader: sidecar_loader "\<lambda>repo T. snd (tags_load_repo C repo f T)" "\<lambda>T. lt_layout T = L" tags_get "local_content C L f"
  for C f L
proof
  fix m :: local_tags_store and r r' t assume "lt_layout m = L"
  then show "lt_layout (snd (tags_load_repo C r f m)) = L"
    and "tags_get (snd (tags_load_repo C r f m)) r' t =
      (if r' = r \<and> local_content C L f r t \<noteq> None then local_content C L f r t else tags_get m r' t)"
    by (auto simp: tags_load_repo_def tags_get_def tags_new_def local_content_def Let_def insert_all_get split: sum.splits option.splits)
qed

lemma tcache_insert_all_overlay:
  "dm_get (tcache_insert_all now repo ts m) (r, t) =
     (if r = repo \<and> dm_get (tcache_insert_all now repo ts []) (repo, t) \<noteq> None
      then dm_get (tcache_insert_all now repo ts []) (repo, t) else dm_get m (r, t))"
proof -
  have "\<exists>g. \<forall>m r. dm_get (tcache_insert_all now repo ts m) (r, t) = (if r = repo \<and> g \<noteq> None then g else dm_get m (r, t))"
  proof (induction ts)
    case (Cons e ts)
    obtain tag s where e: "e = (tag, s)" by fastforce
    from Cons obtain g where g: "\<And>m r. dm_get (tcache_insert_all now repo ts m) (r, t) = (if r = repo \<and> g \<noteq> None then g else dm_get m (r, t))" by blast
    show ?case unfolding e tcache_insert_all.simps g
      by (rule exI [of _ "if g \<noteq> None then g else case digest_parse s of Inr d \<Rightarrow> if tag = t then Some (d, now) else None | Inl _ \<Rightarrow> None"])
        (auto split: sum.splits)
  qed (auto intro: exI [of _ None])
  then obtain g where "\<And>m r. dm_get (tcache_insert_all now repo ts m) (r, t) = (if r = repo \<and> g \<noteq> None then g else dm_get m (r, t))" by blast
  then show ?thesis by (cases g) auto
qed

interpretation upstream_loader: sidecar_loader "\<lambda>repo. tcache_load_repo C now repo f" "\<lambda>T. tc_layout T = Some L"
  "\<lambda>T r t. dm_get (tc_entries T) (r, t)" "upstream_content C now L f" for C now f L
proof
  fix m :: upstream_tag_cache and r r' t assume "tc_layout m = Some L"
  then show "tc_layout (tcache_load_repo C now r f m) = Some L"
    and "dm_get (tc_entries (tcache_load_repo C now r f m)) (r', t) =
      (if r' = r \<and> upstream_content C now L f r t \<noteq> None then upstream_content C now L f r t else dm_get (tc_entries m) (r', t))"
    using tcache_insert_all_overlay [of now r _ "tc_entries m" r' t]
    by (auto simp: tcache_load_repo_def tcache_new_def upstream_content_def split: sum.splits option.splits)
qed


section \<open>Restart\<close>

text \<open>File names as every file system has them.\<close>

definition names_ok :: "fs \<Rightarrow> bool" where
  "names_ok f \<longleftrightarrow> (\<forall>(q, n) \<in> set (nodes f). list_all plain_name q)"

lemma comps_path_str: "list_all plain_name rel \<Longrightarrow> comps (path_str rel) = rel"
proof (induction rel rule: path_str.induct)
  case (2 c)
  then show ?case by (simp add: comps_plain)
next
  case (3 c d p)
  then have "CHR ''/'' \<notin> set c" "c \<noteq> []" "c \<noteq> ''.''" by (auto simp: plain_name_def)
  with 3 show ?case by (simp add: comps_def split_on_append split_on_single)
qed (simp add: comps_def)

lemma path_str_relative: "list_all plain_name rel \<Longrightarrow> \<not> starts_with ''/'' (path_str rel)"
  by (cases rel rule: path_str.cases) (auto simp: plain_name_def starts_with_def neq_Nil_conv split: list.splits)

lemma rdir_path_str: "list_all plain_name rel \<Longrightarrow> rdir L (path_str rel) = resolve (root L) @ rel"
proof -
  assume p: "list_all plain_name rel"
  then have "''..'' \<notin> set rel" by (auto simp: list_all_iff plain_name_def)
  with p show ?thesis
    by (simp add: rdir_def repo_dir_def path_join_def path_str_relative comps_path_str resolve_append_plain)
qed

lemma lookup_names: "names_ok f \<Longrightarrow> lookup f q = Some n \<Longrightarrow> list_all plain_name q"
  by (cases "q = []") (auto simp: names_ok_def lookup_def dest: map_of_SomeD)


lemma local_content_synced:
  assumes nf: "no_faults f" and L: "lt_layout T = L" and sy: "sidecar_synced C T repo f"
    and b: "file_at f (rdir L repo @ [''_local_tags.json'']) \<noteq> None"
  shows "local_content C L f repo t = tags_get T repo t"
proof -
  from b sy L obtain b s ts where f: "file_at f (resolve (local_tags_path L repo)) = Some b" "from_utf8 b = Some s"
    "from_str C s = Some ts" "distinct (map fst ts)" "\<And>t. map_of ts t = tags_get T repo t"
    by (auto simp: sidecar_synced_def resolve_local_tags)
  then have "fs_read_to_string (local_tags_path L repo) f = Inr s" using read_ok [OF nf f(1)] by (simp add: fs_read_to_string_def)
  moreover have "fs_exists (local_tags_path L repo) f"
    using nf f(1) by (auto simp: fs_exists_def fs_metadata_def node_at_def file_at_Some)
  ultimately show ?thesis
    using f(3-5) by (simp add: local_content_def tags_load_repo_def tags_get_def tags_new_def Let_def insert_all_get map_of_rev_distinct split: option.splits)
qed

text \<open>
  C36. Restarting restores the pushed tags: when the sidecar of a repository is in step with a running
  store, the store that the server fills at its next start answers every lookup in that repository as
  the running one did, provided no component of the repository's name is \<^verbatim>\<open>blobs\<close> or \<^verbatim>\<open>_uploads\<close>; the
  tags of a repository with such a name are lost, although their file is still there.
\<close>

theorem restart_local_tags:
  assumes nf: "no_faults f" and ok: "fs_ok f" and nm: "names_ok f"
    and L: "lt_layout T = L" and rel: "list_all plain_name rel" and sy: "sidecar_synced C T (path_str rel) f"
  shows "tags_get (load_existing_local_tags C (root L) f (tags_new L)) (path_str rel) t =
    (if entered rel then tags_get T (path_str rel) t else None)"
proof -
  let ?s = "''_local_tags.json''" and ?r = "path_str rel"
  let ?found = "\<exists>rel'. ?r = path_str rel' \<and> entered rel' \<and> file_at f (resolve (root L) @ rel' @ [?s]) \<noteq> None"
  let ?here = "file_at f (rdir L ?r @ [?s]) \<noteq> None"
  have p: "?r = path_str rel' \<longleftrightarrow> rel' = rel" if f: "file_at f (resolve (root L) @ rel' @ [?s]) \<noteq> None" for rel'
  proof -
    from f obtain n where "lookup f (resolve (root L) @ rel' @ [?s]) = Some n" by (auto simp: file_at_Some)
    from lookup_names [OF nm this] have "list_all plain_name rel'" by simp
    then show ?thesis using comps_path_str rel by metis
  qed
  then have found: "?found \<longleftrightarrow> entered rel \<and> ?here" using rdir_path_str [OF rel, of L] by auto
  have empty: "tags_get (tags_new L) r t = None" for r by (simp add: tags_get_def tags_new_def)
  have here: "?here \<Longrightarrow> local_content C L f ?r t = tags_get T ?r t" by (rule local_content_synced [OF nf L sy])
  have gone: "\<not> ?here \<Longrightarrow> tags_get T ?r t = None" using sy L by (simp add: sidecar_synced_def)
  show ?thesis
  proof (cases "fs_exists (root L) f")
    case True
    have load: "load_existing_local_tags C (root L) f (tags_new L) =
        scan_loop ?s (\<lambda>repo T. snd (tags_load_repo C repo f T)) f (root L) [root L] (tags_new L)"
      using True by (simp only: load_existing_local_tags_def not_True_eq_False if_False)
    have g: "lt_layout (tags_new L) = L" and s: "?s \<noteq> ''..''" by (simp_all add: tags_new_def)
    have "tags_get (load_existing_local_tags C (root L) f (tags_new L)) ?r t =
        (if ?found \<and> local_content C L f ?r t \<noteq> None then local_content C L f ?r t else None)"
      unfolding load by (simp only: local_loader.scan_tag [OF nf ok s g] empty)
    then show ?thesis unfolding found using here gone by (cases ?here) auto
  next
    case False
    then have "lookup f (resolve (root L)) = None" using nf by (auto simp: fs_exists_def fs_metadata_def node_at_def split: option.splits)
    then have "\<not> ?here" using dir_chain [OF ok, of "resolve (root L)" "rel @ [?s]"] rdir_path_str [OF rel, of L]
      by (auto simp: file_at_Some)
    with False empty gone show ?thesis by (simp add: load_existing_local_tags_def)
  qed
qed

text \<open>A cache with two pushed tags, one of them in a repository that is called \<^verbatim>\<open>blobs\<close>.\<close>

definition restart_meta :: local_tag_meta where
  "restart_meta = \<lparr>tag_digest = ''sha256:0'', pushed_at = 0\<rparr>"

definition restart_file :: bytes where
  "restart_file = to_bytes (enc_strs [''v1'', ''sha256:0'', []])"

definition restart_fs :: fs where
  "restart_fs = \<lparr>nodes = [([''q''], FDir), ([''q'', ''a''], FDir), ([''q'', ''a'', ''_local_tags.json''], FFile restart_file 0),
     ([''q'', ''blobs''], FDir), ([''q'', ''blobs'', ''_local_tags.json''], FFile restart_file 0)], faults = (\<lambda>_ _. None)\<rparr>"

definition restart_tags :: local_tags_store where
  "restart_tags = \<lparr>lt_layout = \<lparr>root = [''q'']\<rparr>, lt_map = [((''a'', ''v1''), restart_meta), ((''blobs'', ''v1''), restart_meta)]\<rparr>"

lemma restart_fs_ok: "no_faults restart_fs" "fs_ok restart_fs" "names_ok restart_fs"
  by (auto simp: restart_fs_def no_faults_def fs_ok_def lookup_def names_ok_def plain_name_def split: if_splits)

lemma restart_decodes: "from_utf8 restart_file = Some (enc_strs [''v1'', ''sha256:0'', []])"
  "from_str demo_codec (enc_strs [''v1'', ''sha256:0'', []]) = Some [(''v1'', restart_meta)]"
  by (simp_all add: restart_file_def from_utf8_enc demo_codec_def dec_enc restart_meta_def)

lemma restart_synced: "c = ''a'' \<or> c = ''blobs'' \<Longrightarrow> sidecar_synced demo_codec restart_tags (path_str [c]) restart_fs"
proof -
  assume c: "c = ''a'' \<or> c = ''blobs''"
  then have p: "list_all plain_name [c]" by (auto simp: plain_name_def)
  have "file_at restart_fs (rdir \<lparr>root = [''q'']\<rparr> (path_str [c]) @ [''_local_tags.json'']) = Some restart_file"
    unfolding rdir_path_str [OF p] using c by (auto simp: restart_fs_def file_at_def lookup_def resolve_canonical)
  with c restart_decodes show ?thesis
    by (auto simp: sidecar_synced_def restart_tags_def tags_get_def dm_get_def)
qed

theorem restart_local_tags_witness:
  "tags_get (load_existing_local_tags demo_codec [''q''] restart_fs (tags_new \<lparr>root = [''q'']\<rparr>)) ''a'' ''v1'' = Some restart_meta \<and>
   tags_get restart_tags ''blobs'' ''v1'' = Some restart_meta \<and>
   tags_get (load_existing_local_tags demo_codec [''q''] restart_fs (tags_new \<lparr>root = [''q'']\<rparr>)) ''blobs'' ''v1'' = None"
  using restart_local_tags [OF restart_fs_ok, of restart_tags "\<lparr>root = [''q'']\<rparr>" "[''a'']" demo_codec "''v1''"]
    restart_local_tags [OF restart_fs_ok, of restart_tags "\<lparr>root = [''q'']\<rparr>" "[''blobs'']" demo_codec "''v1''"]
    restart_synced [of "''a''"] restart_synced [of "''blobs''"]
  by (simp add: restart_tags_def plain_name_def tags_get_def dm_get_def)


section \<open>How long the walk takes\<close>

text \<open>Stacks the walk builds: no directory of the stack lies below another.\<close>

fun antichain :: "path list \<Rightarrow> bool" where
  "antichain [] \<longleftrightarrow> True"
| "antichain (p # ps) \<longleftrightarrow> (\<forall>q \<in> set ps. \<not> prefix p q \<and> \<not> prefix q p) \<and> antichain ps"

lemma antichain_append:
  "antichain (ps @ qs) \<longleftrightarrow> antichain ps \<and> antichain qs \<and> (\<forall>p \<in> set ps. \<forall>q \<in> set qs. \<not> prefix p q \<and> \<not> prefix q p)"
  by (induction ps) auto

lemma antichain_siblings: "distinct ps \<Longrightarrow> (\<And>p. p \<in> set ps \<Longrightarrow> \<exists>c. p = dir @ [c]) \<Longrightarrow> antichain ps"
proof (induction ps)
  case (Cons p ps)
  from Cons.prems(2) [of p] obtain c where c: "p = dir @ [c]" by auto
  have "\<not> prefix p q \<and> \<not> prefix q p" if q: "q \<in> set ps" for q
  proof -
    from Cons.prems(2) [of q] q obtain e where e: "q = dir @ [e]" by auto
    with c q Cons.prems(1) show ?thesis by auto
  qed
  with Cons show ?case by auto
qed simp

lemma pushed_distinct: "fs_ok f \<Longrightarrow> distinct (pushed_dirs f dir (children f q))"
proof -
  assume "fs_ok f"
  then have "distinct (map fst (filter P (children f q)))" for P
    using children_distinct by (blast intro: distinct_map_filter)
  then show ?thesis unfolding pushed_dirs_def by (force simp: distinct_map inj_on_def)
qed

lemma visited_distinct:
  assumes "no_faults f" and "fs_ok f" and "antichain stack"
  shows "distinct (visited f stack)"
  using assms
proof (induction f stack rule: visited.induct)
  case (2 f dir stack)
  note nf = 2(3) and ok = 2(4)
  have st: "antichain stack" "\<And>q. q \<in> set stack \<Longrightarrow> \<not> prefix q dir" "\<And>q. q \<in> set stack \<Longrightarrow> \<not> prefix dir q" using 2(5) by auto
  have fresh: "dir \<notin> set (visited f (ps @ stack))" if "\<And>p. p \<in> set ps \<Longrightarrow> \<not> prefix p dir" for ps
  proof
    assume "dir \<in> set (visited f (ps @ stack))"
    then obtain s rel where s: "s \<in> set (ps @ stack)" "dir = s @ rel" unfolding visited_iff [OF nf ok] by (elim bexE exE conjE)
    then have "prefix s dir" by simp
    with s(1) that st(2) show False by auto
  qed
  show ?case
  proof (cases "lookup f (resolve dir) = Some FDir")
    case True
    let ?ps = "rev (pushed_dirs f dir (children f (resolve dir)))"
    note rd = read_dir_children [OF nf True]
    have sub: "\<exists>c. p = dir @ [c]" if "p \<in> set ?ps" for p using that by (auto simp: pushed_dirs_def)
    have "antichain (?ps @ stack)"
      unfolding antichain_append
    proof (intro conjI ballI)
      show "antichain ?ps" by (rule antichain_siblings) (use pushed_distinct [OF ok] sub in simp_all)
      fix p q assume p: "p \<in> set ?ps" and q: "q \<in> set stack"
      from sub [OF p] obtain c where c: "p = dir @ [c]" ..
      show "\<not> prefix p q" using c st(3) [OF q] by (metis append_prefixD)
      show "\<not> prefix q p" using c st(2,3) [OF q] by (auto simp: prefix_snoc)
    qed (rule st(1))
    from 2(2) [OF rd refl nf ok this] fresh [of ?ps] sub rd show ?thesis by fastforce
  next
    case False
    from read_dir_not_dir [OF this] obtain e where e: "fs_read_dir dir f = Inl e" ..
    from 2(1) [OF e nf ok st(1)] fresh [of "[]"] e show ?thesis by simp
  qed
qed simp

text \<open>
  C37. The walk at start-up ends soon: it reads every directory at most once, so at most as many as the
  cache has, and its root.
\<close>

theorem startup_scan_bounded:
  assumes nf: "no_faults f" and ok: "fs_ok f"
  shows "distinct (visited f [rt]) \<and> length (visited f [rt]) \<le> Suc (length (filter (\<lambda>(q, n). n = FDir) (nodes f))) \<and>
    scan_loop sidecar load f rt [rt] m =
      fold (\<lambda>rel. load (path_str rel)) (concat (map (sidecars_in sidecar f rt) (visited f [rt]))) m"
proof (intro conjI)
  let ?V = "visited f [rt]" and ?D = "fst ` set (filter (\<lambda>(q, n). n = FDir) (nodes f))"
  show d: "distinct ?V" by (rule visited_distinct [OF nf ok]) simp
  have "inj_on (drop (length rt)) (set ?V)"
    using visited_iff [OF nf ok, of _ "[rt]"] by (auto simp: inj_on_def simp del: visited.simps)
  moreover have "(\<lambda>rel. resolve rt @ rel) ` (drop (length rt) ` set ?V) \<subseteq> insert (resolve rt) ?D"
  proof (rule image_subsetI, erule imageE)
    fix rel d assume rel: "rel = drop (length rt) d" and d: "d \<in> set ?V"
    then have "rel = [] \<or> lookup f (resolve rt @ rel) = Some FDir" using visited_iff [OF nf ok, of d "[rt]"] by auto
    moreover have "resolve rt @ rel \<in> ?D" if "lookup f (resolve rt @ rel) = Some FDir" "rel \<noteq> []"
      using that by (force simp: lookup_def dest: map_of_SomeD)
    ultimately show "resolve rt @ rel \<in> insert (resolve rt) ?D" by (cases "rel = []") auto
  qed
  ultimately have "card (set ?V) \<le> card (insert (resolve rt) ?D)"
    by (metis (no_types, lifting) card_image card_mono finite_imageI finite_insert finite_set inj_on_def same_append_eq)
  also have "\<dots> \<le> Suc (card ?D)" by (rule card_insert_le_m1) simp_all
  also have "card ?D \<le> length (filter (\<lambda>(q, n). n = FDir) (nodes f))"
    by (metis card_image_le card_length finite_set le_trans)
  finally show "length ?V \<le> Suc (length (filter (\<lambda>(q, n). n = FDir) (nodes f)))" using d by (simp add: distinct_card del: visited.simps)
qed (rule scan_loop_fold)

theorem startup_scan_bounded_witness: "length (visited restart_fs [[''q'']]) \<le> 4"
  using startup_scan_bounded [OF restart_fs_ok(1,2), of "[''q'']" "[]" "\<lambda>_. id" "()"] by (simp add: restart_fs_def del: visited.simps)

end
