(* ===== verification/Auth.thy ===== *)
theory Auth
  imports Http Blob_Cache Text_Codec
begin

text \<open>
  \<^verbatim>\<open>crates/quill-auth/src/\<close>: \<^verbatim>\<open>htpasswd.rs\<close>, the password file with its cache of verified headers, and
  \<^verbatim>\<open>middleware.rs\<close>, the layer in front of the registry.  \<^verbatim>\<open>bcrypt::verify\<close> and the Base64 decoder are
  parameters.  The cache of verified headers is an instance of the expiring-cache contract and is shown to
  be invisible: with it, every header gets the answer that checking the password would give.
\<close>

section \<open>The password file\<close>

datatype htpasswd_error = HIo io_error | HInvalidLine nat

record htpasswd_store =
  hs_file_path :: path
  hs_users :: "(string, string) dashmap"
  hs_auth_cache :: "(string, string \<times> nat) dashmap"
  hs_auth_cache_ttl :: nat

text \<open>\<^verbatim>\<open>str::lines\<close>\<close>

definition strip_cr :: "string \<Rightarrow> string" where
  "strip_cr l = (case strip_suffix_str [CHR 0x0D] l of Some x \<Rightarrow> x | None \<Rightarrow> l)"

definition str_lines :: "string \<Rightarrow> string list" where
  "str_lines s =
     (let ps = split_on (CHR 0x0A) s
      in map strip_cr (butlast ps) @ (if last ps = [] then [] else [last ps]))"

fun parse_lines :: "nat \<Rightarrow> string list \<Rightarrow> (string, string) dashmap \<Rightarrow> htpasswd_error + (string, string) dashmap" where
  "parse_lines i [] out = Inr out"
| "parse_lines i (l # ls) out =
     (let line = trim l in
      if line = [] \<or> starts_with ''#'' line then parse_lines (Suc i) ls out
      else case split_once (CHR '':'') line of
             None \<Rightarrow> Inl (HInvalidLine (i + 1))
           | Some (user, hash) \<Rightarrow> parse_lines (Suc i) ls (dm_insert user hash out))"

definition parse_file :: "path \<Rightarrow> fs \<Rightarrow> htpasswd_error + (string, string) dashmap" where
  "parse_file p f =
     (case fs_read_to_string p f of
        Inl e \<Rightarrow> Inl (HIo e)
      | Inr body \<Rightarrow> parse_lines 0 (str_lines body) [])"

definition htpasswd_load :: "path \<Rightarrow> fs \<Rightarrow> htpasswd_error + htpasswd_store" where
  "htpasswd_load p f =
     (case parse_file p f of
        Inl e \<Rightarrow> Inl e
      | Inr users \<Rightarrow> Inr \<lparr>hs_file_path = p, hs_users = users, hs_auth_cache = [], hs_auth_cache_ttl = 300 * 10 ^ 9\<rparr>)"

section \<open>Verification\<close>

text \<open>The libraries: the Base64 decoder, and \<^verbatim>\<open>bcrypt::verify\<close> of a password against a hash.\<close>

record auth_lib =
  al_base64 :: "string \<Rightarrow> bytes option"
  al_bcrypt :: "string \<Rightarrow> string \<Rightarrow> bool option"

text \<open>The lookup in the cache of verified headers.\<close>

definition cached_user :: "nat \<Rightarrow> string \<Rightarrow> htpasswd_store \<Rightarrow> string option" where
  "cached_user now h S =
     (case dm_get (hs_auth_cache S) h of
        None \<Rightarrow> None
      | Some (user, valid_until) \<Rightarrow> if now < valid_until then Some user else None)"

text \<open>The user and password of a header \<^verbatim>\<open>Basic <base64(user:pass)>\<close>.\<close>

definition decode_basic :: "auth_lib \<Rightarrow> string \<Rightarrow> (string \<times> string) option" where
  "decode_basic A h =
     (case strip_prefix_str ''Basic '' h of
        None \<Rightarrow> None
      | Some creds \<Rightarrow>
          (case al_base64 A (trim creds) of
             None \<Rightarrow> None
           | Some bs \<Rightarrow> (case from_utf8 bs of None \<Rightarrow> None | Some decoded \<Rightarrow> split_once (CHR '':'') decoded)))"

definition verify_basic :: "auth_lib \<Rightarrow> nat \<Rightarrow> string \<Rightarrow> htpasswd_store \<Rightarrow> string option \<times> htpasswd_store" where
  "verify_basic A now h S =
     (case cached_user now h S of
        Some user \<Rightarrow> (Some user, S)
      | None \<Rightarrow>
          (case decode_basic A h of
             None \<Rightarrow> (None, S)
           | Some (user, password) \<Rightarrow>
               (case dm_get (hs_users S) user of
                  None \<Rightarrow> (None, S)
                | Some hash \<Rightarrow>
                    if al_bcrypt A password hash = Some True
                    then (Some user, S\<lparr>hs_auth_cache := dm_insert h (user, now + hs_auth_cache_ttl S) (hs_auth_cache S)\<rparr>)
                    else (None, S))))"

section \<open>The middleware\<close>

record auth_state =
  as_htpasswd :: "htpasswd_store option"

definition auth_new :: "htpasswd_store option \<Rightarrow> auth_state" where
  "auth_new h = \<lparr>as_htpasswd = h\<rparr>"

definition is_disabled :: "auth_state \<Rightarrow> bool" where
  "is_disabled st \<longleftrightarrow> as_htpasswd st = None"

definition auth_verify :: "auth_lib \<Rightarrow> nat \<Rightarrow> string option \<Rightarrow> auth_state \<Rightarrow> string option \<times> auth_state" where
  "auth_verify A now header st =
     (case header of
        None \<Rightarrow> (None, st)
      | Some h \<Rightarrow>
          (case as_htpasswd st of
             None \<Rightarrow> (None, st)
           | Some store \<Rightarrow> (case verify_basic A now h store of (r, store') \<Rightarrow> (r, st\<lparr>as_htpasswd := Some store'\<rparr>))))"

definition unauthorized_response :: response where
  "unauthorized_response =
     \<lparr>rp_status = 401,
      rp_headers = [(''www-authenticate'', ''Basic realm='' @ [CHR 0x22] @ ''quill'' @ [CHR 0x22])],
      rp_body = NoBody\<rparr>"

text \<open>
  \<^verbatim>\<open>AuthMiddleware::call\<close> around an inner service with state \<open>'s\<close>, whose answers are of type \<open>'r\<close>: a
  response, or one that comes later; \<open>resp\<close> makes an answer of a response.
\<close>

definition auth_call :: "auth_lib \<Rightarrow> nat \<Rightarrow> header_map \<Rightarrow> (response \<Rightarrow> 'r) \<Rightarrow> ('s \<Rightarrow> 'r \<times> 's) \<Rightarrow> auth_state \<Rightarrow> 's \<Rightarrow>
    'r \<times> auth_state \<times> 's" where
  "auth_call A now headers resp inner st s =
     (if is_disabled st then (case inner s of (r, s') \<Rightarrow> (r, st, s'))
      else case auth_verify A now (hdr_str ''authorization'' headers) st of
             (Some user, st') \<Rightarrow> (case inner s of (r, s') \<Rightarrow> (r, st', s'))
           | (None, st') \<Rightarrow> (resp unauthorized_response, st', s))"

section \<open>The cache is invisible\<close>

interpretation auth_ttl: ttl_cache
  "\<lambda>C now h. cached_user now h \<lparr>hs_file_path = p, hs_users = us, hs_auth_cache = C, hs_auth_cache_ttl = t\<rparr>"
  "\<lambda>now h u C. dm_insert h (u, now + t) C" "\<lambda>s now. now < s + t" for p us t
  by unfold_locales (auto simp: cached_user_def split: option.splits)

text \<open>The reference: decode the header and check the password against the file, every time.\<close>

definition check_basic :: "auth_lib \<Rightarrow> (string, string) dashmap \<Rightarrow> string \<Rightarrow> string option" where
  "check_basic A users h =
     (case decode_basic A h of
        None \<Rightarrow> None
      | Some (user, password) \<Rightarrow>
          (case dm_get users user of
             None \<Rightarrow> None
           | Some hash \<Rightarrow> if al_bcrypt A password hash = Some True then Some user else None))"

definition cache_sound :: "auth_lib \<Rightarrow> htpasswd_store \<Rightarrow> bool" where
  "cache_sound A S \<longleftrightarrow> (\<forall>h u t. dm_get (hs_auth_cache S) h = Some (u, t) \<longrightarrow> check_basic A (hs_users S) h = Some u)"

lemma cached_user_check: "cache_sound A S \<Longrightarrow> cached_user now h S = Some u \<Longrightarrow> check_basic A (hs_users S) h = Some u"
  by (auto simp: cache_sound_def cached_user_def split: option.splits if_splits)

lemma verify_basic_check:
  assumes "cache_sound A S" and "verify_basic A now h S = (r, S')"
  shows "r = check_basic A (hs_users S) h \<and> cache_sound A S' \<and> hs_users S' = hs_users S"
proof (cases "cached_user now h S")
  case (Some u)
  with assms show ?thesis using cached_user_check [OF assms(1) Some] by (auto simp: verify_basic_def)
next
  case None
  have "cache_sound A (S\<lparr>hs_auth_cache := dm_insert h (u, t) (hs_auth_cache S)\<rparr>)"
    if "check_basic A (hs_users S) h = Some u" for u t
    using assms(1) that by (auto simp: cache_sound_def)
  with None assms show ?thesis
    by (auto simp: verify_basic_def check_basic_def split: option.splits if_splits)
qed

lemma load_sound: "htpasswd_load p f = Inr S \<Longrightarrow> cache_sound A S"
  by (auto simp: htpasswd_load_def cache_sound_def split: sum.splits)

text \<open>A sequence of requests, each at its time.\<close>

fun verify_run :: "auth_lib \<Rightarrow> (nat \<times> string) list \<Rightarrow> htpasswd_store \<Rightarrow> string option list \<times> htpasswd_store" where
  "verify_run A [] S = ([], S)"
| "verify_run A ((now, h) # rs) S =
     (case verify_basic A now h S of (r, S1) \<Rightarrow> case verify_run A rs S1 of (xs, S2) \<Rightarrow> (r # xs, S2))"

lemma verify_run_check:
  "cache_sound A S \<Longrightarrow> fst (verify_run A rs S) = map (\<lambda>(now, h). check_basic A (hs_users S) h) rs"
  by (induction A rs S rule: verify_run.induct) (fastforce dest: verify_basic_check split: prod.splits)+

text \<open>
  C25. The cache of verified headers changes no answer: for every sequence of requests at any times after
  the password file was loaded, each header is answered exactly as if its password had been checked
  against the file with \<^verbatim>\<open>bcrypt\<close> at that moment.
\<close>

theorem verify_equivalence:
  assumes "htpasswd_load p f = Inr S"
  shows "fst (verify_run A requests S) = map (\<lambda>(now, h). check_basic A (hs_users S) h) requests"
  by (rule verify_run_check) (rule load_sound [OF assms])

section \<open>The gate\<close>

definition auth_sound :: "auth_lib \<Rightarrow> auth_state \<Rightarrow> bool" where
  "auth_sound A st \<longleftrightarrow> (\<forall>S. as_htpasswd st = Some S \<longrightarrow> cache_sound A S)"

text \<open>Whether a request may pass: no password file, or a header whose password checks.\<close>

definition admitted :: "auth_lib \<Rightarrow> auth_state \<Rightarrow> header_map \<Rightarrow> bool" where
  "admitted A st headers \<longleftrightarrow>
     (case as_htpasswd st of
        None \<Rightarrow> True
      | Some S \<Rightarrow> (case hdr_str ''authorization'' headers of None \<Rightarrow> False | Some h \<Rightarrow> check_basic A (hs_users S) h \<noteq> None))"

text \<open>
  The middleware is a gate: the inner service is called, and its answer returned, exactly for the admitted
  requests; otherwise its state is untouched and the answer is 401 with the challenge.
\<close>

lemma auth_call_gate:
  assumes "auth_sound A st" and "auth_call A now headers resp inner st s = (r, st', s')"
  shows "(r, s') = (if admitted A st headers then inner s else (resp unauthorized_response, s)) \<and>
    auth_sound A st' \<and> map_option hs_users (as_htpasswd st') = map_option hs_users (as_htpasswd st)"
proof (cases "as_htpasswd st")
  case None
  with assms show ?thesis
    by (auto simp: auth_call_def is_disabled_def admitted_def split: prod.splits)
next
  case (Some S)
  then have S: "cache_sound A S" using assms(1) by (simp add: auth_sound_def)
  show ?thesis
  proof (cases "hdr_str ''authorization'' headers")
    case None
    with Some assms show ?thesis by (auto simp: auth_call_def is_disabled_def auth_verify_def admitted_def)
  next
    case h: (Some h)
    obtain x S1 where v: "verify_basic A now h S = (x, S1)" by fastforce
    from verify_basic_check [OF S v] Some h v assms show ?thesis
      by (cases x) (auto simp: auth_call_def is_disabled_def auth_verify_def admitted_def auth_sound_def split: prod.splits)
  qed
qed

section \<open>Reading the password file\<close>

definition significant :: "string \<Rightarrow> bool" where
  "significant l \<longleftrightarrow> trim l \<noteq> [] \<and> \<not> starts_with ''#'' (trim l)"

definition line_entry :: "string \<Rightarrow> (string \<times> string) option" where
  "line_entry l = (if significant l then split_once (CHR '':'') (trim l) else None)"

definition good_line :: "string \<Rightarrow> bool" where
  "good_line l \<longleftrightarrow> significant l \<longrightarrow> CHR '':'' \<in> set (trim l)"

lemma parse_lines_Cons:
  "parse_lines i (l # ls) out =
     (if \<not> good_line l then Inl (HInvalidLine (i + 1))
      else parse_lines (Suc i) ls (case line_entry l of None \<Rightarrow> out | Some (u, h) \<Rightarrow> dm_insert u h out))"
  by (auto simp: Let_def good_line_def line_entry_def significant_def split: option.splits)
    (metis option.distinct(1) split_once_None)+

lemma parse_lines_Inr:
  "parse_lines i ls out = Inr m \<Longrightarrow> (\<forall>l \<in> set ls. good_line l) \<and>
     dm_get m u = (case map_of (rev (List.map_filter line_entry ls)) u of Some h \<Rightarrow> Some h | None \<Rightarrow> dm_get out u)"
proof (induction ls arbitrary: i out)
  case Nil
  then show ?case by (simp add: List.map_filter_simps)
next
  case (Cons l ls)
  then have g: "good_line l" and p: "parse_lines (Suc i) ls (case line_entry l of None \<Rightarrow> out | Some (u, h) \<Rightarrow> dm_insert u h out) = Inr m"
    by (auto simp: parse_lines_Cons simp del: parse_lines.simps split: if_splits)
  from Cons.IH [OF p] g show ?case
    by (auto simp: List.map_filter_simps map_add_def split: option.splits)
qed

lemma parse_lines_Inl:
  "parse_lines i ls out = Inl e \<Longrightarrow> \<exists>pre l post. ls = pre @ l # post \<and> e = HInvalidLine (i + length pre + 1) \<and>
     \<not> good_line l \<and> (\<forall>x \<in> set pre. good_line x)"
proof (induction ls arbitrary: i out)
  case (Cons l ls)
  show ?case
  proof (cases "good_line l")
    case False
    with Cons.prems show ?thesis
      by (intro exI [of _ "[]"] exI [of _ l] exI [of _ ls]) (auto simp: parse_lines_Cons simp del: parse_lines.simps)
  next
    case True
    then obtain out' where "parse_lines (Suc i) ls out' = Inl e"
      using Cons.prems by (auto simp: parse_lines_Cons simp del: parse_lines.simps)
    from Cons.IH [OF this] obtain pre x post where "ls = pre @ x # post" "e = HInvalidLine (Suc i + length pre + 1)"
      "\<not> good_line x" "\<forall>x \<in> set pre. good_line x" by blast
    with True show ?thesis by (intro exI [of _ "l # pre"] exI [of _ x] exI [of _ post]) auto
  qed
qed simp

text \<open>
  Loading the password file: it succeeds exactly when the file is readable text in which every line
  that is not blank or a comment has a colon; the users are then the parts before the first colon with the
  hash after it, the last line for a user winning.  Otherwise the number of the first bad line is reported.
\<close>

lemma htpasswd_load_spec:
  "case htpasswd_load p f of
     Inr S \<Rightarrow> (\<exists>body. fs_read_to_string p f = Inr body \<and> (\<forall>l \<in> set (str_lines body). good_line l) \<and>
       (\<forall>u. dm_get (hs_users S) u = map_of (rev (List.map_filter line_entry (str_lines body))) u)) \<and> hs_auth_cache S = []
   | Inl (HIo e) \<Rightarrow> fs_read_to_string p f = Inl e
   | Inl (HInvalidLine n) \<Rightarrow> (\<exists>body pre l post. fs_read_to_string p f = Inr body \<and> str_lines body = pre @ l # post \<and>
       n = length pre + 1 \<and> \<not> good_line l \<and> (\<forall>x \<in> set pre. good_line x))"
proof (cases "fs_read_to_string p f")
  case (Inl e)
  then show ?thesis by (simp add: htpasswd_load_def parse_file_def)
next
  case (Inr body)
  show ?thesis
  proof (cases "parse_lines 0 (str_lines body) []")
    case (Inl e)
    from parse_lines_Inl [OF Inl] obtain pre l post where "str_lines body = pre @ l # post"
      "e = HInvalidLine (length pre + 1)" "\<not> good_line l" "\<forall>x \<in> set pre. good_line x" by auto
    with Inr Inl show ?thesis by (auto simp: htpasswd_load_def parse_file_def)
  next
    case ok: (Inr m)
    have "dm_get m u = map_of (rev (List.map_filter line_entry (str_lines body))) u" for u
      using parse_lines_Inr [OF ok, of u] by (simp split: option.splits)
    with Inr ok parse_lines_Inr [OF ok] show ?thesis by (auto simp: htpasswd_load_def parse_file_def)
  qed
qed

section \<open>Concrete instances\<close>

text \<open>A password file with one user, and stand-ins for the two libraries.\<close>

definition demo_pw_fs :: fs where
  "demo_pw_fs = \<lparr>nodes = [([''pw''], FFile (to_bytes ''al:h'') 0)], faults = (\<lambda>_ _. None)\<rparr>"

definition demo_auth_lib :: auth_lib where
  "demo_auth_lib = \<lparr>al_base64 = (\<lambda>s. Some (to_bytes s)), al_bcrypt = (\<lambda>p h. Some (p = h))\<rparr>"

definition demo_pw_store :: htpasswd_store where
  "demo_pw_store = \<lparr>hs_file_path = [''pw''], hs_users = [(''al'', ''h'')], hs_auth_cache = [], hs_auth_cache_ttl = 300 * 10 ^ 9\<rparr>"

lemma demo_pw_read: "fs_read_to_string [''pw''] demo_pw_fs = Inr ''al:h''"
proof -
  have "file_at demo_pw_fs (resolve [''pw'']) = Some (to_bytes ''al:h'')"
    by (simp add: demo_pw_fs_def file_at_def lookup_def resolve_def walk_comp_def)
  moreover have "no_faults demo_pw_fs" by (simp add: demo_pw_fs_def no_faults_def)
  ultimately have "fs_read [''pw''] demo_pw_fs = Inr (to_bytes ''al:h'')" by (simp add: read_ok)
  moreover have "from_utf8 (to_bytes ''al:h'') = Some ''al:h''" by (rule from_utf8_to_bytes) simp
  ultimately show ?thesis by (simp add: fs_read_to_string_def)
qed

lemma demo_pw_load: "htpasswd_load [''pw''] demo_pw_fs = Inr demo_pw_store"
proof -
  have "str_lines ''al:h'' = [''al:h'']" "trim ''al:h'' = ''al:h''" by code_simp+
  then have "parse_file [''pw''] demo_pw_fs = Inr [(''al'', ''h'')]"
    by (simp add: parse_file_def demo_pw_read starts_with_def dm_insert_def)
  then show ?thesis by (simp add: htpasswd_load_def demo_pw_store_def)
qed

lemma demo_check:
  "check_basic demo_auth_lib (hs_users demo_pw_store) ''Basic al:h'' = Some ''al''"
  "check_basic demo_auth_lib (hs_users demo_pw_store) ''Basic al:x'' = None"
proof -
  have t: "trim ''al:h'' = ''al:h''" "trim ''al:x'' = ''al:x''" by code_simp+
  have u: "from_utf8 (to_bytes ''al:h'') = Some ''al:h''" "from_utf8 (to_bytes ''al:x'') = Some ''al:x''"
    by (rule from_utf8_to_bytes; simp)+
  show "check_basic demo_auth_lib (hs_users demo_pw_store) ''Basic al:h'' = Some ''al''"
    "check_basic demo_auth_lib (hs_users demo_pw_store) ''Basic al:x'' = None"
    by (simp_all add: check_basic_def decode_basic_def demo_auth_lib_def demo_pw_store_def dm_get_def t u)
qed

theorem verify_equivalence_witness:
  "fst (verify_run demo_auth_lib [(0, ''Basic al:h''), (1, ''Basic al:h''), (2, ''Basic al:x'')] demo_pw_store) =
     [Some ''al'', Some ''al'', None]"
  by (simp add: verify_equivalence [OF demo_pw_load] demo_check del: verify_run.simps)

end
