(* ===== verification/Tls.thy ===== *)
theory Tls
  imports Filesystem
begin

text \<open>
  \<^verbatim>\<open>crates/quill-tls/src/lib.rs\<close>: the server's certificate, read from files or generated once and kept.
  The PEM reader, the certificate generator and \<^verbatim>\<open>rustls\<close>'s check of certificate and key are parameters.
\<close>

section \<open>Data\<close>

datatype tls_error = TIo io_error | TRustls string | TNoPrivateKey path | TSelfSigned string

text \<open>The libraries: \<^verbatim>\<open>rustls_pemfile\<close>, \<^verbatim>\<open>ServerConfig::builder\<close> and \<^verbatim>\<open>rcgen\<close> (certificate and key as PEM).\<close>

record ('c, 'k, 'g) tls_lib =
  tl_certs :: "bytes \<Rightarrow> io_error + 'c list"
  tl_private_key :: "bytes \<Rightarrow> io_error + 'k option"
  tl_single_cert :: "'c list \<Rightarrow> 'k \<Rightarrow> string + 'g"
  tl_generate :: "string list \<Rightarrow> string + bytes \<times> bytes"

record 'g server_config =
  sc_config :: 'g
  sc_alpn_protocols :: "string list"

section \<open>Operations\<close>

definition load_certs :: "('c, 'k, 'g) tls_lib \<Rightarrow> path \<Rightarrow> fs \<Rightarrow> tls_error + 'c list" where
  "load_certs H p f =
     (case fs_read p f of
        Inl e \<Rightarrow> Inl (TIo e)
      | Inr b \<Rightarrow> (case tl_certs H b of Inl e \<Rightarrow> Inl (TIo e) | Inr cs \<Rightarrow> Inr cs))"

definition load_private_key :: "('c, 'k, 'g) tls_lib \<Rightarrow> path \<Rightarrow> fs \<Rightarrow> tls_error + 'k" where
  "load_private_key H p f =
     (case fs_read p f of
        Inl e \<Rightarrow> Inl (TIo e)
      | Inr b \<Rightarrow>
          (case tl_private_key H b of
             Inl e \<Rightarrow> Inl (TIo e)
           | Inr None \<Rightarrow> Inl (TNoPrivateKey p)
           | Inr (Some k) \<Rightarrow> Inr k))"

definition server_config_from_files :: "('c, 'k, 'g) tls_lib \<Rightarrow> path \<Rightarrow> path \<Rightarrow> fs \<Rightarrow> tls_error + 'g server_config" where
  "server_config_from_files H cert_path key_path f =
     (case load_certs H cert_path f of
        Inl e \<Rightarrow> Inl e
      | Inr certs \<Rightarrow>
     (case load_private_key H key_path f of
        Inl e \<Rightarrow> Inl e
      | Inr key \<Rightarrow>
     (case tl_single_cert H certs key of
        Inl e \<Rightarrow> Inl (TRustls e)
      | Inr cfg \<Rightarrow> Inr \<lparr>sc_config = cfg, sc_alpn_protocols = [''h2'', ''http/1.1'']\<rparr>)))"

text \<open>The part of \<^verbatim>\<open>server_config_self_signed\<close> that generates the files.\<close>

definition generate_files :: "('c, 'k, 'g) tls_lib \<Rightarrow> nat \<Rightarrow> path \<Rightarrow> path \<Rightarrow> string list \<Rightarrow> fs \<Rightarrow> (tls_error + unit) \<times> fs" where
  "generate_files H now cert_path key_path subjects f =
     (case fs_create_dir_all (butlast cert_path) f of
        (Inl e, f1) \<Rightarrow> (Inl (TIo e), f1)
      | (Inr _, f1) \<Rightarrow>
     (case tl_generate H subjects of
        Inl e \<Rightarrow> (Inl (TSelfSigned e), f1)
      | Inr (cert_pem, key_pem) \<Rightarrow>
     (case fs_write now cert_path cert_pem f1 of
        (Inl e, f2) \<Rightarrow> (Inl (TIo e), f2)
      | (Inr _, f2) \<Rightarrow>
     (case fs_write now key_path key_pem f2 of
        (Inl e, f3) \<Rightarrow> (Inl (TIo e), f3)
      | (Inr _, f3) \<Rightarrow> (Inr (), f3)))))"

definition server_config_self_signed :: "('c, 'k, 'g) tls_lib \<Rightarrow> nat \<Rightarrow> path \<Rightarrow> path \<Rightarrow> string list \<Rightarrow> fs \<Rightarrow>
    (tls_error + 'g server_config) \<times> fs" where
  "server_config_self_signed H now cert_path key_path subjects f =
     (if fs_exists cert_path f \<and> fs_exists key_path f
      then (server_config_from_files H cert_path key_path f, f)
      else case generate_files H now cert_path key_path subjects f of
             (Inl e, f1) \<Rightarrow> (Inl e, f1)
           | (Inr _, f1) \<Rightarrow> (server_config_from_files H cert_path key_path f1, f1))"

section \<open>Properties\<close>

lemma from_files_generator:
  "server_config_from_files (H\<lparr>tl_generate := g\<rparr>) cert_path key_path f = server_config_from_files H cert_path key_path f"
  by (simp add: server_config_from_files_def load_certs_def load_private_key_def cong: sum.case_cong)

lemma from_files_reads:
  assumes "server_config_from_files H c k f = Inr cfg"
  shows "file_at f (resolve c) \<noteq> None" and "file_at f (resolve k) \<noteq> None"
proof -
  from assms obtain a b where "fs_read c f = Inr a" "fs_read k f = Inr b"
    by (auto simp: server_config_from_files_def load_certs_def load_private_key_def split: sum.splits)
  then show "file_at f (resolve c) \<noteq> None" "file_at f (resolve k) \<noteq> None" by (auto dest!: read_Inr)
qed

lemma exists_file: "no_faults f \<Longrightarrow> file_at f (resolve p) \<noteq> None \<Longrightarrow> fs_exists p f"
  by (auto simp: fs_exists_def fs_metadata_def node_at_def file_at_Some)

lemma generate_files_Inr:
  assumes "generate_files H now c k subjects f = (Inr u, f')" and ne: "resolve c \<noteq> resolve k"
  shows "\<exists>cert key. tl_generate H subjects = Inr (cert, key) \<and> file_at f' (resolve c) = Some cert \<and> file_at f' (resolve k) = Some key"
proof -
  from assms(1) obtain cert key f1 f2 where g: "tl_generate H subjects = Inr (cert, key)"
    and c: "fs_write now c cert f1 = (Inr (), f2)" and k: "fs_write now k key f2 = (Inr (), f')"
    by (auto simp: generate_files_def split: prod.splits sum.splits)
  have "lookup f' (resolve c) = lookup f2 (resolve c)" using write_Inr(2) [OF k ne] .
  with g write_Inr(1) [OF c] write_Inr(1) [OF k] show ?thesis by (simp add: file_at_def)
qed

lemma generate_files_call: "fs_call (generate_files H now c k subjects) {resolve c, resolve k}"
proof -
  let ?T = "{resolve c, resolve k}"
  have w: "fs_call (fs_write now c b) ?T" "fs_call (fs_write now k b) ?T" "fs_call (fs_create_dir_all p) ?T" for b p
    by (rule sys_write.widen sys_mkdir.widen; simp)+
  have "fs_call (\<lambda>f1. case tl_generate H subjects of
        Inl e \<Rightarrow> (Inl (TSelfSigned e), f1)
      | Inr (cert_pem, key_pem) \<Rightarrow>
     (case fs_write now c cert_pem f1 of
        (Inl e, f2) \<Rightarrow> (Inl (TIo e), f2)
      | (Inr _, f2) \<Rightarrow>
     (case fs_write now k key_pem f2 of
        (Inl e, f3) \<Rightarrow> (Inl (TIo e), f3)
      | (Inr _, f3) \<Rightarrow> (Inr (), f3)))) ?T"
    by (cases "tl_generate H subjects") (auto intro!: fs_call_return fs_call_try w split: prod.splits)
  then show ?thesis unfolding generate_files_def [abs_def] by (intro fs_call_try w)
qed

text \<open>
  The generated certificate is kept: a call touches no file but the two, after a successful call the
  same configuration is returned by every later one, with nothing written and whatever a fresh
  certificate would be, and when the files were generated they hold one certificate with its own key.
\<close>

lemma self_signed_kept:
  assumes nf: "no_faults f" and ne: "resolve c \<noteq> resolve k"
    and call: "server_config_self_signed H now c k subjects f = (r, f')"
  shows "(\<forall>q. q \<noteq> resolve c \<longrightarrow> q \<noteq> resolve k \<longrightarrow> file_at f' q = file_at f q) \<and>
    (\<forall>cfg. r = Inr cfg \<longrightarrow> server_config_self_signed (H\<lparr>tl_generate := g\<rparr>) later c k subjects f' = (Inr cfg, f') \<and>
       (f' = f \<or> (\<exists>cert key. tl_generate H subjects = Inr (cert, key) \<and>
          file_at f' (resolve c) = Some cert \<and> file_at f' (resolve k) = Some key)))"
proof -
  have kept: "server_config_self_signed (H\<lparr>tl_generate := g\<rparr>) later c k subjects h = (Inr cfg, h)"
    if "no_faults h" "server_config_from_files H c k h = Inr cfg" for h cfg
    using that from_files_reads [OF that(2)] exists_file [OF that(1)]
    by (simp add: server_config_self_signed_def from_files_generator)
  show ?thesis
  proof (cases "fs_exists c f \<and> fs_exists k f")
    case True
    with call kept [OF nf] show ?thesis by (auto simp: server_config_self_signed_def)
  next
    case False
    obtain x h where g: "generate_files H now c k subjects f = (x, h)" by fastforce
    with call False have h: "f' = h" by (auto simp: server_config_self_signed_def split: sum.splits)
    have "no_faults h" using fs_call.keeps_faults [OF generate_files_call, of H now c k subjects f] g nf by (simp add: no_faults_def)
    then have again: "server_config_self_signed (H\<lparr>tl_generate := g\<rparr>) later c k subjects h = (Inr cfg, h) \<and> (\<exists>u. x = Inr u)" if "r = Inr cfg" for cfg
      using call False g kept [of h cfg] that by (auto simp: server_config_self_signed_def split: sum.splits)
    have frame: "file_at h q = file_at f q" if "q \<noteq> resolve c" "q \<noteq> resolve k" for q
      using fs_call.frame [OF generate_files_call, of q c k H now subjects f] g that by simp
    have "\<exists>cert key. tl_generate H subjects = Inr (cert, key) \<and> file_at h (resolve c) = Some cert \<and> file_at h (resolve k) = Some key"
      if "r = Inr cfg" for cfg
      using again [OF that] generate_files_Inr [of H now c k subjects f _ h] g ne by auto
    with again show ?thesis unfolding h by (intro conjI allI impI) (simp_all add: frame)
  qed
qed


text \<open>Libraries for which every text is a certificate and a key.\<close>

definition demo_tls :: "(bytes, bytes, bytes \<times> bytes) tls_lib" where
  "demo_tls = \<lparr>tl_certs = (\<lambda>b. Inr [b]), tl_private_key = (\<lambda>b. Inr (Some b)),
     tl_single_cert = (\<lambda>cs k. Inr (hd cs, k)), tl_generate = (\<lambda>ss. Inr ([1], [2]))\<rparr>"

end
