(* ===== verification/Server.thy ===== *)
theory Server
  imports Registry_Refine Startup_Scan Auth Tls Config
begin

text \<open>
  \<^verbatim>\<open>serve\<close> of \<^verbatim>\<open>crates/quill-server/src/main.rs\<close>: how the parts are put together at start-up, and the
  application that answers the requests, the authentication layer around the registry.  All libraries are
  parameters, whether the address can be bound included.  A request that reaches the
  application is a step; the connections it comes from are in \<open>Connections\<close>.
\<close>

section \<open>Data\<close>

record ('c, 'k, 'g) server_lib =
  sl_toml :: "string \<Rightarrow> config option"
  sl_http :: http_lib
  sl_sha :: "bytes \<Rightarrow> string"
  sl_tags_codec :: tags_codec
  sl_upload_codec :: upload_codec
  sl_map_codec :: map_codec
  sl_json :: "bytes \<Rightarrow> json option"
  sl_texts :: err_texts
  sl_auth :: auth_lib
  sl_tls :: "('c, 'k, 'g) tls_lib"
  sl_dir_mtime :: "path \<Rightarrow> nat"
  sl_bind :: "string \<Rightarrow> bool"

datatype server_error =
    ServerConfigError path config_error
  | CreatingRoot path io_error
  | BuildingUpstreams upstream_error
  | LoadingHtpasswd path htpasswd_error
  | ServerIo io_error
  | ServerTls tls_error
  | Binding string

text \<open>What the accept loop hands to every connection.\<close>

record 'g server =
  sv_env :: "router_world reg_env"
  sv_reg :: "router_world registry"
  sv_auth :: auth_state
  sv_tls :: "'g server_config option"

section \<open>Start-up\<close>

definition load_htpasswd :: "config \<Rightarrow> fs \<Rightarrow> server_error + htpasswd_store option" where
  "load_htpasswd cfg f =
     (case Option.bind (ht_auth (cf_http cfg)) au_htpasswd of
        None \<Rightarrow> Inr None
      | Some h \<Rightarrow>
          (case htpasswd_load (hp_path h) f of
             Inl e \<Rightarrow> Inl (LoadingHtpasswd (hp_path h) e)
           | Inr store \<Rightarrow> Inr (Some store)))"

definition tls_setup :: "('c, 'k, 'g) tls_lib \<Rightarrow> nat \<Rightarrow> config \<Rightarrow> fs \<Rightarrow> (server_error + 'g server_config option) \<times> fs" where
  "tls_setup H now cfg f =
     (case ht_tls (cf_http cfg) of
        Some tls \<Rightarrow>
          (case server_config_from_files H (tls_cert tls) (tls_key tls) f of
             Inl e \<Rightarrow> (Inl (ServerTls e), f)
           | Inr c \<Rightarrow> (Inr (Some c), f))
      | None \<Rightarrow>
          (let self_signed_dir = path_join (st_root (cf_storage cfg)) ''_quill'';
               cert_path = path_join self_signed_dir ''self-signed.crt'';
               key_path = path_join self_signed_dir ''self-signed.key''
           in case fs_create_dir_all self_signed_dir f of
                (Inl e, f1) \<Rightarrow> (Inl (ServerIo e), f1)
              | (Inr _, f1) \<Rightarrow>
                  (case server_config_self_signed H now cert_path key_path [''localhost'', ''127.0.0.1''] f1 of
                     (Inl e, f2) \<Rightarrow> (Inl (ServerTls e), f2)
                   | (Inr c, f2) \<Rightarrow> (Inr (Some c), f2))))"

definition no_traffic :: router_world where
  "no_traffic = (\<lambda>_. bearer_new, [])"

definition serve_start :: "('c, 'k, 'g) server_lib \<Rightarrow> clock \<Rightarrow> path \<Rightarrow> fs \<Rightarrow> (server_error + 'g server) \<times> fs" where
  "serve_start H ck config_path f =
     (case from_file (sl_toml H) config_path f of
        Inl e \<Rightarrow> (Inl (ServerConfigError config_path e), f)
      | Inr cfg \<Rightarrow>
     (let rt = st_root (cf_storage cfg); layout = \<lparr>root = rt\<rparr> in
      case fs_create_dir_all rt f of
        (Inl e, f1) \<Rightarrow> (Inl (CreatingRoot rt e), f1)
      | (Inr _, f1) \<Rightarrow>
     (let local_tags = load_existing_local_tags (sl_tags_codec H) rt f1 (tags_new layout) in
      case sweep (sl_dir_mtime H) (wall ck) (86400 * 10 ^ 9) (uploads_new layout) f1 of
        (_, f2) \<Rightarrow>
     (case router_build (sl_http H) (sl_sha H) 0 (cf_upstream cfg) of
        Inl e \<Rightarrow> (Inl (BuildingUpstreams e), f2)
      | Inr upstreams \<Rightarrow>
     (let tag_cache = load_existing_upstream_tags (sl_map_codec H) (inst ck) rt f2 (tcache_new (300 * 10 ^ 9) (Some layout)) in
      case load_htpasswd cfg f2 of
        Inl e \<Rightarrow> (Inl e, f2)
      | Inr htpasswd \<Rightarrow>
     (case tls_setup (sl_tls H) (wall ck) cfg f2 of
        (Inl e, f3) \<Rightarrow> (Inl e, f3)
      | (Inr tls, f3) \<Rightarrow>
          if \<not> sl_bind H (ht_address (cf_http cfg)) then (Inl (Binding (ht_address (cf_http cfg))), f3)
          else (Inr \<lparr>sv_env = \<lparr>ev_sha = sl_sha H, ev_tags_codec = sl_tags_codec H, ev_upload_codec = sl_upload_codec H,
                       ev_map_codec = sl_map_codec H, ev_json = sl_json H, ev_texts = sl_texts H, ev_upstreams = upstreams\<rparr>,
                     sv_reg = reg_start layout (unat (st_blob_meta_ttl_secs (cf_storage cfg)) * 10 ^ 9) local_tags tag_cache f3 no_traffic,
                     sv_auth = auth_new htpasswd, sv_tls = tls\<rparr>, f3)))))))"

section \<open>The application\<close>

text \<open>\<^verbatim>\<open>registry_router(state).layer(AuthLayer::new(auth_state))\<close> on one request.\<close>

definition app_call :: "auth_lib \<Rightarrow> clock \<Rightarrow> string \<Rightarrow> http_req \<Rightarrow> 'g server \<Rightarrow> reply \<times> 'g server" where
  "app_call A ck p q S =
     (case auth_call A (inst ck) (hq_headers q) Ready (router_call (sv_env S) ck p q) (sv_auth S) (sv_reg S) of
        (rep, st, R) \<Rightarrow> (rep, S\<lparr>sv_auth := st, sv_reg := R\<rparr>))"

text \<open>The running server: a request is answered, or a spawned producer task runs.\<close>

inductive app_step :: "auth_lib \<Rightarrow> 'g server \<Rightarrow> 'g server \<Rightarrow> bool" for A where
  app_request: "fresh_session ck (rg_uploads (sv_reg S)) \<Longrightarrow> app_call A ck p q S = (rep, S') \<Longrightarrow> app_step A S S'"
| app_spawned: "rg_tasks (sv_reg S) = ts @ k # us \<Longrightarrow>
    app_step A S (S\<lparr>sv_reg := producer_task (sv_env S) ck k ((sv_reg S)\<lparr>rg_tasks := ts @ us\<rparr>)\<rparr>)"

inductive_cases app_stepE: "app_step A S S'"

section \<open>The start state is safe\<close>

lemma tcache_ok_insert_all:
  "tcache_ok T \<Longrightarrow> tcache_ok (T\<lparr>tc_entries := tcache_insert_all now repo ts (tc_entries T)\<rparr>)"
proof (induction ts arbitrary: T)
  case (Cons t ts)
  obtain tag s where t: "t = (tag, s)" by fastforce
  show ?case
  proof (cases "digest_parse s")
    case (Inr d)
    then have "tcache_ok (T\<lparr>tc_entries := dm_insert (repo, tag) (d, now) (tc_entries T)\<rparr>)"
      by (intro tcache_ok_upd Cons.prems) (rule digest_parse_wf)
    from Cons.IH [OF this] Inr t show ?thesis by simp
  qed (use Cons t in simp)
qed simp


lemma tcache_ok_load_repo: "tcache_ok T \<Longrightarrow> tcache_ok (tcache_load_repo C now repo f T)"
  by (auto simp: tcache_load_repo_def tcache_ok_insert_all split: option.splits sum.splits)

lemma tcache_ok_scan: "tcache_ok T \<Longrightarrow> tcache_ok (load_existing_upstream_tags C now rt f T)"
proof -
  assume "tcache_ok T"
  then have "tcache_ok (fold (\<lambda>rel. tcache_load_repo C now (path_str rel) f) rels T)" for rels
    by (induction rels arbitrary: T) (simp_all add: tcache_ok_load_repo)
  then show ?thesis using \<open>tcache_ok T\<close> by (simp add: load_existing_upstream_tags_def scan_loop_fold del: visited.simps)
qed

text \<open>The files start-up may write: the certificate and the key it generates.\<close>

definition self_signed_files :: "path \<Rightarrow> path set" where
  "self_signed_files rt = {resolve rt @ [''_quill'', ''self-signed.crt''], resolve rt @ [''_quill'', ''self-signed.key'']}"

lemma self_signed_resolve:
  "resolve (path_join (path_join rt ''_quill'') ''self-signed.crt'') = resolve rt @ [''_quill'', ''self-signed.crt'']"
  "resolve (path_join (path_join rt ''_quill'') ''self-signed.key'') = resolve rt @ [''_quill'', ''self-signed.key'']"
  by (simp_all add: path_simps plain_name_def)

lemma self_signed_call:
  "fs_call (server_config_self_signed H now c k subjects) {resolve c, resolve k}"
proof (rule fs_call_pick)
  fix f
  let ?g = "\<lambda>f. case generate_files H now c k subjects f of (Inl e, f1) \<Rightarrow> (Inl e, f1) | (Inr _, f1) \<Rightarrow> (server_config_from_files H c k f1, f1)"
  have "fs_call (\<lambda>f1. (server_config_from_files H c k f1, f1)) {resolve c, resolve k}" by unfold_locales auto
  then have "fs_call ?g {resolve c, resolve k}" by (intro fs_call_try generate_files_call)
  moreover have "fs_call (\<lambda>f. (server_config_from_files H c k f, f)) {resolve c, resolve k}" by unfold_locales auto
  ultimately show "\<exists>call. fs_call call {resolve c, resolve k} \<and> server_config_self_signed H now c k subjects f = call f"
    by (cases "fs_exists c f \<and> fs_exists k f") (auto simp: server_config_self_signed_def)
qed

lemma tls_setup_call: "fs_call (tls_setup H now cfg) (self_signed_files (st_root (cf_storage cfg)))"
proof (cases "ht_tls (cf_http cfg)")
  case (Some t)
  then show ?thesis
    by unfold_locales (auto simp: tls_setup_def split: sum.splits)
next
  case None
  let ?d = "path_join (st_root (cf_storage cfg)) ''_quill''"
  let ?T = "self_signed_files (st_root (cf_storage cfg))"
  have s: "fs_call (server_config_self_signed H now (path_join ?d ''self-signed.crt'') (path_join ?d ''self-signed.key'') ss) ?T" for ss
    by (rule fs_call.widen [OF self_signed_call]) (simp add: self_signed_resolve self_signed_files_def)
  have "fs_call (fs_create_dir_all ?d) ?T" by (rule sys_mkdir.widen) simp
  with s show ?thesis unfolding tls_setup_def [abs_def] None Let_def option.case
    by (intro fs_call_try) (simp_all add: fs_call_return)
qed

lemma self_signed_no_slot: "q \<in> self_signed_files rt \<Longrightarrow> \<not> is_slot q"
proof -
  have "\<not> is_slot ((resolve rt @ [''_quill'']) @ [c])" if "c = ''self-signed.crt'' \<or> c = ''self-signed.key''" for c
    by (rule not_hex64_not_slot) (use that in \<open>auto simp: hex64_def\<close>)
  then show "q \<in> self_signed_files rt \<Longrightarrow> \<not> is_slot q" by (auto simp: self_signed_files_def)
qed

text \<open>What start-up does to the files, whether it succeeds or not: the root is created, the sweep runs, the certificate is set up.\<close>

lemma serve_start_files:
  assumes "serve_start H ck p f = (r, f')"
  shows "f' = f \<or> (\<exists>cfg f1 f2. from_file (sl_toml H) p f = Inr cfg \<and> f1 = snd (fs_create_dir_all (st_root (cf_storage cfg)) f) \<and>
    (f2 = f1 \<or> f2 = snd (sweep (sl_dir_mtime H) (wall ck) (86400 * 10 ^ 9) (uploads_new \<lparr>root = st_root (cf_storage cfg)\<rparr>) f1)) \<and>
    (f' = f2 \<or> f' = snd (tls_setup (sl_tls H) (wall ck) cfg f2)))"
  using assms
  by (auto simp: serve_start_def Let_def split: sum.splits prod.splits if_splits)


lemma keeps_start: "serve_start H ck p f = (r, f') \<Longrightarrow> keeps f f'"
proof (drule serve_start_files, elim disjE [of "f' = f"] exE conjE)
  fix cfg f1 f2
  assume f1: "f1 = snd (fs_create_dir_all (st_root (cf_storage cfg)) f)"
    and f2: "f2 = f1 \<or> f2 = snd (sweep (sl_dir_mtime H) (wall ck) (86400 * 10 ^ 9) (uploads_new \<lparr>root = st_root (cf_storage cfg)\<rparr>) f1)"
    and f3: "f' = f2 \<or> f' = snd (tls_setup (sl_tls H) (wall ck) cfg f2)"
  have "keeps f f1" unfolding f1 by (rule keeps_call) (rule sys_mkdir.fs_call_axioms)
  moreover have "keeps f1 f2" using f2 keeps_sweep [OF prod.collapse [symmetric]] by (elim disjE) simp_all
  moreover have "keeps f2 f'" using f3 keeps_call [OF tls_setup_call] by (elim disjE) simp_all
  ultimately show "keeps f f'" by (blast intro: keeps_trans)
qed simp

lemma mkdir_old_file: "lookup (snd (fs_create_dir_all p f)) q = Some (FFile b t) \<Longrightarrow> lookup f q = Some (FFile b t)"
  by (auto simp: fs_create_dir_all_def Let_def mkdirs_lookup split: if_splits)

lemma start_file:
  assumes "serve_start H ck p f = (r, f')"
  shows "file_at f' q = file_at f q \<or>
    (\<exists>cfg. from_file (sl_toml H) p f = Inr cfg \<and> q \<in> self_signed_files (st_root (cf_storage cfg))) \<or>
    file_at f' q = None \<and> (\<exists>d c b t. q = d @ [''_uploads'', c] \<and> lookup f q = Some (FFile b t) \<and> 86400 * 10 ^ 9 < wall ck - t)"
  using serve_start_files [OF assms]
proof (elim disjE [of "f' = f"] exE conjE)
  fix cfg f1 f2
  assume cfg: "from_file (sl_toml H) p f = Inr cfg" and f1: "f1 = snd (fs_create_dir_all (st_root (cf_storage cfg)) f)"
    and f2: "f2 = f1 \<or> f2 = snd (sweep (sl_dir_mtime H) (wall ck) (86400 * 10 ^ 9) (uploads_new \<lparr>root = st_root (cf_storage cfg)\<rparr>) f1)"
    and f3: "f' = f2 \<or> f' = snd (tls_setup (sl_tls H) (wall ck) cfg f2)"
  show ?thesis
  proof (cases "q \<in> self_signed_files (st_root (cf_storage cfg))")
    case False
    then have e3: "file_at f' q = file_at f2 q" using f3 fs_call.frame [OF tls_setup_call] by (elim disjE) simp_all
    have e1: "file_at f1 q = file_at f q" unfolding f1 by (rule sys_mkdir.frame) simp
    have "swept (wall ck) (86400 * 10 ^ 9) f1 f2" using f2 sweep_swept [OF prod.collapse [symmetric]] by (elim disjE) simp_all
    from swept_file [OF this, of q] have "file_at f2 q = file_at f1 q \<or>
        file_at f2 q = None \<and> (\<exists>d c b t. q = d @ [''_uploads'', c] \<and> lookup f1 q = Some (FFile b t) \<and> 86400 * 10 ^ 9 < wall ck - t)"
      by blast
    moreover have "lookup f q = Some (FFile b t)" if "lookup f1 q = Some (FFile b t)" for b t
      using that unfolding f1 by (rule mkdir_old_file)
    ultimately show ?thesis unfolding e3 e1 by blast
  qed (use cfg in blast)
qed simp

lemma start_cas_ok: "serve_start H ck p f = (r, f') \<Longrightarrow> cas_ok sha f \<Longrightarrow> cas_ok sha f'"
proof (erule cas_ok_subset)
  fix d h b assume s: "serve_start H ck p f = (r, f')" and h: "hex64 h" and b: "file_at f' (slot d h) = Some b"
  have "\<not> (\<exists>cfg. from_file (sl_toml H) p f = Inr cfg \<and> slot d h \<in> self_signed_files (st_root (cf_storage cfg)))"
    using h self_signed_no_slot by (auto simp: is_slot_def)
  with start_file [OF s, of "slot d h"] b show "file_at f (slot d h) = Some b" by simp
qed


lemma tls_setup_Some: "tls_setup T now cfg g = (Inr tls, g') \<Longrightarrow> \<exists>x. tls = Some x"
  by (auto simp: tls_setup_def Let_def split: option.splits sum.splits prod.splits)

text \<open>What a server that has started is made of.\<close>

lemma serve_start_Inr:
  assumes "serve_start H ck p f = (Inr S, f')"
  obtains cfg us tags cache L t st tls where
    "from_file (sl_toml H) p f = Inr cfg" "router_build (sl_http H) (sl_sha H) 0 (cf_upstream cfg) = Inr us"
    "ev_sha (sv_env S) = sl_sha H" "ev_upstreams (sv_env S) = us" "tcache_ok cache"
    "sv_reg S = reg_start L t tags cache f' no_traffic"
    "sv_auth S = auth_new st" "\<And>h. st = Some h \<Longrightarrow> \<exists>q g. htpasswd_load q g = Inr h"
    "sv_tls S = Some tls"
proof -
  have c: "tcache_ok (load_existing_upstream_tags C now rt g (tcache_new m L))" for C now rt g m L by (simp add: tcache_ok_scan)
  have h: "\<exists>q g. htpasswd_load q g = Inr x" if "load_htpasswd cfg g = Inr (Some x)" for cfg g x
    using that by (auto simp: load_htpasswd_def split: option.splits sum.splits)
  from assms obtain cfg f1 f2 us st tls where cfg: "from_file (sl_toml H) p f = Inr cfg"
    and us: "router_build (sl_http H) (sl_sha H) 0 (cf_upstream cfg) = Inr us" and st: "load_htpasswd cfg f2 = Inr st"
    and tls: "tls_setup (sl_tls H) (wall ck) cfg f2 = (Inr tls, f')"
    and S: "ev_sha (sv_env S) = sl_sha H" "ev_upstreams (sv_env S) = us"
      "sv_reg S = reg_start \<lparr>root = st_root (cf_storage cfg)\<rparr> (unat (st_blob_meta_ttl_secs (cf_storage cfg)) * 10 ^ 9)
         (load_existing_local_tags (sl_tags_codec H) (st_root (cf_storage cfg)) f1 (tags_new \<lparr>root = st_root (cf_storage cfg)\<rparr>))
         (load_existing_upstream_tags (sl_map_codec H) (inst ck) (st_root (cf_storage cfg)) f2
            (tcache_new (300 * 10 ^ 9) (Some \<lparr>root = st_root (cf_storage cfg)\<rparr>))) f' no_traffic"
      "sv_auth S = auth_new st" "sv_tls S = tls"
    by (auto simp: serve_start_def Let_def split: sum.splits prod.splits if_splits)
  from tls_setup_Some [OF tls] obtain x where x: "tls = Some x" ..
  show ?thesis by (rule that [OF cfg us S(1,2) c S(3,4) _ S(5) [unfolded x]]) (use st h in blast)
qed

section \<open>Steps of the application are steps of the registry\<close>

text \<open>The users of the password file decide who is admitted, and nothing changes them.\<close>

definition users_of :: "auth_state \<Rightarrow> (string, string) dashmap option" where
  "users_of st = map_option hs_users (as_htpasswd st)"

lemma admitted_users: "users_of st = users_of st' \<Longrightarrow> admitted A st headers = admitted A st' headers"
  by (cases "as_htpasswd st"; cases "as_htpasswd st'") (simp_all add: users_of_def admitted_def cong: option.case_cong)

lemma app_call_gate:
  assumes "auth_sound A (sv_auth S)" and "app_call A ck p q S = (rep, S')"
  shows "(rep, sv_reg S') = (if admitted A (sv_auth S) (hq_headers q) then router_call (sv_env S) ck p q (sv_reg S)
      else (Ready unauthorized_response, sv_reg S)) \<and>
    auth_sound A (sv_auth S') \<and> users_of (sv_auth S') = users_of (sv_auth S) \<and> sv_env S' = sv_env S \<and> sv_tls S' = sv_tls S"
proof -
  obtain r st R where c: "auth_call A (inst ck) (hq_headers q) Ready (router_call (sv_env S) ck p q) (sv_auth S) (sv_reg S) = (r, st, R)"
    by (metis prod_cases3)
  from auth_call_gate [OF assms(1) c] assms(2) c show ?thesis by (auto simp: app_call_def users_of_def)
qed

lemma app_step_sim:
  assumes "auth_sound A (sv_auth S)" and "app_step A S S'"
  shows "(sv_reg S' = sv_reg S \<or> reg_step (sv_env S) (sv_reg S) (sv_reg S')) \<and>
    auth_sound A (sv_auth S') \<and> users_of (sv_auth S') = users_of (sv_auth S) \<and> sv_env S' = sv_env S \<and> sv_tls S' = sv_tls S"
  using assms(2)
proof (rule app_stepE)
  fix ck p q rep assume f: "fresh_session ck (rg_uploads (sv_reg S))" and c: "app_call A ck p q S = (rep, S')"
  from app_call_gate [OF assms(1) c] reg_step.request [OF f, of "sv_env S" p q rep "sv_reg S'"] show ?thesis
    by (auto split: if_splits)
next
  fix ts k us ck assume t: "rg_tasks (sv_reg S) = ts @ k # us"
    and S: "S' = S\<lparr>sv_reg := producer_task (sv_env S) ck k ((sv_reg S)\<lparr>rg_tasks := ts @ us\<rparr>)\<rparr>"
  from reg_step.spawned [OF t, of "sv_env S" ck] assms(1) show ?thesis unfolding S by simp
qed

lemma app_reachable:
  assumes "(app_step A)\<^sup>*\<^sup>* S S'" and "auth_sound A (sv_auth S)"
  shows "(reg_step (sv_env S))\<^sup>*\<^sup>* (sv_reg S) (sv_reg S') \<and>
    auth_sound A (sv_auth S') \<and> users_of (sv_auth S') = users_of (sv_auth S) \<and> sv_env S' = sv_env S \<and> sv_tls S' = sv_tls S"
  using assms
proof (induction rule: rtranclp_induct)
  case (step T U)
  then have i: "(reg_step (sv_env S))\<^sup>*\<^sup>* (sv_reg S) (sv_reg T)" "auth_sound A (sv_auth T)"
    "users_of (sv_auth T) = users_of (sv_auth S)" "sv_env T = sv_env S" "sv_tls T = sv_tls S" by simp_all
  from app_step_sim [OF i(2) step(2)] i show ?case by (auto intro: rtranclp.rtrancl_into_rtrancl)
qed simp

lemma start_auth_sound: "serve_start H ck p f = (Inr S, f') \<Longrightarrow> auth_sound A (sv_auth S)"
  by (erule serve_start_Inr) (auto simp: auth_sound_def auth_new_def dest: load_sound)

lemma start_inv:
  assumes "serve_start H ck p f = (Inr S, f')" and "sha_ok (sl_sha H)" and "cas_ok (sl_sha H) f" and "no_faults f" and "fs_ok f"
  shows "reg_inv (sv_env S) (sv_reg S) \<and> env_ok (sv_env S) \<and> ev_sha (sv_env S) = sl_sha H \<and> (\<exists>c. sv_tls S = Some c)"
proof (rule serve_start_Inr [OF assms(1)])
  fix cfg us tags cache L t st tls
  assume us: "router_build (sl_http H) (sl_sha H) 0 (cf_upstream cfg) = Inr us" and V: "ev_sha (sv_env S) = sl_sha H" "ev_upstreams (sv_env S) = us"
    and c: "tcache_ok cache" and R: "sv_reg S = reg_start L t tags cache f' no_traffic" and tls: "sv_tls S = Some tls"
  have "no_faults f'" "fs_ok f'" using keeps_start [OF assms(1)] assms(4,5) by (simp_all add: keeps_def no_faults_def)
  moreover have "cas_ok (sl_sha H) f'" by (rule start_cas_ok [OF assms(1,3)])
  ultimately have "reg_inv (sv_env S) (sv_reg S)" unfolding R using c V by (intro inv_start) simp_all
  moreover have "env_ok (sv_env S)" using V assms(2) router_build_contract [OF us] by (simp add: env_ok_def)
  ultimately show ?thesis using V tls by simp
qed

section \<open>Properties of the whole server\<close>


text \<open>
  C3. Nothing behind the authentication runs without valid credentials: in every reachable state of the
  server a request is answered by the registry, exactly as the router answers it, when no password file is
  configured or its \<^verbatim>\<open>Authorization\<close> header holds a user of the file loaded at start-up with a matching
  password; any other request is answered with 401 and leaves the registry as it was.
\<close>

theorem app_gate:
  assumes "serve_start H ck0 p0 f = (Inr S0, f')" and "(app_step (sl_auth H))\<^sup>*\<^sup>* S0 S" and "app_call (sl_auth H) ck p q S = (rep, S')"
  shows "(rep, sv_reg S') =
    (if admitted (sl_auth H) (sv_auth S0) (hq_headers q) then router_call (sv_env S0) ck p q (sv_reg S)
     else (Ready unauthorized_response, sv_reg S))"
proof -
  note r = app_reachable [OF assms(2) start_auth_sound [OF assms(1)]]
  then have "admitted (sl_auth H) (sv_auth S) (hq_headers q) = admitted (sl_auth H) (sv_auth S0) (hq_headers q)"
    by (intro admitted_users) simp
  with app_call_gate [OF _ assms(3)] r show ?thesis by simp
qed

text \<open>
  C39. Start-up is careful with the files it finds, whether it succeeds or not: besides creating
  directories it changes no file, except that uploads older than a day are removed and that the generated
  certificate and its key are written below the storage root.
\<close>

theorem serve_start_effects:
  "file_at (snd (serve_start H ck p f)) q = file_at f q \<or>
   (\<exists>cfg. from_file (sl_toml H) p f = Inr cfg \<and> q \<in> self_signed_files (st_root (cf_storage cfg))) \<or>
   file_at (snd (serve_start H ck p f)) q = None \<and>
     (\<exists>d c b t. q = d @ [''_uploads'', c] \<and> lookup f q = Some (FFile b t) \<and> 86400 * 10 ^ 9 < wall ck - t)"
  by (rule start_file [OF prod.collapse [symmetric]])

text \<open>A server with a password file, on loopback and without upstreams, that starts on an empty cache.\<close>

definition demo_server_config :: config where
  "demo_server_config = \<lparr>cf_http = \<lparr>ht_address = ''127.0.0.1:5000'', ht_tls = None,
       ht_auth = Some \<lparr>au_htpasswd = Some \<lparr>hp_path = [''pw'']\<rparr>, au_token = None\<rparr>\<rparr>,
     cf_storage = \<lparr>st_root = [''q''], st_blob_meta_ttl_secs = default_blob_meta_ttl\<rparr>, cf_upstream = []\<rparr>"

definition demo_server_lib :: "(bytes, bytes, bytes \<times> bytes) server_lib" where
  "demo_server_lib = \<lparr>sl_toml = (\<lambda>s. Some demo_server_config), sl_http = demo_lib, sl_sha = demo_sha,
     sl_tags_codec = demo_codec, sl_upload_codec = demo_ucodec, sl_map_codec = demo_map_codec, sl_json = (\<lambda>b. None),
     sl_texts = \<lparr>et_io = (\<lambda>e. ''io''), et_json = ''json''\<rparr>, sl_auth = demo_auth_lib, sl_tls = demo_tls,
     sl_dir_mtime = (\<lambda>_. 0), sl_bind = (\<lambda>_. True)\<rparr>"

definition demo_server_fs :: fs where
  "demo_server_fs = \<lparr>nodes = [([''c''], FFile [] 0), ([''pw''], FFile (to_bytes ''al:h'') 0), ([''q''], FDir), ([''q'', ''_quill''], FDir),
     ([''q'', ''_quill'', ''self-signed.crt''], FFile [1] 0), ([''q'', ''_quill'', ''self-signed.key''], FFile [2] 0)], faults = (\<lambda>_ _. None)\<rparr>"

abbreviation server_clock :: clock where
  "server_clock \<equiv> \<lparr>inst = 0, wall = 0, pid = 1\<rparr>"

lemma demo_server_fs_ok: "no_faults demo_server_fs" "fs_ok demo_server_fs" "cas_ok demo_sha demo_server_fs"
proof -
  show "no_faults demo_server_fs" by (simp add: no_faults_def demo_server_fs_def)
  show "fs_ok demo_server_fs" by (auto simp: fs_ok_def demo_server_fs_def lookup_def split: if_splits)
  show "cas_ok demo_sha demo_server_fs"
    by (rule cas_okI) (auto simp: demo_server_fs_def file_at_def lookup_def slot_def split: if_splits option.splits)
qed

lemma demo_server_lookup:
  "lookup demo_server_fs [''c''] = Some (FFile [] 0)" "lookup demo_server_fs [''pw''] = Some (FFile (to_bytes ''al:h'') 0)"
  "lookup demo_server_fs [''q''] = Some FDir" "lookup demo_server_fs [''q'', ''_quill''] = Some FDir"
  "lookup demo_server_fs [''q'', ''_quill'', ''self-signed.crt''] = Some (FFile [1] 0)"
  "lookup demo_server_fs [''q'', ''_quill'', ''self-signed.key''] = Some (FFile [2] 0)"
  by (simp_all add: lookup_def demo_server_fs_def)

lemma demo_server_config: "from_file (\<lambda>s. Some demo_server_config) [''c''] demo_server_fs = Inr demo_server_config"
proof -
  have "fs_read [''c''] demo_server_fs = Inr []"
    using demo_server_fs_ok(1) demo_server_lookup(1) by (simp add: read_ok resolve_canonical file_at_def)
  then show ?thesis by (simp add: from_file_def fs_read_to_string_def from_utf8_def validate_def is_localhost_def
      starts_with_def demo_server_config_def)
qed

lemma demo_server_root: "fs_create_dir_all [''q''] demo_server_fs = (Inr (), demo_server_fs)"
  "fs_create_dir_all [''q'', ''_quill''] demo_server_fs = (Inr (), demo_server_fs)"
  using demo_server_fs_ok(1) by (simp_all add: fs_create_dir_all_def no_faults_def failing_def resolve_canonical demo_server_lookup upt_rec)

lemma demo_server_children: "children demo_server_fs [''q''] = [(''_quill'', FDir)]"
  unfolding demo_server_fs_def by code_simp

lemma demo_server_sweep: "sweep (\<lambda>_. 0) 0 ma (uploads_new \<lparr>root = [''q'']\<rparr>) demo_server_fs = (Inr 0, demo_server_fs)"
proof -
  have "fs_read_dir [''q''] demo_server_fs = Inr ([(''_quill'', FDir)], False)"
    using demo_server_fs_ok(1) by (simp add: fs_read_dir_def node_at_def no_faults_def failing_def resolve_canonical demo_server_lookup demo_server_children)
  moreover have "fs_exists [''q''] demo_server_fs" using demo_server_fs_ok(1)
    by (simp add: fs_exists_def fs_metadata_def node_at_def no_faults_def failing_def resolve_canonical demo_server_lookup)
  ultimately show ?thesis by (simp add: sweep_def uploads_new_def Let_def)
qed


lemma demo_server_htpasswd: "load_htpasswd demo_server_config demo_server_fs = Inr (Some demo_pw_store)"
proof -
  have "fs_read [''pw''] demo_server_fs = Inr (to_bytes ''al:h'')"
    using demo_server_fs_ok(1) demo_server_lookup(2) by (simp add: read_ok resolve_canonical file_at_def)
  moreover have "from_utf8 (to_bytes ''al:h'') = Some ''al:h''" by (rule from_utf8_to_bytes) simp
  ultimately have "fs_read_to_string [''pw''] demo_server_fs = Inr ''al:h''" by (simp add: fs_read_to_string_def)
  moreover have "str_lines ''al:h'' = [''al:h'']" "trim ''al:h'' = ''al:h''" by code_simp+
  ultimately have "parse_file [''pw''] demo_server_fs = Inr [(''al'', ''h'')]"
    by (simp add: parse_file_def starts_with_def dm_insert_def)
  then show ?thesis by (simp add: load_htpasswd_def demo_server_config_def htpasswd_load_def demo_pw_store_def)
qed

lemma demo_server_tls: "\<exists>c. tls_setup demo_tls now demo_server_config demo_server_fs = (Inr (Some c), demo_server_fs)"
proof -
  let ?c = "[''q'', ''_quill'', ''self-signed.crt'']" and ?k = "[''q'', ''_quill'', ''self-signed.key'']"
  have p: "path_join [''q''] ''_quill'' = [''q'', ''_quill'']" "path_join [''q'', ''_quill''] ''self-signed.crt'' = ?c"
    "path_join [''q'', ''_quill''] ''self-signed.key'' = ?k" by (simp_all add: path_join_plain plain_name_def)
  have r: "fs_read ?c demo_server_fs = Inr [1]" "fs_read ?k demo_server_fs = Inr [2]"
    using demo_server_fs_ok(1) demo_server_lookup(5,6) by (simp_all add: read_ok resolve_canonical file_at_def)
  have "fs_exists ?c demo_server_fs" "fs_exists ?k demo_server_fs"
    using demo_server_fs_ok(1) by (simp_all add: fs_exists_def fs_metadata_def node_at_def no_faults_def failing_def resolve_canonical demo_server_lookup)
  with r show ?thesis
    by (simp add: tls_setup_def demo_server_config_def p demo_server_root server_config_self_signed_def server_config_from_files_def
        load_certs_def load_private_key_def demo_tls_def)
qed

lemma demo_server_starts:
  "\<exists>S. serve_start demo_server_lib server_clock [''c''] demo_server_fs = (Inr S, demo_server_fs) \<and>
     sv_auth S = auth_new (Some demo_pw_store) \<and> rg_uploads (sv_reg S) = uploads_new \<lparr>root = [''q'']\<rparr>"
proof -
  obtain c where c: "tls_setup demo_tls 0 demo_server_config demo_server_fs = (Inr (Some c), demo_server_fs)"
    using demo_server_tls by blast
  have r: "st_root (cf_storage demo_server_config) = [''q'']" "cf_upstream demo_server_config = []" by (simp_all add: demo_server_config_def)
  show ?thesis
    by (simp add: serve_start_def demo_server_lib_def demo_server_config demo_server_root demo_server_sweep demo_server_htpasswd c r Let_def
        reg_start_def)
qed


theorem app_gate_witness:
  "\<exists>S S'. serve_start demo_server_lib server_clock [''c''] demo_server_fs = (Inr S, demo_server_fs) \<and>
     app_call demo_auth_lib server_clock ''/v2/a/blobs/uploads/''
       \<lparr>hq_method = POST, hq_query = [], hq_headers = [(''authorization'', ''Basic al:x'')], hq_body = []\<rparr> S =
       (Ready unauthorized_response, S') \<and> sv_reg S' = sv_reg S"
proof -
  obtain S where S: "serve_start demo_server_lib server_clock [''c''] demo_server_fs = (Inr S, demo_server_fs)"
    and a: "sv_auth S = auth_new (Some demo_pw_store)" using demo_server_starts by blast
  let ?h = "[(''authorization'', ''Basic al:x'')]"
  let ?q = "\<lparr>hq_method = POST, hq_query = [], hq_headers = ?h, hq_body = []\<rparr>"
  obtain rep S' where c: "app_call demo_auth_lib server_clock ''/v2/a/blobs/uploads/'' ?q S = (rep, S')" by fastforce
  have l: "sl_auth demo_server_lib = demo_auth_lib" by (simp add: demo_server_lib_def)
  have "hdr_str ''authorization'' ?h = Some ''Basic al:x''" by code_simp
  then have "\<not> admitted demo_auth_lib (sv_auth S) ?h" by (simp add: admitted_def auth_new_def demo_check a)
  with app_gate [OF S rtranclp.rtrancl_refl, unfolded l, OF c] S c show ?thesis by simp
qed

end
