(* ===== verification/Connections.thy ===== *)
theory Connections
  imports Server
begin

text \<open>
  The accept loop of \<^verbatim>\<open>serve\<close> and \<^verbatim>\<open>serve_conn\<close> in \<^verbatim>\<open>crates/quill-server/src/main.rs\<close>: connections are accepted,
  each is served by a task of its own, after a TLS handshake where a certificate is configured, and every
  request on it goes to the application.  The listener, the handshake of \<^verbatim>\<open>tokio_rustls\<close> and the HTTP
  connection of \<^verbatim>\<open>hyper\<close> are parameters; the tasks interleave at their await points.
\<close>

section \<open>Data\<close>

text \<open>What \<^verbatim>\<open>hyper\<close> does next on a connection, given the answers it has got so far.\<close>

datatype conn_event = Incoming string http_req | Finished | HyperError string

record ('s, 'g) conn_lib =
  cn_accept :: "nat \<Rightarrow> io_error + 's"
  cn_handshake :: "'g server_config \<Rightarrow> 's \<Rightarrow> io_error + 's"
  cn_next :: "'s \<Rightarrow> reply list \<Rightarrow> conn_event"

datatype conn_error = HandshakeFailed io_error | Hyper string

datatype 's conn_phase = Accepted 's | Open 's | Served | ConnectionError conn_error

record 's conn =
  cs_stream :: 's
  cs_phase :: "'s conn_phase"
  cs_answers :: "reply list"

record ('s, 'g) running =
  ru_server :: "'g server"
  ru_conns :: "'s conn list"
  ru_accepts :: nat

section \<open>Operations\<close>

text \<open>One turn of the accept loop: a failed \<^verbatim>\<open>accept\<close> is logged, otherwise a task is spawned.\<close>

definition accept_turn :: "('s, 'g) conn_lib \<Rightarrow> ('s, 'g) running \<Rightarrow> ('s, 'g) running" where
  "accept_turn C r =
     (let r1 = r\<lparr>ru_accepts := Suc (ru_accepts r)\<rparr> in
      case cn_accept C (ru_accepts r) of
        Inl e \<Rightarrow> r1
      | Inr s \<Rightarrow> r1\<lparr>ru_conns := ru_conns r @ [\<lparr>cs_stream = s, cs_phase = Accepted s, cs_answers = []\<rparr>]\<rparr>)"

text \<open>\<^verbatim>\<open>serve_conn\<close> up to its next await point.\<close>

definition serve_conn :: "('s, 'g) conn_lib \<Rightarrow> auth_lib \<Rightarrow> clock \<Rightarrow> 's conn \<Rightarrow> 'g server \<Rightarrow> 's conn \<times> 'g server" where
  "serve_conn C A ck c S =
     (case cs_phase c of
        Accepted s \<Rightarrow>
          ((case sv_tls S of
              Some cfg \<Rightarrow>
                (case cn_handshake C cfg s of
                   Inl e \<Rightarrow> c\<lparr>cs_phase := ConnectionError (HandshakeFailed e)\<rparr>
                 | Inr tls_stream \<Rightarrow> c\<lparr>cs_phase := Open tls_stream\<rparr>)
            | None \<Rightarrow> c\<lparr>cs_phase := Open s\<rparr>), S)
      | Open s \<Rightarrow>
          (case cn_next C s (cs_answers c) of
             Incoming p q \<Rightarrow>
               (case app_call A ck p q S of (rep, S') \<Rightarrow> (c\<lparr>cs_answers := cs_answers c @ [rep]\<rparr>, S'))
           | Finished \<Rightarrow> (c\<lparr>cs_phase := Served\<rparr>, S)
           | HyperError e \<Rightarrow> (c\<lparr>cs_phase := ConnectionError (Hyper e)\<rparr>, S))
      | _ \<Rightarrow> (c, S))"

definition conn_turn :: "('s, 'g) conn_lib \<Rightarrow> auth_lib \<Rightarrow> clock \<Rightarrow> nat \<Rightarrow> ('s, 'g) running \<Rightarrow> ('s, 'g) running" where
  "conn_turn C A ck i r =
     (if i < length (ru_conns r)
      then case serve_conn C A ck (ru_conns r ! i) (ru_server r) of
             (c, S) \<Rightarrow> r\<lparr>ru_server := S, ru_conns := (ru_conns r)[i := c]\<rparr>
      else r)"

definition listening :: "'g server \<Rightarrow> ('s, 'g) running" where
  "listening S = \<lparr>ru_server = S, ru_conns = [], ru_accepts = 0\<rparr>"

text \<open>The running server: the loop turns, a connection goes on, or a spawned producer task runs.\<close>

inductive run_step :: "('s, 'g) conn_lib \<Rightarrow> auth_lib \<Rightarrow> ('s, 'g) running \<Rightarrow> ('s, 'g) running \<Rightarrow> bool" for C A where
  run_accept: "run_step C A r (accept_turn C r)"
| run_conn: "fresh_session ck (rg_uploads (sv_reg (ru_server r))) \<Longrightarrow> run_step C A r (conn_turn C A ck i r)"
| run_spawned: "rg_tasks (sv_reg (ru_server r)) = ts @ k # us \<Longrightarrow>
    run_step C A r (r\<lparr>ru_server := (ru_server r)\<lparr>sv_reg :=
      producer_task (sv_env (ru_server r)) ck k ((sv_reg (ru_server r))\<lparr>rg_tasks := ts @ us\<rparr>)\<rparr>\<rparr>)"

inductive_cases run_stepE: "run_step C A r r'"

section \<open>The connections refine the application\<close>

text \<open>A turn of a connection is a request to the application, or nothing the application sees.\<close>

lemma serve_conn_cases:
  assumes "serve_conn C A ck c S = (c', S')"
  obtains (request) p q rep t where "cs_phase c = Open t" "app_call A ck p q S = (rep, S')" "c' = c\<lparr>cs_answers := cs_answers c @ [rep]\<rparr>"
  | (handshake) s t where "cs_phase c = Accepted s" "c' = c\<lparr>cs_phase := Open t\<rparr>" "S' = S"
      "\<And>cfg. sv_tls S = Some cfg \<Longrightarrow> cn_handshake C cfg s = Inr t"
  | (quiet) "cs_answers c' = cs_answers c" "cs_stream c' = cs_stream c" "S' = S" "c' = c \<or> (\<forall>s. cs_phase c' \<noteq> Accepted s \<and> cs_phase c' \<noteq> Open s)"
      "(\<exists>e. cs_phase c' = ConnectionError e) \<or> cs_phase c' = Served \<or> c' = c"
proof -
  show thesis
    using assms by (cases "cs_phase c"; cases "sv_tls S")
      (auto simp: serve_conn_def split: sum.splits conn_event.splits prod.splits intro: request handshake quiet)
qed

text \<open>A turn of one connection leaves every other as it was.\<close>

lemma conn_turn_others: "j \<noteq> i \<Longrightarrow> ru_conns (conn_turn C A ck i r) ! j = ru_conns r ! j"
  by (simp add: conn_turn_def split_def)

text \<open>An answer of the application in a state it can reach.\<close>

definition app_answer :: "auth_lib \<Rightarrow> 'g server \<Rightarrow> reply \<Rightarrow> bool" where
  "app_answer A S0 rep \<longleftrightarrow> (\<exists>S ck p q S'. (app_step A)\<^sup>*\<^sup>* S0 S \<and> app_call A ck p q S = (rep, S'))"

text \<open>What holds of every connection.\<close>

definition conn_sound :: "('s, 'g) conn_lib \<Rightarrow> auth_lib \<Rightarrow> 'g server \<Rightarrow> 's conn \<Rightarrow> bool" where
  "conn_sound C A S0 c \<longleftrightarrow>
     (\<forall>s. cs_phase c = Accepted s \<longrightarrow> s = cs_stream c \<and> cs_answers c = []) \<and>
     ((\<exists>t. cs_phase c = Open t) \<or> cs_answers c \<noteq> [] \<longrightarrow>
        (\<forall>cfg. sv_tls S0 = Some cfg \<longrightarrow> (\<exists>t. cn_handshake C cfg (cs_stream c) = Inr t))) \<and>
     (\<forall>rep \<in> set (cs_answers c). app_answer A S0 rep)"

lemma serve_conn_sound:
  assumes c: "conn_sound C A S0 c" and S: "(app_step A)\<^sup>*\<^sup>* S0 S" "sv_tls S = sv_tls S0" and n: "serve_conn C A ck c S = (c', S')"
  shows "conn_sound C A S0 c'"
  using n
proof (cases rule: serve_conn_cases)
  case (request p q rep t)
  moreover have "app_answer A S0 rep" unfolding app_answer_def using request(2) S(1) by blast
  ultimately show ?thesis using c by (auto simp: conn_sound_def)
next
  case (handshake s t)
  with c S show ?thesis by (auto simp: conn_sound_def)
next
  case quiet
  with c show ?thesis by (auto simp: conn_sound_def)
qed

lemma run_step_sound:
  assumes r: "run_step C A r r'" and S: "(app_step A)\<^sup>*\<^sup>* S0 (ru_server r)" "auth_sound A (sv_auth S0)"
    and c: "\<forall>c \<in> set (ru_conns r). conn_sound C A S0 c"
  shows "(app_step A)\<^sup>*\<^sup>* S0 (ru_server r') \<and> (\<forall>c \<in> set (ru_conns r'). conn_sound C A S0 c)"
  using r
proof (cases rule: run_step.cases)
  case run_accept
  then have "ru_server r' = ru_server r" by (simp add: accept_turn_def Let_def split: sum.splits)
  moreover have "\<forall>c \<in> set (ru_conns r'). conn_sound C A S0 c"
    using c by (auto simp: run_accept accept_turn_def Let_def conn_sound_def split: sum.splits)
  ultimately show ?thesis using S by simp
next
  case (run_conn ck i)
  obtain c' S' where n: "serve_conn C A ck (ru_conns r ! i) (ru_server r) = (c', S')" by fastforce
  show ?thesis
  proof (cases "i < length (ru_conns r)")
    case True
    have "sv_tls (ru_server r) = sv_tls S0" using app_reachable [OF S] by simp
    from serve_conn_sound [OF _ S(1) this n] c True have s: "conn_sound C A S0 c'" by simp
    have "app_step A (ru_server r) S' \<or> S' = ru_server r"
      using n by (cases rule: serve_conn_cases) (use run_conn(2) in \<open>auto intro: app_request\<close>)
    then have "(app_step A)\<^sup>*\<^sup>* S0 S'" using S(1) by (auto intro: rtranclp.rtrancl_into_rtrancl)
    with s c n True run_conn(1) show ?thesis by (auto simp: conn_turn_def dest!: set_update_subset_insert [THEN subsetD])
  qed (use run_conn S c in \<open>simp add: conn_turn_def\<close>)
next
  case (run_spawned ts k us ck)
  from app_spawned [OF run_spawned(2)] S(1) c show ?thesis
    unfolding run_spawned(1) by (auto intro: rtranclp.rtrancl_into_rtrancl)
qed

lemma running_sound:
  assumes "(run_step C A)\<^sup>*\<^sup>* (listening S0) r" and "auth_sound A (sv_auth S0)"
  shows "(app_step A)\<^sup>*\<^sup>* S0 (ru_server r) \<and> (\<forall>c \<in> set (ru_conns r). conn_sound C A S0 c)"
  using assms(1)
proof (induction rule: rtranclp_induct)
  case (step r r')
  then show ?case using run_step_sound [OF step(2) _ assms(2)] by blast
qed (simp add: listening_def)


text \<open>A listener with one client, which sends one request with wrong credentials.\<close>

definition demo_conn_lib :: "(nat, 'g) conn_lib" where
  "demo_conn_lib = \<lparr>cn_accept = (\<lambda>n. if n = 0 then Inr 7 else Inl EOther), cn_handshake = (\<lambda>cfg s. Inr s),
     cn_next = (\<lambda>s as. if as = [] then Incoming ''/v2/'' \<lparr>hq_method = GET, hq_query = [], hq_headers = [], hq_body = []\<rparr> else Finished)\<rparr>"


end
