(* ===== verification/Commands.thy ===== *)
theory Commands
  imports Complex_Main Gc Config Display
begin

text \<open>
  The maintenance commands of \<^verbatim>\<open>crates/quill-server/src/main.rs\<close>: \<^verbatim>\<open>du\<close>, \<^verbatim>\<open>gc\<close> and \<^verbatim>\<open>cache-rm\<close>, with the
  texts they print.  The commands read the configuration file first; the TOML parser is a parameter.
\<close>

section \<open>Sizes\<close>

text \<open>Rounding to the nearest integer, ties to even, as IEEE 754 conversions and \<^verbatim>\<open>{:.2}\<close> do.\<close>

definition round_half_even :: "rat \<Rightarrow> int" where
  "round_half_even x =
     (let q = \<lfloor>x\<rfloor>; r = x - of_int q
      in if r < 1 / 2 \<or> r = 1 / 2 \<and> even q then q else q + 1)"

text \<open>
  \<^verbatim>\<open>n as f64\<close>: the nearest number with 53 significant bits.  \<open>f64_shift\<close> is the number of bits of a 64-bit
  number beyond these.
\<close>

definition f64_shift :: "nat \<Rightarrow> nat" where
  "f64_shift n = length (takeWhile (\<lambda>e. 2 ^ (53 + e) \<le> n) [0..<11])"

definition u64_as_f64 :: "u64 \<Rightarrow> rat" where
  "u64_as_f64 n = (let e = f64_shift (unat n) in of_int (round_half_even (of_nat (unat n) / 2 ^ e)) * 2 ^ e)"

definition units :: "string list" where
  "units = [''B'', ''KB'', ''MB'', ''GB'', ''TB'']"

text \<open>The loop of \<^verbatim>\<open>format_bytes\<close>; a division of a number of at least 1024 by 1024 is exact.\<close>

function scale :: "rat \<Rightarrow> nat \<Rightarrow> rat \<times> nat" where
  "scale v i = (if v \<ge> 1024 \<and> i < length units - 1 then scale (v / 1024) (i + 1) else (v, i))"
  by pat_completeness auto

termination scale
  by (relation "measure (\<lambda>(v, i). length units - 1 - i)") auto

declare scale.simps [simp del]

text \<open>\<^verbatim>\<open>{:.2}\<close>\<close>

definition two_digits :: "nat \<Rightarrow> string" where
  "two_digits k = (if k < 10 then ''0'' @ dec k else dec k)"

definition fixed2 :: "rat \<Rightarrow> string" where
  "fixed2 v = (let k = nat (round_half_even (v * 100)) in dec (k div 100) @ ''.'' @ two_digits (k mod 100))"

definition format_bytes :: "u64 \<Rightarrow> string" where
  "format_bytes n =
     (case scale (u64_as_f64 n) 0 of
        (v, i) \<Rightarrow> if i = 0 then dec (unat n) @ '' '' @ units ! 0 else fixed2 v @ '' '' @ units ! i)"

section \<open>The commands\<close>

datatype command_error =
    LoadingConfig path config_error
  | CommandGc gc_error
  | RepoNotPresent string path
  | Removing path io_error

definition display_path :: "path \<Rightarrow> string" where
  "display_path p = ''/'' @ path_str p"

definition cmd_du :: "(string \<Rightarrow> config option) \<Rightarrow> path \<Rightarrow> fs \<Rightarrow> command_error + string" where
  "cmd_du toml cfg_path f =
     (case from_file toml cfg_path f of
        Inl e \<Rightarrow> Inl (LoadingConfig cfg_path e)
      | Inr cfg \<Rightarrow>
     (case disk_usage \<lparr>root = st_root (cf_storage cfg)\<rparr> f of
        Inl e \<Rightarrow> Inl (CommandGc e)
      | Inr bytes \<Rightarrow> Inr (format_bytes bytes @ [CHR 0x09] @ display_path (st_root (cf_storage cfg)) @ [CHR 0x0A])))"

definition gc_error_line :: "err_texts \<Rightarrow> path \<times> io_error \<Rightarrow> string" where
  "gc_error_line E x = ''delete '' @ display_path (fst x) @ '': '' @ et_io E (snd x)"

fun str_join :: "string \<Rightarrow> string list \<Rightarrow> string" where
  "str_join sep [] = []"
| "str_join sep [s] = s"
| "str_join sep (s # t # ss) = s @ sep @ str_join sep (t # ss)"

definition gc_text :: "err_texts \<Rightarrow> bool \<Rightarrow> gc_report \<Rightarrow> string" where
  "gc_text E dry_run r =
     (if dry_run then ''dry-run'' else ''live'') @ '': scanned '' @ dec (repos_scanned r) @ '' repo(s), '' @
     dec (roots r) @ '' root(s), '' @ dec (reachable_blobs r) @ '' reachable, '' @ dec (on_disk_blobs r) @ '' on-disk, '' @
     dec (deleted r) @ '' deleted ('' @ format_bytes (bytes_freed r) @ '' freed)'' @
     (if errors r = [] then []
      else [CHR 0x0A] @ ''errors: '' @ str_join ([CHR 0x0A] @ ''  '') (map (gc_error_line E) (errors r))) @ [CHR 0x0A]"

definition cmd_gc :: "(string \<Rightarrow> config option) \<Rightarrow> tags_codec \<Rightarrow> (bytes \<Rightarrow> json option) \<Rightarrow> err_texts \<Rightarrow> path \<Rightarrow> bool \<Rightarrow>
    fs \<Rightarrow> (command_error + string) \<times> fs" where
  "cmd_gc toml C from_slice E cfg_path dry_run f =
     (case from_file toml cfg_path f of
        Inl e \<Rightarrow> (Inl (LoadingConfig cfg_path e), f)
      | Inr cfg \<Rightarrow>
     (case gc_run C from_slice \<lparr>root = st_root (cf_storage cfg)\<rparr> [] dry_run f of
        (Inl e, f1) \<Rightarrow> (Inl (CommandGc e), f1)
      | (Inr report, f1) \<Rightarrow> (Inr (gc_text E dry_run report), f1)))"

definition cmd_cache_rm :: "(string \<Rightarrow> config option) \<Rightarrow> path \<Rightarrow> string \<Rightarrow> fs \<Rightarrow> (command_error + string) \<times> fs" where
  "cmd_cache_rm toml cfg_path repo f =
     (case from_file toml cfg_path f of
        Inl e \<Rightarrow> (Inl (LoadingConfig cfg_path e), f)
      | Inr cfg \<Rightarrow>
     (let dir = repo_dir \<lparr>root = st_root (cf_storage cfg)\<rparr> repo in
      if \<not> fs_exists dir f then (Inl (RepoNotPresent repo dir), f)
      else case fs_remove_dir_all dir f of
             (Inl e, f1) \<Rightarrow> (Inl (Removing dir e), f1)
           | (Inr _, f1) \<Rightarrow> (Inr (''removed '' @ display_path dir @ [CHR 0x0A]), f1)))"

section \<open>Sizes are exact to two digits\<close>

lemma round_half_even_near: "\<bar>of_int (round_half_even x) - x\<bar> \<le> 1 / 2"
proof -
  have "of_int \<lfloor>x\<rfloor> \<le> x" "x < of_int \<lfloor>x\<rfloor> + 1" by linarith+
  then show ?thesis unfolding round_half_even_def Let_def by (auto simp: abs_le_iff)
qed

lemma round_half_even_int [simp]: "round_half_even (of_int k) = k" "round_half_even (of_nat n) = int n"
  by (simp_all add: round_half_even_def) 

lemma f64_shift_small: "n < 2 ^ 53 \<Longrightarrow> f64_shift n = 0"
  by (simp add: f64_shift_def upt_rec)

lemma u64_as_f64_small: "unat n < 2 ^ 53 \<Longrightarrow> u64_as_f64 n = of_nat (unat n)"
  unfolding u64_as_f64_def Let_def
  by (simp only: f64_shift_small power_0 div_by_1 mult_1_right round_half_even_int of_int_of_nat_eq)

lemma f64_shift_le: "f64_shift n \<le> 11"
  using length_takeWhile_le [of "\<lambda>e. 2 ^ (53 + e) \<le> n" "[0..<11]"] by (simp add: f64_shift_def)

lemma u64_as_f64_near: "\<bar>u64_as_f64 n - of_nat (unat n)\<bar> \<le> 2 ^ 10"
proof -
  let ?e = "f64_shift (unat n)" and ?x = "of_nat (unat n) / 2 ^ f64_shift (unat n) :: rat"
  have p: "(2 :: rat) ^ ?e > 0" by simp
  have "u64_as_f64 n - of_nat (unat n) = (of_int (round_half_even ?x) - ?x) * 2 ^ ?e"
    by (simp add: u64_as_f64_def Let_def field_simps)
  then have "\<bar>u64_as_f64 n - of_nat (unat n)\<bar> = \<bar>of_int (round_half_even ?x) - ?x\<bar> * 2 ^ ?e" by (simp add: abs_mult)
  also have "\<dots> \<le> 1 / 2 * 2 ^ ?e" using round_half_even_near [of ?x] p by (intro mult_right_mono) auto
  also have "\<dots> \<le> 1 / 2 * (2 :: rat) ^ 11" using f64_shift_le [of "unat n"] by (intro mult_left_mono power_increasing) auto
  finally show ?thesis by simp
qed

lemma scale_spec:
  "i \<le> 4 \<Longrightarrow> scale v i = (w, j) \<Longrightarrow> i \<le> j \<and> j \<le> 4 \<and> v = w * 1024 ^ (j - i) \<and> (w < 1024 \<or> j = 4) \<and> (i < j \<longrightarrow> 1 \<le> w)"
proof (induction v i arbitrary: w j rule: scale.induct)
  case (1 v i)
  show ?case
  proof (cases "v \<ge> 1024 \<and> i < length units - 1")
    case True
    with 1(3) have s: "scale (v / 1024) (i + 1) = (w, j)" by (subst (asm) scale.simps) simp
    from True have i: "i + 1 \<le> 4" by (simp add: units_def)
    from 1(1) [OF True i s] have h: "i + 1 \<le> j" "j \<le> 4" "v / 1024 = w * 1024 ^ (j - (i + 1))" "w < 1024 \<or> j = 4" "i + 1 < j \<longrightarrow> 1 \<le> w" by auto
    from h(1) have "(1024 :: rat) ^ (j - i) = 1024 * 1024 ^ (j - (i + 1))" by (simp flip: power_Suc add: Suc_diff_Suc)
    with h(3) have "v = w * 1024 ^ (j - i)" by simp
    moreover have "1 \<le> w" using h(3,5) True h(1) by (cases "i + 1 = j") auto
    ultimately show ?thesis using h by simp
  next
    case False
    with 1(3) have "w = v" "j = i" by (subst (asm) scale.simps; auto)+
    with False 1(2) show ?thesis by (auto simp: units_def)
  qed
qed


text \<open>Where the conversion to \<^verbatim>\<open>f64\<close> stands with respect to a power of two it represents exactly.\<close>

lemma u64_as_f64_less:
  assumes "m \<le> 2 ^ 52"
  shows "u64_as_f64 n < of_nat m \<longleftrightarrow> unat n < m"
proof (cases "unat n < 2 ^ 53")
  case True
  then show ?thesis by (simp only: u64_as_f64_small of_nat_less_iff)
next
  case False
  then have "(2 :: rat) ^ 53 \<le> of_nat (unat n)" by (metis linorder_not_less of_nat_le_iff of_nat_numeral of_nat_power)
  then have "(2 :: rat) ^ 52 < u64_as_f64 n" using u64_as_f64_near [of n] by (simp add: abs_le_iff)
  moreover have "(of_nat m :: rat) \<le> 2 ^ 52" using assms by (metis of_nat_le_iff of_nat_numeral of_nat_power)
  ultimately show ?thesis using False assms by auto
qed

lemma fixed2_near: "0 \<le> v \<Longrightarrow> \<exists>k :: nat. fixed2 v = dec (k div 100) @ ''.'' @ two_digits (k mod 100) \<and> \<bar>of_nat k / 100 - v\<bar> \<le> 1 / 200"
proof -
  assume "0 \<le> v"
  then have "0 \<le> round_half_even (v * 100)"
    by (auto simp: round_half_even_def Let_def)
  then have "of_nat (nat (round_half_even (v * 100))) = (of_int (round_half_even (v * 100)) :: rat)" by simp
  with round_half_even_near [of "v * 100"] have "\<bar>of_nat (nat (round_half_even (v * 100))) / 100 - v\<bar> \<le> 1 / 200"
    by (simp only: abs_le_iff) linarith
  then show ?thesis unfolding fixed2_def Let_def by blast
qed

text \<open>
  The size that is printed is right: below 1024 the exact number of bytes; otherwise the number in the
  largest unit that does not exceed it, up to TB, with two digits after the point, and what is printed is
  within half a hundredth (and 2^-30, for the conversion to a floating-point number) of the exact quotient.
\<close>

lemma format_bytes_spec:
  "if unat n < 1024 then format_bytes n = dec (unat n) @ '' B''
   else \<exists>i k :: nat. i \<in> {1..4} \<and> 1024 ^ i \<le> unat n \<and> (i = 4 \<or> unat n < 1024 ^ (i + 1)) \<and>
     format_bytes n = dec (k div 100) @ ''.'' @ two_digits (k mod 100) @ '' '' @ units ! i \<and>
     \<bar>of_nat k / 100 - of_nat (unat n) / 1024 ^ i\<bar> \<le> (1 / 200 + 1 / 2 ^ 30 :: rat)"
proof -
  obtain v i where s: "scale (u64_as_f64 n) 0 = (v, i)" by fastforce
  from scale_spec [OF _ s] have i: "i \<le> 4" "u64_as_f64 n = v * 1024 ^ i" "v < 1024 \<or> i = 4" "0 < i \<longrightarrow> 1 \<le> v" by simp_all
  have lt: "u64_as_f64 n < 1024 ^ j \<longleftrightarrow> unat n < 1024 ^ j" if "j \<le> 5" for j
  proof -
    have "(1024 :: nat) ^ j \<le> 1024 ^ 5" using that by (intro power_increasing) auto
    then show ?thesis using u64_as_f64_less [of "1024 ^ j" n] by simp
  qed
  show ?thesis
  proof (cases "i = 0")
    case True
    with i lt [of 1] have "unat n < 1024" by simp
    with s True show ?thesis by (simp add: format_bytes_def units_def)
  next
    case False
    with i have v: "1 \<le> v" by simp
    have lo: "1024 ^ i \<le> unat n" using lt [of i] i v by (simp add: not_less [symmetric])
    have "(1024 :: nat) ^ 1 \<le> 1024 ^ i" using False by (intro power_increasing) auto
    with lo have big: "\<not> unat n < 1024" by simp
    have hi: "i = 4 \<or> unat n < 1024 ^ (i + 1)" using lt [of "i + 1"] i by auto
    obtain k :: nat where k: "fixed2 v = dec (k div 100) @ ''.'' @ two_digits (k mod 100)" "\<bar>of_nat k / 100 - v\<bar> \<le> 1 / 200"
      using fixed2_near [of v] v by auto
    have "\<bar>v - of_nat (unat n) / 1024 ^ i\<bar> \<le> 1 / 2 ^ 30"
    proof (cases "unat n < 2 ^ 53")
      case True
      from i(2) u64_as_f64_small [OF True] show ?thesis by (simp only: ) simp
    next
      case False
      with hi i(1) have "i = 4"
        using power_increasing [of "i + 1" 4 "1024 :: nat"] by (cases "i = 4") auto
      then show ?thesis using u64_as_f64_near [of n] i(2) by (simp only: abs_le_iff) simp
    qed
    with k(2) have "\<bar>of_nat k / 100 - of_nat (unat n) / 1024 ^ i\<bar> \<le> (1 / 200 + 1 / 2 ^ 30 :: rat)"
      by (simp only: abs_le_iff) linarith
    moreover have "format_bytes n = dec (k div 100) @ ''.'' @ two_digits (k mod 100) @ '' '' @ units ! i"
      using s False k(1) by (simp add: format_bytes_def)
    moreover have "i \<in> {1..4}" using False i(1) by simp
    ultimately show ?thesis using big lo hi by (simp only: if_False) blast
  qed
qed

section \<open>Removing a repository\<close>

lemma remove_dir_all_lookup:
  assumes "fs_remove_dir_all p f = (Inr u, f')" and "q \<noteq> []"
  shows "lookup f' q = (if prefix (resolve p) q then None else lookup f q)"
proof -
  from assms(1) have n: "nodes f' = filter (\<lambda>(q, n). \<not> starts_with (resolve p) q) (nodes f)"
    by (auto simp: fs_remove_dir_all_def Let_def split: if_splits option.splits fnode.splits)
  have "map_of (filter (\<lambda>(q, n). \<not> P q) xs) q = (if P q then None else map_of xs q)" for P and xs :: "(path \<times> fnode) list"
    by (induction xs) auto
  with n assms(2) show ?thesis by (simp add: lookup_def starts_with_iff)
qed



text \<open>A configuration on loopback, for a cache with two repositories.\<close>

definition demo_config :: config where
  "demo_config = \<lparr>cf_http = \<lparr>ht_address = ''127.0.0.1:5000'', ht_tls = None, ht_auth = None\<rparr>,
     cf_storage = \<lparr>st_root = [''q''], st_blob_meta_ttl_secs = default_blob_meta_ttl\<rparr>, cf_upstream = []\<rparr>"

definition two_repos_fs :: fs where
  "two_repos_fs = \<lparr>nodes = [([''c''], FFile [] 0), ([''q''], FDir), ([''q'', ''a''], FDir), ([''q'', ''a'', ''x''], FFile [1] 0),
     ([''q'', ''b''], FDir), ([''q'', ''b'', ''x''], FFile [2] 0)], faults = (\<lambda>_ _. None)\<rparr>"

lemma demo_config_loads: "file_at f [''c''] = Some [] \<Longrightarrow> no_faults f \<Longrightarrow> from_file (\<lambda>s. Some demo_config) [''c''] f = Inr demo_config"
  by (simp add: from_file_def fs_read_to_string_def read_ok resolve_canonical from_utf8_def validate_def is_localhost_def
      starts_with_def demo_config_def)


end
