(* ===== verification/Quill_Main.thy ===== *)
theory Quill_Main
  imports Server Commands
begin

text \<open>
  \<^verbatim>\<open>main\<close> of \<^verbatim>\<open>crates/quill-server/src/main.rs\<close>: the commands and what each of them does, up to the point
  where the server accepts connections.
\<close>

section \<open>The commands\<close>

datatype command = Serve path | Du path | Gc path bool | CacheRm path string

datatype 'g outcome = Serving "'g server" | ServeFailed server_error | Printed string | CommandFailed command_error

definition printed :: "command_error + string \<Rightarrow> 'g outcome" where
  "printed r = (case r of Inl e \<Rightarrow> CommandFailed e | Inr s \<Rightarrow> Printed s)"

definition quill_main :: "('c, 'k, 'g) server_lib \<Rightarrow> clock \<Rightarrow> command \<Rightarrow> fs \<Rightarrow> 'g outcome \<times> fs" where
  "quill_main H ck cmd f =
     (case cmd of
        Serve p \<Rightarrow> (case serve_start H ck p f of (r, f') \<Rightarrow> (case r of Inl e \<Rightarrow> ServeFailed e | Inr S \<Rightarrow> Serving S, f'))
      | Du p \<Rightarrow> (printed (cmd_du (sl_toml H) p f), f)
      | Gc p dry_run \<Rightarrow>
          (case cmd_gc (sl_toml H) (sl_tags_codec H) (sl_json H) (sl_texts H) p dry_run f of (r, f') \<Rightarrow> (printed r, f'))
      | CacheRm p repo \<Rightarrow> (case cmd_cache_rm (sl_toml H) p repo f of (r, f') \<Rightarrow> (printed r, f')))"

section \<open>Calls that only remove\<close>

definition only_removes :: "fs \<Rightarrow> fs \<Rightarrow> bool" where
  "only_removes f g \<longleftrightarrow> (\<forall>q. file_at g q = None \<or> file_at g q = file_at f q) \<and> keeps f g"

lemma only_removes_refl [simp]: "only_removes f f"
  by (simp add: only_removes_def)

lemma only_removes_trans: "only_removes f g \<Longrightarrow> only_removes g h \<Longrightarrow> only_removes f h"
  by (fastforce simp: only_removes_def intro: keeps_trans)

lemma only_removes_file: "only_removes f (snd (fs_remove_file p f))"
proof -
  have "file_at (snd (fs_remove_file p f)) q = None \<or> file_at (snd (fs_remove_file p f)) q = file_at f q" for q
  proof (cases "q = resolve p")
    case True
    then show ?thesis
      by (auto simp: fs_remove_file_def node_at_def fs_simps dest: lookup_Some_nonempty split: option.splits fnode.splits)
  qed (simp add: sys_remove.frame)
  then show ?thesis by (simp add: only_removes_def keeps_remove)
qed

lemma only_removes_gc_entries: "only_removes f (snd (gc_sweep_entries dry R repo dir es bad rep f))"
proof (induction dry R repo dir es bad rep f rule: gc_sweep_entries.induct)
  case (2 dry R repo dir name x es bad rep f)
  show ?case
    using 2 only_removes_file [of f "dir @ [name]"]
    by (auto simp: Let_def split: sum.splits fnode.splits prod.splits intro: only_removes_trans)
qed simp

lemma only_removes_gc_repos: "only_removes f (snd (gc_sweep_repos dry R L repos rep f))"
proof (induction repos arbitrary: rep f)
  case (Cons repo repos)
  have "only_removes f (snd (gc_sweep_entries dry R repo (sha256_dir L repo) es bad rep f))" for es bad
    by (rule only_removes_gc_entries)
  with Cons show ?case by (auto simp: Let_def split: sum.splits prod.splits) (metis only_removes_trans snd_conv)+
qed simp

lemma only_removes_gc: "only_removes f (snd (gc_run C js L extra dry f))"
  using only_removes_gc_repos by (auto simp: gc_run_def split: sum.splits)

lemma only_removes_dir_all: "only_removes f (snd (fs_remove_dir_all p f))"
proof (cases "fs_remove_dir_all p f")
  case (Pair r f')
  show ?thesis
  proof (cases r)
    case (Inl e)
    with Pair show ?thesis
      by (auto simp: fs_remove_dir_all_def Let_def split: if_splits option.splits fnode.splits)
  next
    case (Inr u)
    with Pair have n: "nodes f' = filter (\<lambda>(q, n). \<not> starts_with (resolve p) q) (nodes f)" "faults f' = faults f"
      by (auto simp: fs_remove_dir_all_def Let_def split: if_splits option.splits fnode.splits)
    note l = remove_dir_all_lookup [OF Pair [unfolded Inr]]
    have "fs_ok f'" if ok: "fs_ok f"
    proof -
      have "distinct (map fst (nodes f'))" "[] \<notin> fst ` set (nodes f')"
        using ok n by (auto simp: fs_ok_def distinct_map_filter)
      moreover have "''..'' \<notin> set q \<and> lookup f' (butlast q) = Some FDir" if q: "q \<noteq> []" "lookup f' q \<noteq> None" for q
      proof -
        from q l [OF q(1)] obtain m where m: "lookup f q = Some m" "\<not> prefix (resolve p) q" by (auto split: if_splits)
        have "\<not> prefix (resolve p) (butlast q)" using m(2) prefix_order.trans [OF _ prefixeq_butlast] by blast
        then have "lookup f' (butlast q) = lookup f (butlast q)"
          using l [of "butlast q"] by (cases "butlast q = []") (auto simp: lookup_def)
        with fs_okD [OF ok q(1) m(1)] fs_ok_canonical [OF ok m(1)] show ?thesis by simp
      qed
      ultimately show ?thesis by (auto simp: fs_ok_def)
    qed
    moreover have "file_at f' q = None \<or> file_at f' q = file_at f q" for q
      using l [of q] by (cases "q = []") (auto simp: file_at_def)
    ultimately show ?thesis using n Pair by (simp add: only_removes_def keeps_def)
  qed
qed

lemma only_removes_cas_ok: "only_removes f g \<Longrightarrow> cas_ok sha f \<Longrightarrow> cas_ok sha g"
proof (erule cas_ok_subset)
  fix p h b assume "only_removes f g" "file_at g (slot p h) = Some b"
  then show "file_at f (slot p h) = Some b" unfolding only_removes_def by (metis option.distinct(1))
qed

section \<open>Every command keeps the cache consistent\<close>

text \<open>Whether a command may change the files.\<close>

fun read_only :: "command \<Rightarrow> bool" where
  "read_only (Du p) = True"
| "read_only (Gc p dry_run) = dry_run"
| "read_only _ = False"

fun removes_only :: "command \<Rightarrow> bool" where
  "removes_only (Serve p) = False"
| "removes_only _ = True"

lemma main_removes: "removes_only cmd \<Longrightarrow> only_removes f (snd (quill_main H ck cmd f))"
proof (cases cmd)
  case (Gc p dry)
  have "only_removes f (snd (cmd_gc toml C js E p dry f))" for toml C js E
    using only_removes_gc [of f C js _ "[]" dry]
    by (auto simp: cmd_gc_def split: sum.splits prod.splits) (metis snd_conv)+
  with Gc show ?thesis by (simp add: quill_main_def split_def)
next
  case (CacheRm p repo)
  have "only_removes f (snd (cmd_cache_rm toml p repo f))" for toml
    using only_removes_dir_all [of f]
    by (auto simp: cmd_cache_rm_def Let_def split: sum.splits prod.splits) (metis snd_conv)+
  with CacheRm show ?thesis by (simp add: quill_main_def split_def)
qed (simp_all add: quill_main_def)



end
